(* ===== verification/Prelude.thy ===== *)
theory Prelude
  imports Main "HOL-Library.Word" "HOL-Library.Monad_Syntax"
begin

text \<open>
  Shared vocabulary of the development: the machine types of the C sources, the wrap-around
  arithmetic of \<^verbatim>\<open>size_t\<close>, bounded accesses to an allocated byte array, the big-endian accessors,
  the error codes, the build configuration, and the generic lemmas the components use.

  Conventions. A computation of type \<^typ>\<open>'a option\<close> in the \<^theory_text>\<open>do\<close> notation is a piece of C code:
  \<^const>\<open>None\<close> is undefined behaviour (an access outside the allocated object, a dereference of
  the null pointer, a failed \<^verbatim>\<open>__ASSERT\<close>), so \<^prop>\<open>f s \<noteq> None\<close> is memory safety of \<open>f\<close> in state
  \<open>s\<close>. An error that the code reports is a value of type \<open>ret\<close>.
\<close>

unbundle bit_operations_syntax

named_theorems size_simps \<open>size_t arithmetic without wrap-around\<close>
named_theorems mem_simps \<open>bounded reads and writes\<close>

section \<open>Machine types\<close>

type_synonym byte = "8 word"
type_synonym u16 = "16 word"
type_synonym u32 = "32 word"
type_synonym u64 = "64 word"
type_synonym size_t = nat
type_synonym cstr = "byte list"

text \<open>
  A \<^verbatim>\<open>size_t\<close> is 32 bits wide on the supported targets; it is a \<^typ>\<open>nat\<close> whose sums and
  differences are reduced where the code computes them.
\<close>

definition SIZE_MOD :: nat where
  "SIZE_MOD = 4294967296"

definition sz_add :: "size_t \<Rightarrow> size_t \<Rightarrow> size_t" where
  "sz_add a b = (a + b) mod SIZE_MOD"

definition sz_sub :: "size_t \<Rightarrow> size_t \<Rightarrow> size_t" where
  "sz_sub a b = (if b \<le> a then a - b else SIZE_MOD + a - b)"

text \<open>The bytes of a string literal.\<close>

definition cstr :: "string \<Rightarrow> cstr" where
  "cstr s = map of_char s"

text \<open>The string in a \<^verbatim>\<open>char\<close> array: the bytes before the first zero.\<close>

definition c_string :: "byte list \<Rightarrow> cstr" where
  "c_string xs = takeWhile (\<lambda>x. x \<noteq> 0) xs"

section \<open>Results of the API\<close>

text \<open>The error numbers the code returns; \<open>EZCBOR\<close> stands for a code that zcbor returned.\<close>

datatype errno = EPERM | ENOENT | EIO | EAGAIN | ENOMEM | EBUSY | EINVAL | ENODEV | ENODATA
  | ENOTSUP | EBADMSG | EALREADY | ENOTCONN | EISDIR | EZCBOR

text \<open>An \<^verbatim>\<open>int\<close> result that is 0 or a negative error code.\<close>

datatype ret = OK | Err errno

section \<open>Build configuration\<close>

text \<open>
  The Kconfig symbols the modelled code depends on. \<open>config_saead\<close> tells the SAEAD build from the
  plaintext build; the tag length is 16 in the former and 0 in the latter.
\<close>

record config =
  config_block_size :: nat
  config_auth_tag_len :: nat
  config_saead :: bool
  config_event_queue_depth :: nat
  config_server_cert_max_len :: nat
  config_validate_server_cert :: bool

definition default_config :: config where
  "default_config = \<lparr>config_block_size = 512, config_auth_tag_len = 16,
     config_saead = True, config_event_queue_depth = 4, config_server_cert_max_len = 4096,
     config_validate_server_cert = True\<rparr>"

definition plaintext_config :: config where
  "plaintext_config = default_config\<lparr>config_auth_tag_len := 0, config_saead := False\<rparr>"

section \<open>Accesses to an allocated array\<close>

text \<open>
  No object is as large as the address space: a load from an array that would be is a fault too,
  so a load that succeeds never involves a wrapped offset.
\<close>

definition mem_read :: "nat \<Rightarrow> nat \<Rightarrow> byte list \<Rightarrow> byte list option" where
  "mem_read p n m = (if p + n \<le> length m \<and> length m < SIZE_MOD then Some (take n (drop p m)) else None)"

definition mem_write :: "nat \<Rightarrow> byte list \<Rightarrow> byte list \<Rightarrow> byte list option" where
  "mem_write p xs m =
     (if p + length xs \<le> length m then Some (take p m @ xs @ drop (p + length xs) m) else None)"

section \<open>Big-endian accessors\<close>

definition sys_put_be16 :: "u16 \<Rightarrow> byte list" where
  "sys_put_be16 v = [ucast (drop_bit 8 v), ucast v]"

definition sys_get_be16 :: "byte list \<Rightarrow> u16" where
  "sys_get_be16 xs = push_bit 8 (ucast (xs ! 0)) OR ucast (xs ! 1)"

definition sys_get_be32 :: "byte list \<Rightarrow> u32" where
  "sys_get_be32 xs = push_bit 16 (ucast (sys_get_be16 xs)) OR ucast (sys_get_be16 (drop 2 xs))"

definition sys_get_be64 :: "byte list \<Rightarrow> u64" where
  "sys_get_be64 xs = push_bit 32 (ucast (sys_get_be32 xs)) OR ucast (sys_get_be32 (drop 4 xs))"

section \<open>Lemmas\<close>

subsection \<open>size\_t arithmetic\<close>

lemma sz_add_eq [size_simps]: "a + b < SIZE_MOD \<Longrightarrow> sz_add a b = a + b"
  by (simp add: sz_add_def)

lemma sz_add_0 [simp]: "a < SIZE_MOD \<Longrightarrow> sz_add a 0 = a" "a < SIZE_MOD \<Longrightarrow> sz_add 0 a = a"
  by (simp_all add: sz_add_def)

lemma sz_add_less [simp]: "sz_add a b < SIZE_MOD"
  by (simp add: sz_add_def SIZE_MOD_def)

lemma sz_sub_eq [size_simps]: "b \<le> a \<Longrightarrow> sz_sub a b = a - b"
  by (simp add: sz_sub_def)

lemma sz_sub_self [simp]: "sz_sub a a = 0"
  by (simp add: sz_sub_def)

lemma sz_sub_0 [simp]: "sz_sub a 0 = a"
  by (simp add: sz_sub_def)

lemma sz_sub_wraps: "a < b \<Longrightarrow> b \<le> SIZE_MOD \<Longrightarrow> sz_sub a b = SIZE_MOD - (b - a)"
  by (simp add: sz_sub_def)

subsection \<open>Strings\<close>

lemma length_c_string_less: "0 \<in> set xs \<Longrightarrow> length (c_string xs) < length xs"
  by (induction xs) (auto simp: c_string_def)

lemma c_string_app_zero: "0 \<notin> set s \<Longrightarrow> c_string (s @ 0 # ys) = s"
  by (induction s) (simp_all add: c_string_def)

subsection \<open>Bounded accesses\<close>

lemma mem_read_Some_iff [mem_simps]:
  "mem_read p n m = Some xs \<longleftrightarrow> p + n \<le> length m \<and> length m < SIZE_MOD \<and> xs = take n (drop p m)"
  by (auto simp: mem_read_def)

lemma mem_read_None_iff [mem_simps]: "mem_read p n m = None \<longleftrightarrow> length m < p + n \<or> SIZE_MOD \<le> length m"
  by (auto simp: mem_read_def)

lemma mem_write_Some_iff [mem_simps]:
  "mem_write p xs m = Some m' \<longleftrightarrow>
     p + length xs \<le> length m \<and> m' = take p m @ xs @ drop (p + length xs) m"
  by (auto simp: mem_write_def)

lemma mem_write_None_iff [mem_simps]: "mem_write p xs m = None \<longleftrightarrow> length m < p + length xs"
  by (auto simp: mem_write_def)

lemma mem_write_length: "mem_write p xs m = Some m' \<Longrightarrow> length m' = length m"
  by (auto simp: mem_simps)

lemma mem_write_read: "mem_write p xs m = Some m' \<Longrightarrow> length m < SIZE_MOD \<Longrightarrow> mem_read p (length xs) m' = Some xs"
  by (auto simp: mem_simps)

subsection \<open>Big-endian accessors\<close>

lemma length_sys_put_be16 [simp]: "length (sys_put_be16 v) = 2"
  by (simp add: sys_put_be16_def)

lemma sys_get_put_be16 [simp]: "sys_get_be16 (sys_put_be16 v @ xs) = v"
  unfolding sys_get_be16_def sys_put_be16_def
  by (rule bit_word_eqI) (auto simp: bit_simps)

lemma sys_get_put_be16_Nil [simp]: "sys_get_be16 (sys_put_be16 v) = v"
  using sys_get_put_be16 [of v "[]"] by simp

lemma sys_put_get_be16: "sys_put_be16 (sys_get_be16 [a, b]) = [a, b]"
  unfolding sys_get_be16_def sys_put_be16_def
  by (simp, intro conjI; rule bit_word_eqI) (auto simp: bit_simps dest: bit_imp_le_length)

lemma sys_get_be16_cong: "take 2 xs = take 2 ys \<Longrightarrow> 2 \<le> length xs \<Longrightarrow> 2 \<le> length ys
  \<Longrightarrow> sys_get_be16 xs = sys_get_be16 ys"
  by (cases xs; cases "tl xs"; cases ys; cases "tl ys") (auto simp: sys_get_be16_def)

lemma unat_of_nat_u16 [simp]: "n < 65536 \<Longrightarrow> unat (word_of_nat n :: u16) = n"
  by (simp add: unat_of_nat)

lemma unat_of_nat_byte [simp]: "n < 256 \<Longrightarrow> unat (word_of_nat n :: byte) = n"
  by (simp add: unat_of_nat)

lemma unat_u16_less [simp]: "unat (v :: u16) < 65536"
  using unsigned_less [of v] by simp

lemma unat_byte_less [simp]: "unat (v :: byte) < 256"
  using unsigned_less [of v] by simp

end
