(* ===== verification/Buf.thy ===== *)
theory Buf
  imports Prelude
begin

text \<open>
  Buffers, buffer queues and buffer views: \<^verbatim>\<open>src/buf.c\<close> and \<^verbatim>\<open>src/buf.h\<close>.

  A \<^verbatim>\<open>struct pouch_buf\<close> is a record of its byte count and its allocated storage; the length of the
  storage is the size passed to \<^verbatim>\<open>buf_alloc\<close>. Every buffer has one owner at a time (a queue, a view, a
  static variable or a local one), so a pointer is modelled by the value it points to, and the
  ownership that the code moves is moved with it. The allocator state counts the live buffers as the
  atomic \<^verbatim>\<open>bufs\<close> does; which call of \<^verbatim>\<open>malloc\<close> succeeds and what fresh memory holds are arbitrary
  functions of the state. A queue (Zephyr's singly linked list) is the list of its nodes.
\<close>

section \<open>Data\<close>

record pouch_buf =
  pb_bytes :: size_t
  pb_data :: "byte list"

record heap =
  bufs :: int
  mallocs :: nat
  malloc_ok :: "nat \<Rightarrow> bool"
  junk :: "nat \<Rightarrow> nat \<Rightarrow> byte"

record pouch_bufview =
  bv_buf :: "pouch_buf option"
  bv_offset :: size_t

type_synonym pouch_buf_queue = "pouch_buf list"

definition POUCH_BUF_STATE_INITIAL :: size_t where
  "POUCH_BUF_STATE_INITIAL = 0"

section \<open>Allocation\<close>

text \<open>One call of \<^verbatim>\<open>malloc\<close>: whether it succeeds, and the allocator state after it.\<close>

definition malloc :: "heap \<Rightarrow> bool \<times> heap" where
  "malloc h = (malloc_ok h (mallocs h), h\<lparr>mallocs := Suc (mallocs h)\<rparr>)"

definition buf_alloc :: "size_t \<Rightarrow> heap \<Rightarrow> pouch_buf option \<times> heap" where
  "buf_alloc n h =
     (case malloc h of (ok, h') \<Rightarrow>
        if ok
        then (Some \<lparr>pb_bytes = 0, pb_data = map (junk h (mallocs h)) [0..<n]\<rparr>,
              h'\<lparr>bufs := bufs h' + 1\<rparr>)
        else (None, h'))"

definition buf_free :: "pouch_buf option \<Rightarrow> heap \<Rightarrow> heap" where
  "buf_free b h = (case b of None \<Rightarrow> h | Some _ \<Rightarrow> h\<lparr>bufs := bufs h - 1\<rparr>)"

definition buf_active_count :: "heap \<Rightarrow> int" where
  "buf_active_count h = bufs h"

section \<open>Buffer operations\<close>

text \<open>A store and a load through a pointer into the buffer's storage.\<close>

definition buf_poke :: "nat \<Rightarrow> byte list \<Rightarrow> pouch_buf \<Rightarrow> pouch_buf option" where
  "buf_poke p xs b = map_option (\<lambda>d. b\<lparr>pb_data := d\<rparr>) (mem_write p xs (pb_data b))"

definition buf_peek :: "nat \<Rightarrow> nat \<Rightarrow> pouch_buf \<Rightarrow> byte list option" where
  "buf_peek p n b = mem_read p n (pb_data b)"

definition buf_claim :: "pouch_buf \<Rightarrow> size_t \<Rightarrow> nat \<times> pouch_buf" where
  "buf_claim b n = (pb_bytes b, b\<lparr>pb_bytes := sz_add (pb_bytes b) n\<rparr>)"

definition buf_write :: "byte list \<Rightarrow> pouch_buf \<Rightarrow> pouch_buf option" where
  "buf_write xs b = (case buf_claim b (length xs) of (p, b') \<Rightarrow> buf_poke p xs b')"

definition buf_bytes_get :: "pouch_buf \<Rightarrow> size_t" where
  "buf_bytes_get b = pb_bytes b"

definition buf_bytes_set :: "pouch_buf \<Rightarrow> size_t \<Rightarrow> pouch_buf" where
  "buf_bytes_set b n = b\<lparr>pb_bytes := n\<rparr>"

definition buf_next :: "pouch_buf \<Rightarrow> nat" where
  "buf_next b = pb_bytes b"

definition buf_state_get :: "pouch_buf \<Rightarrow> size_t" where
  "buf_state_get b = pb_bytes b"

definition buf_restore :: "pouch_buf \<Rightarrow> size_t \<Rightarrow> pouch_buf" where
  "buf_restore b n = b\<lparr>pb_bytes := n\<rparr>"

definition buf_size_get :: "pouch_buf \<Rightarrow> size_t" where
  "buf_size_get b = pb_bytes b"

definition buf_trim_start :: "size_t \<Rightarrow> pouch_buf \<Rightarrow> (size_t \<times> pouch_buf) option" where
  "buf_trim_start n b =
     (let n = min n (pb_bytes b);
          b = b\<lparr>pb_bytes := pb_bytes b - n\<rparr>
      in do { xs \<leftarrow> buf_peek n (pb_bytes b) b;
              b \<leftarrow> buf_poke 0 xs b;
              Some (n, b) })"

definition buf_trim_end :: "size_t \<Rightarrow> pouch_buf \<Rightarrow> size_t \<times> pouch_buf" where
  "buf_trim_end n b = (let n = min n (pb_bytes b) in (n, b\<lparr>pb_bytes := pb_bytes b - n\<rparr>))"

section \<open>Queues\<close>

definition buf_queue_init :: pouch_buf_queue where
  "buf_queue_init = []"

definition buf_queue_submit :: "pouch_buf_queue \<Rightarrow> pouch_buf \<Rightarrow> pouch_buf_queue" where
  "buf_queue_submit q b = q @ [b]"

fun buf_queue_get :: "pouch_buf_queue \<Rightarrow> pouch_buf option \<times> pouch_buf_queue" where
  "buf_queue_get [] = (None, [])"
| "buf_queue_get (b # q) = (Some b, q)"

fun buf_queue_peek :: "pouch_buf_queue \<Rightarrow> pouch_buf option" where
  "buf_queue_peek [] = None"
| "buf_queue_peek (b # q) = Some b"

definition buf_queue_is_empty :: "pouch_buf_queue \<Rightarrow> bool" where
  "buf_queue_is_empty q = (buf_queue_peek q = None)"

section \<open>Views\<close>

definition pouch_bufview_init :: "pouch_buf option \<Rightarrow> pouch_bufview" where
  "pouch_bufview_init b = \<lparr>bv_buf = b, bv_offset = 0\<rparr>"

definition bufview_read :: "size_t \<Rightarrow> pouch_bufview \<Rightarrow> (nat \<times> pouch_bufview) option" where
  "bufview_read n v =
     (case bv_buf v of
        None \<Rightarrow> None
      | Some _ \<Rightarrow> Some (bv_offset v, v\<lparr>bv_offset := sz_add (bv_offset v) n\<rparr>))"

text \<open>A load of \<open>n\<close> bytes through a pointer that \<^verbatim>\<open>bufview_read\<close> returned.\<close>

definition bufview_deref :: "nat \<Rightarrow> nat \<Rightarrow> pouch_bufview \<Rightarrow> byte list option" where
  "bufview_deref p n v = (case bv_buf v of None \<Rightarrow> None | Some b \<Rightarrow> buf_peek p n b)"

definition pouch_bufview_available :: "pouch_bufview \<Rightarrow> size_t" where
  "pouch_bufview_available v =
     (case bv_buf v of None \<Rightarrow> 0 | Some b \<Rightarrow> sz_sub (pb_bytes b) (bv_offset v))"

definition pouch_bufview_memcpy :: "size_t \<Rightarrow> pouch_bufview \<Rightarrow> (byte list \<times> pouch_bufview) option" where
  "pouch_bufview_memcpy n v =
     (let n = min n (pouch_bufview_available v)
      in do { (p, v) \<leftarrow> bufview_read n v;
              xs \<leftarrow> bufview_deref p n v;
              Some (xs, v) })"

text \<open>The result is a pointer: \<^const>\<open>None\<close> inside is \<^verbatim>\<open>NULL\<close>, a number is an offset into the buffer.\<close>

definition pouch_bufview_read :: "size_t \<Rightarrow> pouch_bufview \<Rightarrow> (nat option \<times> pouch_bufview) option" where
  "pouch_bufview_read n v =
     (if pouch_bufview_available v < n then Some (None, v)
      else map_option (\<lambda>(p, v). (Some p, v)) (bufview_read n v))"

definition pouch_bufview_read_byte :: "pouch_bufview \<Rightarrow> (byte \<times> pouch_bufview) option" where
  "pouch_bufview_read_byte v =
     do { (p, v) \<leftarrow> bufview_read 1 v; xs \<leftarrow> bufview_deref p 1 v; Some (hd xs, v) }"

definition pouch_bufview_read_be16 :: "pouch_bufview \<Rightarrow> (u16 \<times> pouch_bufview) option" where
  "pouch_bufview_read_be16 v =
     do { (p, v) \<leftarrow> bufview_read 2 v; xs \<leftarrow> bufview_deref p 2 v; Some (sys_get_be16 xs, v) }"

definition pouch_bufview_read_be32 :: "pouch_bufview \<Rightarrow> (u32 \<times> pouch_bufview) option" where
  "pouch_bufview_read_be32 v =
     do { (p, v) \<leftarrow> bufview_read 4 v; xs \<leftarrow> bufview_deref p 4 v; Some (sys_get_be32 xs, v) }"

definition pouch_bufview_read_be64 :: "pouch_bufview \<Rightarrow> (u64 \<times> pouch_bufview) option" where
  "pouch_bufview_read_be64 v =
     do { (p, v) \<leftarrow> bufview_read 8 v; xs \<leftarrow> bufview_deref p 8 v; Some (sys_get_be64 xs, v) }"

definition pouch_bufview_is_ready :: "pouch_bufview \<Rightarrow> bool" where
  "pouch_bufview_is_ready v = (bv_buf v \<noteq> None \<and> pouch_bufview_available v > 0)"

definition pouch_bufview_free :: "pouch_bufview \<Rightarrow> heap \<Rightarrow> pouch_bufview \<times> heap" where
  "pouch_bufview_free v h = (\<lparr>bv_buf = None, bv_offset = 0\<rparr>, buf_free (bv_buf v) h)"

section \<open>Abstraction and well-formedness\<close>

definition contents :: "pouch_buf \<Rightarrow> byte list" where
  "contents b = take (pb_bytes b) (pb_data b)"

abbreviation capacity :: "pouch_buf \<Rightarrow> nat" where
  "capacity b \<equiv> length (pb_data b)"

definition wf_buf :: "pouch_buf \<Rightarrow> bool" where
  "wf_buf b \<longleftrightarrow> pb_bytes b \<le> capacity b \<and> capacity b < SIZE_MOD"

text \<open>The buffer after \<open>xs\<close> has been written behind its contents.\<close>

definition buf_append :: "byte list \<Rightarrow> pouch_buf \<Rightarrow> pouch_buf" where
  "buf_append xs b = b\<lparr>pb_bytes := pb_bytes b + length xs,
     pb_data := take (pb_bytes b) (pb_data b) @ xs @ drop (pb_bytes b + length xs) (pb_data b)\<rparr>"

definition fits :: "byte list \<Rightarrow> pouch_buf \<Rightarrow> bool" where
  "fits xs b \<longleftrightarrow> wf_buf b \<and> pb_bytes b + length xs \<le> capacity b"

definition view_ok :: "pouch_bufview \<Rightarrow> bool" where
  "view_ok v = (case bv_buf v of None \<Rightarrow> False | Some b \<Rightarrow> wf_buf b \<and> bv_offset v \<le> pb_bytes b)"

definition view_rest :: "pouch_bufview \<Rightarrow> byte list" where
  "view_rest v = (case bv_buf v of None \<Rightarrow> [] | Some b \<Rightarrow> drop (bv_offset v) (contents b))"

definition view_advance :: "nat \<Rightarrow> pouch_bufview \<Rightarrow> pouch_bufview" where
  "view_advance n v = v\<lparr>bv_offset := bv_offset v + n\<rparr>"

text \<open>How many live buffers an owner accounts for.\<close>

definition own :: "pouch_buf option \<Rightarrow> int" where
  "own b = (case b of None \<Rightarrow> 0 | Some _ \<Rightarrow> 1)"

section \<open>Lemmas\<close>

subsection \<open>Ownership\<close>

lemma own_simps [simp]: "own None = 0" "own (Some b) = 1"
  by (simp_all add: own_def)

lemma own_nonneg [simp]: "0 \<le> own b"
  by (cases b) simp_all

lemma bufs_malloc [simp]: "bufs (snd (malloc h)) = bufs h"
  by (simp add: malloc_def)

lemma bufs_buf_alloc: "buf_alloc n h = (b, h') \<Longrightarrow> bufs h' = bufs h + own b"
  by (auto simp: buf_alloc_def malloc_def split: if_splits)

lemma bufs_buf_free [simp]: "bufs (buf_free b h) = bufs h - own b"
  by (cases b) (simp_all add: buf_free_def)

lemma buf_alloc_Some:
  assumes "buf_alloc n h = (Some b, h')"
  shows "pb_bytes b = 0" "capacity b = n" "n < SIZE_MOD \<Longrightarrow> wf_buf b" "contents b = []"
  using assms by (auto simp: buf_alloc_def malloc_def wf_buf_def contents_def split: if_splits)

text \<open>Freeing never faults and gives back what allocation took.\<close>

lemma alloc_free_balance: "buf_alloc n h = (b, h') \<Longrightarrow> buf_active_count (buf_free b h') = buf_active_count h"
  by (simp add: buf_active_count_def bufs_buf_alloc)

subsection \<open>Appending\<close>

lemma contents_length [simp]: "wf_buf b \<Longrightarrow> length (contents b) = pb_bytes b"
  by (simp add: contents_def wf_buf_def)

lemma wf_buf_contentsD: "wf_buf b \<Longrightarrow> take (pb_bytes b) (pb_data b) = contents b"
  by (simp add: contents_def)

lemma fits_wf: "fits xs b \<Longrightarrow> wf_buf b"
  by (simp add: fits_def)

lemma fits_Nil [simp]: "fits [] b = wf_buf b"
  by (auto simp: fits_def wf_buf_def)

lemma buf_append_Nil [simp]: "buf_append [] b = b"
  by (simp add: buf_append_def)

lemma buf_append_fields:
  assumes "fits xs b"
  shows "pb_bytes (buf_append xs b) = pb_bytes b + length xs"
    and "capacity (buf_append xs b) = capacity b"
    and "wf_buf (buf_append xs b)"
    and "contents (buf_append xs b) = contents b @ xs"
  using assms by (auto simp: fits_def wf_buf_def buf_append_def contents_def)

lemma buf_append_data:
  assumes "fits xs b"
  shows "pb_data (buf_append xs b) = contents b @ xs @ drop (pb_bytes b + length xs) (pb_data b)"
  using assms by (simp add: buf_append_def contents_def)

lemma fits_buf_append [simp]: "fits xs b \<Longrightarrow> fits ys (buf_append xs b) \<longleftrightarrow> fits (xs @ ys) b"
  by (auto simp: fits_def buf_append_fields)

lemma fits_appendD: "fits (xs @ ys) b \<Longrightarrow> fits xs b"
  by (auto simp: fits_def)

lemma buf_append_append:
  assumes "fits (xs @ ys) b"
  shows "buf_append ys (buf_append xs b) = buf_append (xs @ ys) b"
  using assms by (simp add: buf_append_def fits_def wf_buf_def add.assoc add.commute add.left_commute)

lemma buf_write_eq: "fits xs b \<Longrightarrow> buf_write xs b = Some (buf_append xs b)"
  by (auto simp: buf_write_def buf_claim_def buf_poke_def mem_write_def buf_append_def fits_def
      wf_buf_def size_simps)

text \<open>A write faults exactly when it does not fit behind the contents.\<close>

lemma buf_write_None_iff: "wf_buf b \<Longrightarrow> buf_write xs b = None \<longleftrightarrow> \<not> fits xs b"
  by (auto simp: buf_write_def buf_claim_def buf_poke_def fits_def mem_simps)

subsection \<open>Trimming\<close>

lemma buf_trim_start_eq:
  assumes "wf_buf b"
  shows "\<exists>b'. buf_trim_start n b = Some (min n (pb_bytes b), b') \<and> wf_buf b'
           \<and> contents b' = drop n (contents b) \<and> capacity b' = capacity b
           \<and> pb_bytes b' = pb_bytes b - min n (pb_bytes b)"
  using assms
  by (auto simp: buf_trim_start_def buf_peek_def buf_poke_def mem_read_def mem_write_def wf_buf_def
      contents_def Let_def min_def take_drop)

lemma buf_trim_end_eq:
  assumes "wf_buf b" "n \<le> pb_bytes b" "buf_trim_end n b = (m, b')"
  shows "m = n" "wf_buf b'" "contents b' = take (pb_bytes b - n) (contents b)"
    "pb_bytes b' = pb_bytes b - n" "capacity b' = capacity b"
  using assms by (auto simp: buf_trim_end_def wf_buf_def contents_def min_def Let_def)

subsection \<open>Views\<close>

lemma view_ok_init [simp]: "view_ok (pouch_bufview_init (Some b)) \<longleftrightarrow> wf_buf b"
  by (simp add: view_ok_def pouch_bufview_init_def)

lemma view_rest_init [simp]: "view_rest (pouch_bufview_init (Some b)) = contents b"
  by (simp add: view_rest_def pouch_bufview_init_def)

lemma view_ok_advance [simp]: "view_ok v \<Longrightarrow> n \<le> length (view_rest v) \<Longrightarrow> view_ok (view_advance n v)"
  by (auto simp: view_ok_def view_rest_def view_advance_def split: option.splits)

lemma view_rest_advance [simp]: "view_rest (view_advance n v) = drop n (view_rest v)"
  by (simp add: view_rest_def view_advance_def add.commute split: option.splits)

lemma view_advance_0 [simp]: "view_advance 0 v = v"
  by (simp add: view_advance_def)

lemma view_advance_add: "view_advance m (view_advance n v) = view_advance (n + m) v"
  by (simp add: view_advance_def add.assoc)

lemma bv_buf_advance [simp]: "bv_buf (view_advance n v) = bv_buf v"
  by (simp add: view_advance_def)

lemma view_available: "view_ok v \<Longrightarrow> pouch_bufview_available v = length (view_rest v)"
  by (auto simp: view_ok_def view_rest_def pouch_bufview_available_def size_simps split: option.splits)

lemma view_okE:
  assumes "view_ok v"
  obtains b where "bv_buf v = Some b" "wf_buf b" "bv_offset v \<le> pb_bytes b"
    "view_rest v = drop (bv_offset v) (contents b)"
    "length (view_rest v) = pb_bytes b - bv_offset v"
  using assms by (auto simp: view_ok_def view_rest_def split: option.splits)

lemma bufview_read_eq:
  assumes "view_ok v" "n \<le> length (view_rest v)"
  shows "bufview_read n v = Some (bv_offset v, view_advance n v)"
    and "bufview_deref (bv_offset v) n (view_advance m v) = Some (take n (view_rest v))"
proof -
  obtain b where b: "bv_buf v = Some b" "wf_buf b" "bv_offset v \<le> pb_bytes b"
    "view_rest v = drop (bv_offset v) (contents b)"
    "length (view_rest v) = pb_bytes b - bv_offset v"
    using assms(1) by (rule view_okE)
  then have le: "bv_offset v + n \<le> pb_bytes b" "pb_bytes b \<le> capacity b" "capacity b < SIZE_MOD"
    using assms(2) by (auto simp: wf_buf_def)
  then have "sz_add (bv_offset v) n = bv_offset v + n"
    by (simp add: size_simps)
  with b(1) show "bufview_read n v = Some (bv_offset v, view_advance n v)"
    by (simp add: bufview_read_def view_advance_def)
  show "bufview_deref (bv_offset v) n (view_advance m v) = Some (take n (view_rest v))"
    using b le by (simp add: bufview_deref_def buf_peek_def mem_read_def contents_def drop_take min_def)
qed

lemma pouch_bufview_memcpy_eq:
  "view_ok v \<Longrightarrow> pouch_bufview_memcpy n v
     = Some (take n (view_rest v), view_advance (min n (length (view_rest v))) v)"
  by (simp add: pouch_bufview_memcpy_def view_available bufview_read_eq Let_def min_def)

lemma pouch_bufview_read_eq:
  assumes "view_ok v"
  shows "pouch_bufview_read n v =
    (if length (view_rest v) < n then Some (None, v) else Some (Some (bv_offset v), view_advance n v))"
  using assms by (simp add: pouch_bufview_read_def view_available bufview_read_eq)

lemma sys_get_be_take [simp]:
  "sys_get_be16 (take 2 xs) = sys_get_be16 xs"
  by (simp add: sys_get_be16_def)

lemma pouch_bufview_read_byte_eq:
  "view_ok v \<Longrightarrow> view_rest v = x # xs \<Longrightarrow> pouch_bufview_read_byte v = Some (x, view_advance 1 v)"
  by (simp add: pouch_bufview_read_byte_def bufview_read_eq)

lemma pouch_bufview_read_be16_eq:
  "view_ok v \<Longrightarrow> 2 \<le> length (view_rest v) \<Longrightarrow>
     pouch_bufview_read_be16 v = Some (sys_get_be16 (view_rest v), view_advance 2 v)"
  by (simp add: pouch_bufview_read_be16_def bufview_read_eq)

lemmas view_reads = pouch_bufview_memcpy_eq pouch_bufview_read_eq pouch_bufview_read_byte_eq
  pouch_bufview_read_be16_eq view_available

text \<open>What a read that did not fault tells, whether or not it stayed inside the contents.\<close>

lemma bufview_readD:
  "bufview_read n v = Some (p, v') \<Longrightarrow>
     bv_buf v' = bv_buf v \<and> p = bv_offset v \<and> bv_offset v' = sz_add (bv_offset v) n"
  by (auto simp: bufview_read_def split: option.splits)

lemma bufview_derefD:
  "bufview_deref p n v = Some xs \<Longrightarrow> \<exists>b. bv_buf v = Some b \<and> p + n \<le> capacity b \<and> capacity b < SIZE_MOD"
  by (auto simp: bufview_deref_def buf_peek_def mem_simps split: option.splits)

lemma pouch_bufview_read_be16D:
  assumes "pouch_bufview_read_be16 v = Some (x, v')"
  shows "\<exists>b. bv_buf v = Some b \<and> bv_buf v' = Some b \<and> bv_offset v' = bv_offset v + 2
    \<and> bv_offset v + 2 \<le> capacity b \<and> capacity b < SIZE_MOD"
proof -
  obtain p xs where r: "bufview_read 2 v = Some (p, v')" "bufview_deref p 2 v' = Some xs"
    using assms by (auto simp: pouch_bufview_read_be16_def split: bind_splits)
  from bufview_readD [OF r(1)] bufview_derefD [OF r(2)] show ?thesis
    by (auto simp: sz_add_eq)
qed

lemma pouch_bufview_read_byteD:
  assumes "pouch_bufview_read_byte v = Some (x, v')"
  shows "\<exists>b. bv_buf v = Some b \<and> bv_buf v' = Some b \<and> bv_offset v' = bv_offset v + 1
    \<and> bv_offset v + 1 \<le> capacity b \<and> capacity b < SIZE_MOD"
proof -
  obtain p xs where r: "bufview_read 1 v = Some (p, v')" "bufview_deref p 1 v' = Some xs"
    using assms by (auto simp: pouch_bufview_read_byte_def split: bind_splits)
  from bufview_readD [OF r(1)] bufview_derefD [OF r(2)] show ?thesis
    by (auto simp: sz_add_eq)
qed

section \<open>The queue contract\<close>

text \<open>
  What the processing pipelines rely on: a queue of blocks is a first-in first-out sequence.
\<close>

locale fifo_queue =
  fixes qinit :: "'q"
    and submit :: "'q \<Rightarrow> 'a \<Rightarrow> 'q"
    and get :: "'q \<Rightarrow> 'a option \<times> 'q"
    and peek :: "'q \<Rightarrow> 'a option"
    and seq :: "'q \<Rightarrow> 'a list"
  assumes seq_init: "seq qinit = []"
    and seq_submit: "seq (submit q x) = seq q @ [x]"
    and get_empty: "seq q = [] \<Longrightarrow> get q = (None, q)"
    and get_first: "seq q = x # xs \<Longrightarrow> fst (get q) = Some x \<and> seq (snd (get q)) = xs"
    and peek_first: "peek q = (case seq q of [] \<Rightarrow> None | x # _ \<Rightarrow> Some x)"
begin

primrec submit_all :: "'a list \<Rightarrow> 'q \<Rightarrow> 'q" where
  "submit_all [] q = q"
| "submit_all (x # xs) q = submit_all xs (submit q x)"

primrec get_n :: "nat \<Rightarrow> 'q \<Rightarrow> 'a list \<times> 'q" where
  "get_n 0 q = ([], q)"
| "get_n (Suc n) q =
     (case get q of (None, q') \<Rightarrow> ([], q')
      | (Some x, q') \<Rightarrow> (case get_n n q' of (xs, q'') \<Rightarrow> (x # xs, q'')))"

lemma seq_submit_all: "seq (submit_all xs q) = seq q @ xs"
  by (induction xs arbitrary: q) (simp_all add: seq_submit)

lemma get_n_seq: "fst (get_n n q) = take n (seq q) \<and> seq (snd (get_n n q)) = drop n (seq q)"
proof (induction n arbitrary: q)
  case 0
  show ?case by simp
next
  case (Suc n)
  show ?case
  proof (cases "seq q")
    case Nil
    then show ?thesis by (simp add: get_empty)
  next
    case (Cons x xs)
    then obtain q' where "get q = (Some x, q')" "seq q' = xs"
      using get_first [of q x xs] by (cases "get q") auto
    with Cons Suc [of q'] show ?thesis by (simp add: case_prod_unfold)
  qed
qed

theorem fifo_order: "fst (get_n (length xs) (submit_all xs qinit)) = xs"
  using get_n_seq [of "length xs" "submit_all xs qinit"] by (simp add: seq_submit_all seq_init)

lemma peek_agrees_get: "fst (get q) = peek q"
  using get_first [of q] get_empty [of q] by (cases "seq q") (simp_all add: peek_first)

end

interpretation bq: fifo_queue buf_queue_init buf_queue_submit buf_queue_get buf_queue_peek "\<lambda>q. q"
  by unfold_locales (auto simp: buf_queue_init_def buf_queue_submit_def split: list.splits)

lemma buf_queue_is_empty_iff [simp]: "buf_queue_is_empty q \<longleftrightarrow> q = []"
  by (cases q) (simp_all add: buf_queue_is_empty_def)

end
