(* ===== verification/Block.thy ===== *)
theory Block
  imports Buf
begin

text \<open>
  Blocks, the unit of a pouch: \<^verbatim>\<open>src/block.c\<close> and \<^verbatim>\<open>src/block.h\<close>. A block is a buffer that starts with
  a 16-bit size (of what follows the size field) and an identifier byte: 5 bits of stream number (0
  for a block of entries), a bit for the first and a bit for the last block of a stream.

  The lemmas give the bytes each operation produces: a fresh block holds an empty header, finishing
  a block fills in the size and the flags and leaves the payload alone, and decoding the header of a
  finished block gives back what was encoded.
\<close>

section \<open>Sizes\<close>

text \<open>Zephyr's \<^verbatim>\<open>LOG2\<close> macro: the position of the highest bit.\<close>

fun LOG2 :: "nat \<Rightarrow> nat" where
  "LOG2 n = (if n < 2 then 0 else Suc (LOG2 (n div 2)))"

declare LOG2.simps [simp del]

definition BLOCK_ID_MASK :: byte where
  "BLOCK_ID_MASK = 0x1f"

definition MAX_BLOCK_PAYLOAD_SIZE_LOG :: "config \<Rightarrow> nat" where
  "MAX_BLOCK_PAYLOAD_SIZE_LOG c = LOG2 (config_block_size c)"

definition MAX_BLOCK_PAYLOAD_SIZE :: "config \<Rightarrow> nat" where
  "MAX_BLOCK_PAYLOAD_SIZE c = 2 ^ MAX_BLOCK_PAYLOAD_SIZE_LOG c"

definition BLOCK_HEADER_SIZE :: nat where
  "BLOCK_HEADER_SIZE = 3"

definition MAX_PLAINTEXT_BLOCK_SIZE :: "config \<Rightarrow> nat" where
  "MAX_PLAINTEXT_BLOCK_SIZE c = BLOCK_HEADER_SIZE + MAX_BLOCK_PAYLOAD_SIZE c"

definition MAX_CIPHERTEXT_BLOCK_SIZE :: "config \<Rightarrow> nat" where
  "MAX_CIPHERTEXT_BLOCK_SIZE c = MAX_PLAINTEXT_BLOCK_SIZE c + config_auth_tag_len c"

definition MAX_BLOCK_SIZE_FIELD_VALUE :: "config \<Rightarrow> nat" where
  "MAX_BLOCK_SIZE_FIELD_VALUE c = MAX_CIPHERTEXT_BLOCK_SIZE c - 2"

definition BLOCK_ID_ENTRY :: byte where
  "BLOCK_ID_ENTRY = 0x00"

definition FIRST_DATA_MASK :: byte where
  "FIRST_DATA_MASK = 0x40"

definition LAST_DATA_MASK :: byte where
  "LAST_DATA_MASK = 0x80"

section \<open>Operations\<close>

definition block_decode_hdr ::
  "pouch_bufview \<Rightarrow> (u16 \<times> byte \<times> bool \<times> bool \<times> bool \<times> pouch_bufview) option" where
  "block_decode_hdr v =
     (if bv_offset v \<noteq> 0 then None
      else do {
        (block_size, v) \<leftarrow> pouch_bufview_read_be16 v;
        (bid, v) \<leftarrow> pouch_bufview_read_byte v;
        let stream_id = bid AND BLOCK_ID_MASK;
        Some (block_size, stream_id, stream_id \<noteq> BLOCK_ID_ENTRY, bid AND FIRST_DATA_MASK \<noteq> 0,
              bid AND LAST_DATA_MASK \<noteq> 0, v) })"

definition update_block_header :: "pouch_buf \<Rightarrow> size_t \<Rightarrow> byte \<Rightarrow> pouch_buf option" where
  "update_block_header block n flags =
     do { let (p, block) = buf_claim block 2;
          block \<leftarrow> buf_poke p (sys_put_be16 (word_of_nat n)) block;
          let (p, block) = buf_claim block 1;
          old \<leftarrow> buf_peek p 1 block;
          buf_poke p [hd old OR flags] block }"

definition write_block_header :: "pouch_buf \<Rightarrow> size_t \<Rightarrow> byte \<Rightarrow> byte \<Rightarrow> pouch_buf option" where
  "write_block_header block n bid flags =
     do { let (p, block) = buf_claim block 2;
          block \<leftarrow> buf_poke p (sys_put_be16 (word_of_nat n)) block;
          let (p, block) = buf_claim block 1;
          buf_poke p [bid OR flags] block }"

definition block_size_get :: "pouch_buf \<Rightarrow> size_t" where
  "block_size_get block = buf_size_get block"

definition block_space_get :: "config \<Rightarrow> pouch_buf \<Rightarrow> size_t" where
  "block_space_get c block = sz_sub (MAX_PLAINTEXT_BLOCK_SIZE c) (block_size_get block)"

definition block_size_write :: "pouch_buf \<Rightarrow> u16 \<Rightarrow> pouch_buf option" where
  "block_size_write block n = (case buf_claim block 2 of (p, block) \<Rightarrow> buf_poke p (sys_put_be16 n) block)"

definition block_alloc :: "config \<Rightarrow> heap \<Rightarrow> (pouch_buf option \<times> heap) option" where
  "block_alloc c h =
     (case buf_alloc (MAX_PLAINTEXT_BLOCK_SIZE c) h of
        (None, h) \<Rightarrow> Some (None, h)
      | (Some block, h) \<Rightarrow>
          do { block \<leftarrow> write_block_header block 0 BLOCK_ID_ENTRY (FIRST_DATA_MASK OR LAST_DATA_MASK);
               Some (Some block, h) })"

definition block_alloc_stream :: "config \<Rightarrow> byte \<Rightarrow> bool \<Rightarrow> heap \<Rightarrow> (pouch_buf option \<times> heap) option" where
  "block_alloc_stream c stream_id first h =
     (case buf_alloc (MAX_PLAINTEXT_BLOCK_SIZE c) h of
        (None, h) \<Rightarrow> Some (None, h)
      | (Some block, h) \<Rightarrow>
          do { block \<leftarrow> write_block_header block 0 stream_id (if first then FIRST_DATA_MASK else 0);
               Some (Some block, h) })"

definition block_free :: "pouch_buf option \<Rightarrow> heap \<Rightarrow> heap" where
  "block_free block h = buf_free block h"

definition finish :: "pouch_buf \<Rightarrow> byte \<Rightarrow> byte \<Rightarrow> pouch_buf option" where
  "finish block bid flags =
     do { let n = block_size_get block;
          let state = buf_state_get block;
          let block = buf_restore block POUCH_BUF_STATE_INITIAL;
          block \<leftarrow> update_block_header block (sz_sub n 2) flags;
          Some (buf_restore block state) }"

definition block_finish :: "pouch_buf \<Rightarrow> pouch_buf option" where
  "block_finish block = finish block BLOCK_ID_ENTRY (FIRST_DATA_MASK OR LAST_DATA_MASK)"

definition block_finish_stream :: "pouch_buf \<Rightarrow> byte \<Rightarrow> bool \<Rightarrow> pouch_buf option" where
  "block_finish_stream block stream_id is_last = finish block stream_id (if is_last then LAST_DATA_MASK else 0)"

section \<open>Well-formed configurations and blocks\<close>

text \<open>
  A configuration is usable when the size field of the largest block fits into its 16 bits; the
  default block size 512 is, and so is every block size up to 32768 with a tag of 16 bytes.
\<close>

definition valid_config :: "config \<Rightarrow> bool" where
  "valid_config c \<longleftrightarrow> 0 < config_block_size c \<and> MAX_BLOCK_SIZE_FIELD_VALUE c < 65536"

text \<open>An uplink block under construction: its storage is a whole block and its header is written.\<close>

definition wf_block :: "config \<Rightarrow> pouch_buf \<Rightarrow> bool" where
  "wf_block c b \<longleftrightarrow> wf_buf b \<and> capacity b = MAX_PLAINTEXT_BLOCK_SIZE c \<and> 3 \<le> pb_bytes b"

text \<open>The wire image of a block with identifier byte \<open>bid\<close>.\<close>

definition block_image :: "byte \<Rightarrow> byte list \<Rightarrow> byte list" where
  "block_image bid payload = sys_put_be16 (word_of_nat (Suc (length payload))) @ bid # payload"

text \<open>A byte string that is exactly one block: its size field counts the bytes behind it.\<close>

definition framed :: "byte list \<Rightarrow> bool" where
  "framed xs \<longleftrightarrow> 2 \<le> length xs \<and> unat (sys_get_be16 xs) = length xs - 2"

section \<open>Lemmas\<close>

lemma LOG2_bounds: "0 < n \<Longrightarrow> 2 ^ LOG2 n \<le> n \<and> n < 2 * 2 ^ LOG2 n"
proof (induction n rule: LOG2.induct)
  case (1 n)
  show ?case
  proof (cases "n < 2")
    case True
    with 1 show ?thesis by (simp add: LOG2.simps [of n])
  next
    case False
    with "1.IH" have "2 ^ LOG2 (n div 2) \<le> n div 2" "n div 2 < 2 * 2 ^ LOG2 (n div 2)" by auto
    with False show ?thesis by (auto simp: LOG2.simps [of n])
  qed
qed

lemma MAX_sizes:
  "3 < MAX_PLAINTEXT_BLOCK_SIZE c"
  "MAX_PLAINTEXT_BLOCK_SIZE c \<le> MAX_CIPHERTEXT_BLOCK_SIZE c"
  "MAX_CIPHERTEXT_BLOCK_SIZE c = MAX_BLOCK_SIZE_FIELD_VALUE c + 2"
  by (simp_all add: MAX_PLAINTEXT_BLOCK_SIZE_def MAX_CIPHERTEXT_BLOCK_SIZE_def
      MAX_BLOCK_SIZE_FIELD_VALUE_def BLOCK_HEADER_SIZE_def MAX_BLOCK_PAYLOAD_SIZE_def)

lemma valid_config_sizes:
  assumes "valid_config c"
  shows "MAX_CIPHERTEXT_BLOCK_SIZE c \<le> 65537" "MAX_PLAINTEXT_BLOCK_SIZE c \<le> 65537"
    "MAX_CIPHERTEXT_BLOCK_SIZE c < SIZE_MOD" "MAX_PLAINTEXT_BLOCK_SIZE c < SIZE_MOD"
    "MAX_BLOCK_PAYLOAD_SIZE c \<le> config_block_size c"
  using assms MAX_sizes [of c] LOG2_bounds [of "config_block_size c"]
  by (simp_all add: valid_config_def SIZE_MOD_def MAX_BLOCK_PAYLOAD_SIZE_def
      MAX_BLOCK_PAYLOAD_SIZE_LOG_def)

lemma LOG2_512 [simp]: "LOG2 512 = 9"
  by (simp add: LOG2.simps)

lemma default_config_sizes [simp]:
  "MAX_PLAINTEXT_BLOCK_SIZE default_config = 515"
  "MAX_CIPHERTEXT_BLOCK_SIZE default_config = 531"
  "MAX_BLOCK_SIZE_FIELD_VALUE default_config = 529"
  by (simp_all add: MAX_PLAINTEXT_BLOCK_SIZE_def MAX_CIPHERTEXT_BLOCK_SIZE_def
      MAX_BLOCK_SIZE_FIELD_VALUE_def BLOCK_HEADER_SIZE_def MAX_BLOCK_PAYLOAD_SIZE_def
      MAX_BLOCK_PAYLOAD_SIZE_LOG_def default_config_def)

lemma valid_default_config [simp]: "valid_config default_config"
  unfolding valid_config_def by (simp, simp add: default_config_def)

lemma length_block_image [simp]: "length (block_image bid payload) = length payload + 3"
  by (simp add: block_image_def)

lemma framed_block_image: "length payload < 65535 \<Longrightarrow> framed (block_image bid payload)"
  by (simp add: framed_def block_image_def del: of_nat_Suc)

subsection \<open>Headers\<close>

lemma write_block_header_eq:
  assumes "fits [0, 0, 0] b"
  shows "write_block_header b n bid flags = Some (buf_append (sys_put_be16 (word_of_nat n) @ [bid OR flags]) b)"
proof -
  let ?s = "sys_put_be16 (word_of_nat n :: u16)"
  have f: "fits (?s @ [bid OR flags]) b" using assms by (simp add: fits_def)
  have "write_block_header b n bid flags = do { b \<leftarrow> buf_write ?s b; buf_write [bid OR flags] b }"
    by (simp add: write_block_header_def buf_write_def case_prod_unfold Let_def)
  also have "\<dots> = Some (buf_append (?s @ [bid OR flags]) b)"
    using f fits_appendD [OF f] by (simp add: buf_write_eq buf_append_append)
  finally show ?thesis .
qed

lemma write_fresh_header:
  assumes "buf_alloc (MAX_PLAINTEXT_BLOCK_SIZE c) h = (Some b, h')" "valid_config c"
  shows "\<exists>b'. write_block_header b 0 bid flags = Some b' \<and> wf_block c b' \<and> contents b' = [0, 0, bid OR flags]"
proof -
  have b: "wf_buf b" "capacity b = MAX_PLAINTEXT_BLOCK_SIZE c" "pb_bytes b = 0" "contents b = []"
    using buf_alloc_Some [OF assms(1)] valid_config_sizes [OF assms(2)] by auto
  with MAX_sizes(1) [of c] have f: "fits (sys_put_be16 0 @ [bid OR flags]) b" "fits [0, 0, 0] b"
    by (simp_all add: fits_def)
  then show ?thesis
    using b by (simp add: write_block_header_eq wf_block_def buf_append_fields)
      (simp add: sys_put_be16_def)
qed

lemma block_alloc_cases:
  assumes "valid_config c"
  obtains (fail) h' where "block_alloc c h = Some (None, h')" "bufs h' = bufs h"
  | (ok) b h' where "block_alloc c h = Some (Some b, h')" "bufs h' = bufs h + 1" "wf_block c b"
      "contents b = [0, 0, 0xC0]"
proof (cases "buf_alloc (MAX_PLAINTEXT_BLOCK_SIZE c) h")
  case (Pair ob h')
  show thesis
  proof (cases ob)
    case None
    with Pair show thesis by (intro fail [of h']) (auto simp: block_alloc_def dest: bufs_buf_alloc)
  next
    case (Some b)
    with Pair write_fresh_header [OF _ assms, of h b h' BLOCK_ID_ENTRY "FIRST_DATA_MASK OR LAST_DATA_MASK"]
    obtain b' where b': "write_block_header b 0 BLOCK_ID_ENTRY (FIRST_DATA_MASK OR LAST_DATA_MASK) = Some b'"
      "wf_block c b'" "contents b' = [0, 0, 0xC0]"
      by (auto simp: BLOCK_ID_ENTRY_def FIRST_DATA_MASK_def LAST_DATA_MASK_def)
    with Pair Some show thesis
      using bufs_buf_alloc [OF Pair] by (intro ok [of b' h']) (auto simp: block_alloc_def)
  qed
qed

lemma block_alloc_stream_cases:
  assumes "valid_config c"
  obtains (fail) h' where "block_alloc_stream c i first h = Some (None, h')" "bufs h' = bufs h"
  | (ok) b h' where "block_alloc_stream c i first h = Some (Some b, h')" "bufs h' = bufs h + 1"
      "wf_block c b" "contents b = [0, 0, i OR (if first then FIRST_DATA_MASK else 0)]"
proof (cases "buf_alloc (MAX_PLAINTEXT_BLOCK_SIZE c) h")
  case (Pair ob h')
  show thesis
  proof (cases ob)
    case None
    with Pair show thesis by (intro fail [of h']) (auto simp: block_alloc_stream_def dest: bufs_buf_alloc)
  next
    case (Some b)
    with Pair write_fresh_header [OF _ assms, of h b h' i "if first then FIRST_DATA_MASK else 0"]
    obtain b' where b': "write_block_header b 0 i (if first then FIRST_DATA_MASK else 0) = Some b'"
      "wf_block c b'" "contents b' = [0, 0, i OR (if first then FIRST_DATA_MASK else 0)]"
      by auto
    with Pair Some show thesis
      using bufs_buf_alloc [OF Pair] by (intro ok [of b' h']) (auto simp: block_alloc_stream_def)
  qed
qed

lemma block_space_eq: "wf_block c b \<Longrightarrow> block_space_get c b = capacity b - pb_bytes b"
  by (simp add: block_space_get_def block_size_get_def buf_size_get_def wf_block_def wf_buf_def size_simps)

lemma wf_block_append: "wf_block c b \<Longrightarrow> fits xs b \<Longrightarrow> wf_block c (buf_append xs b)"
  by (simp add: wf_block_def buf_append_fields)

subsection \<open>Finishing\<close>

lemma finish_eq:
  assumes "wf_buf b" "contents b = x # y # bid # payload"
  shows "\<exists>b'. finish b i flags = Some b' \<and> wf_buf b' \<and> pb_bytes b' = pb_bytes b
    \<and> capacity b' = capacity b \<and> contents b' = block_image (bid OR flags) payload"
proof -
  have len: "pb_bytes b = 3 + length payload"
    using arg_cong [OF assms(2), of length] assms(1) by simp
  obtain rest where d: "pb_data b = x # y # bid # payload @ rest"
    using assms(2) append_take_drop_id [of "pb_bytes b" "pb_data b"] unfolding contents_def
    by (metis append_Cons)
  have s: "sz_sub (Suc (Suc (Suc (length payload)))) 2 = Suc (length payload)"
    by (simp add: sz_sub_def)
  have lt: "3 + length payload < SIZE_MOD" using assms(1) len by (simp add: wf_buf_def)
  then have a: "sz_add 0 2 = 2" "sz_add 2 1 = 3" by (simp_all add: sz_add_def SIZE_MOD_def)
  show ?thesis
    using assms(1) len d lt
    by (simp add: finish_def block_size_get_def buf_size_get_def buf_state_get_def buf_restore_def
        POUCH_BUF_STATE_INITIAL_def update_block_header_def buf_claim_def buf_poke_def buf_peek_def
        mem_write_def mem_read_def s a wf_buf_def contents_def block_image_def sys_put_be16_def numeral_3_eq_3)
qed

lemma wf_block_contents:
  assumes "wf_block c b"
  obtains x y bid payload where "contents b = x # y # bid # payload"
proof -
  have "3 \<le> length (contents b)" using assms by (simp add: wf_block_def)
  then show thesis
    by (metis One_nat_def Suc_le_length_iff numeral_3_eq_3 that)
qed

lemma block_finish_eq:
  assumes "wf_block c b" "contents b = x # y # bid # payload"
  shows "\<exists>b'. block_finish b = Some b' \<and> wf_block c b' \<and> contents b' = block_image (bid OR 0xC0) payload"
  using finish_eq [of b x y bid payload BLOCK_ID_ENTRY "FIRST_DATA_MASK OR LAST_DATA_MASK"] assms
  by (auto simp: block_finish_def wf_block_def FIRST_DATA_MASK_def LAST_DATA_MASK_def)

lemma block_finish_stream_eq:
  assumes "wf_block c b" "contents b = x # y # bid # payload"
  shows "\<exists>b'. block_finish_stream b i is_last = Some b' \<and> wf_block c b'
    \<and> contents b' = block_image (bid OR (if is_last then LAST_DATA_MASK else 0)) payload"
  using finish_eq [of b x y bid payload i "if is_last then LAST_DATA_MASK else 0"] assms
  by (auto simp: block_finish_stream_def wf_block_def)

lemma wf_block_payload_bound:
  "wf_block c b \<Longrightarrow> contents b = x # y # bid # payload \<Longrightarrow> length payload \<le> MAX_BLOCK_PAYLOAD_SIZE c"
  using contents_length [of b]
  by (simp add: wf_block_def wf_buf_def MAX_PLAINTEXT_BLOCK_SIZE_def BLOCK_HEADER_SIZE_def)

subsection \<open>Decoding\<close>

lemma block_decode_hdr_image:
  assumes "wf_buf b" "contents b = block_image bid payload" "length payload < 65535"
  shows "block_decode_hdr (pouch_bufview_init (Some b)) =
    Some (word_of_nat (Suc (length payload)), bid AND BLOCK_ID_MASK, bid AND BLOCK_ID_MASK \<noteq> BLOCK_ID_ENTRY,
      bid AND FIRST_DATA_MASK \<noteq> 0, bid AND LAST_DATA_MASK \<noteq> 0, view_advance 3 (pouch_bufview_init (Some b)))"
proof -
  let ?v = "pouch_bufview_init (Some b)"
  have v: "view_ok ?v" "view_rest ?v = block_image bid payload" using assms by simp_all
  then have "pouch_bufview_read_be16 ?v = Some (word_of_nat (Suc (length payload)), view_advance 2 ?v)"
    by (simp add: pouch_bufview_read_be16_eq del: of_nat_Suc, simp add: block_image_def del: of_nat_Suc)
  moreover have "pouch_bufview_read_byte (view_advance 2 ?v) = Some (bid, view_advance 1 (view_advance 2 ?v))"
    using v by (intro pouch_bufview_read_byte_eq [where xs = payload]) (simp_all, simp_all add: block_image_def)
  moreover have "bv_offset ?v = 0" by (simp add: pouch_bufview_init_def)
  ultimately show ?thesis
    by (simp add: block_decode_hdr_def view_advance_add Let_def del: of_nat_Suc)
qed

end
