(* ===== verification/Loops.thy ===== *)
theory Loops
  imports Prelude
begin

text \<open>
  Loops whose end depends on code that is not modelled, a library or a callback: iterations of a round by the partial
  function \<open>rounds\<close>. Its result of type \<open>run\<close> is \<^const>\<open>None\<close> if the loop does not end, \<^term>\<open>Some None\<close> if it ends by a fault
  (an access outside an object), and otherwise \<^term>\<open>Some (Some r)\<close>.
\<close>

type_synonym 'r run = "'r option option"

text \<open>One round of a loop ends it with a value or a fault, calls something that does not return, or leads to the next round.\<close>

datatype ('r, 'x) round = Halt "'r option" | Hang | Again 'x

partial_function (option) rounds :: "('x \<Rightarrow> ('r, 'x) round) \<Rightarrow> 'x \<Rightarrow> 'r run" where
  "rounds f x = (case f x of Halt r \<Rightarrow> Some r | Hang \<Rightarrow> None | Again y \<Rightarrow> rounds f y)"

declare rounds.simps [code]

lemma rounds_simps [simp]:
  "f x = Halt r \<Longrightarrow> rounds f x = Some r" "f x = Hang \<Longrightarrow> rounds f x = None" "f x = Again y \<Longrightarrow> rounds f x = rounds f y"
  by (subst rounds.simps, simp)+

lemma rounds_cases:
  "rounds f x = (case f x of Halt r \<Rightarrow> Some r | Hang \<Rightarrow> None | Again y \<Rightarrow> rounds f y)"
  by (rule rounds.simps)

text \<open>A loop ends if its rounds do and each of them makes some measure smaller.\<close>

lemma rounds_returns:
  fixes left :: "'x \<Rightarrow> nat"
  assumes "\<And>x. f x \<noteq> Hang" "\<And>x y. f x = Again y \<Longrightarrow> left y < left x"
  shows "rounds f x \<noteq> None"
proof (induction "left x" arbitrary: x rule: less_induct)
  case less
  show ?case using assms less by (cases "f x") auto
qed

text \<open>What holds at the start and is kept by every round holds in the last one.\<close>

lemma rounds_invariant:
  assumes "rounds f x = Some r" "P x" "\<And>x y. f x = Again y \<Longrightarrow> P x \<Longrightarrow> P y"
  shows "\<exists>y. P y \<and> f y = Halt r"
proof -
  have "(\<forall>x y. f x = Again y \<longrightarrow> P x \<longrightarrow> P y) \<longrightarrow> P x \<longrightarrow> (\<exists>y. P y \<and> f y = Halt r)"
    by (rule rounds.raw_induct [where P = "\<lambda>f x r. (\<forall>x y. f x = Again y \<longrightarrow> P x \<longrightarrow> P y) \<longrightarrow> P x
        \<longrightarrow> (\<exists>y. P y \<and> f y = Halt r)" and xa = "(f, x)" and y = r, simplified])
      (use assms(1) in \<open>auto split: round.splits\<close>)
  with assms(2,3) show ?thesis by blast
qed

lemma rounds_left:
  fixes left :: "'x \<Rightarrow> nat"
  assumes "rounds f x = Some r" "\<And>x y. f x = Again y \<Longrightarrow> left y < left x"
  shows "\<exists>y. left y \<le> left x \<and> f y = Halt r"
  by (rule rounds_invariant [OF assms(1)]) (auto dest: assms(2))

end
