(* ===== verification/Node.thy ===== *)
theory Node
  imports Block Loops
begin

text \<open>
  The state of a node and the interfaces its parts share.

  The crypto module is one of two translation units chosen at build time (\<^verbatim>\<open>src/crypto_none.c\<close> or
  \<^verbatim>\<open>src/crypto_saead.c\<close>) behind the declarations of \<^verbatim>\<open>src/crypto.h\<close>. Those declarations are the record
  \<open>crypto_ops\<close>, over the state \<^typ>\<open>'c\<close> of the module; the code that calls them takes the record as an
  argument. The header codec is generated from \<^verbatim>\<open>src/header.cddl\<close> by the build and is an argument too; the
  types are those the schema declares. The event queue and \<^verbatim>\<open>pouch_event_emit\<close> are from \<^verbatim>\<open>src/pouch.c\<close>,
  the pouch header from \<^verbatim>\<open>src/header.c\<close>.
\<close>

section \<open>Header data\<close>

datatype session_id_choice = Session_id_random "byte list" | Session_id_sequential "byte list" u64

datatype role_choice = Choice_device | Choice_server

datatype algorithm_choice = Choice_chacha20_poly1305 | Choice_aes_gcm

record session_info =
  si_id :: session_id_choice
  si_initiator :: role_choice
  si_algorithm :: algorithm_choice
  si_max_block_size_log :: byte
  si_cert_ref :: "byte list"

record saead_info =
  sa_session :: session_info
  sa_pouch_id :: u16

datatype encryption_info = Plaintext_info cstr | Saead_info saead_info

record pouch_header =
  ph_version :: byte
  ph_encryption_info :: encryption_info

text \<open>The generated encoder (given the space it may use) and decoder (with the bytes it consumed).\<close>

record header_codec =
  cbor_encode_pouch_header :: "nat \<Rightarrow> pouch_header \<Rightarrow> byte list option"
  cbor_decode_pouch_header :: "byte list \<Rightarrow> (pouch_header \<times> nat) option"

section \<open>Configuration of the module\<close>

text \<open>
  \<^verbatim>\<open>struct pouch_cert\<close> (a pointer and a size) and \<^verbatim>\<open>struct pouch_config\<close>, with the fields of both builds.
\<close>

record pouch_cert =
  pc_buffer :: "byte list option"
  pc_size :: size_t

record pouch_config =
  cfg_device_id :: "cstr option"
  cfg_certificate :: pouch_cert
  cfg_private_key :: u32

section \<open>The crypto interface\<close>

record 'c crypto_ops =
  crypto_session_start :: "'c \<Rightarrow> (ret \<times> 'c) option"
  crypto_session_end :: "'c \<Rightarrow> 'c"
  crypto_downlink_start :: "encryption_info \<Rightarrow> 'c \<Rightarrow> (ret \<times> 'c) option"
  crypto_pouch_start :: "'c \<Rightarrow> ret \<times> 'c"
  crypto_header_get :: "'c \<Rightarrow> (errno + encryption_info) option"
  crypto_decrypt_block :: "pouch_buf option \<Rightarrow> heap \<Rightarrow> 'c \<Rightarrow> (pouch_buf option \<times> heap \<times> 'c) option"
  crypto_encrypt_block :: "pouch_buf \<Rightarrow> heap \<Rightarrow> 'c \<Rightarrow> (pouch_buf option \<times> heap \<times> 'c) option"

section \<open>State\<close>

datatype pouch_event = POUCH_EVENT_SESSION_START | POUCH_EVENT_SESSION_END

text \<open>\<^verbatim>\<open>struct pouch_uplink\<close>; a work item is whether it is queued to run.\<close>

record pouch_uplink =
  up_header :: "pouch_buf option"
  up_flags :: u32
  up_id :: u32
  up_error :: int
  up_processing_queue :: pouch_buf_queue
  up_processing_work :: bool
  up_transport_queue :: pouch_buf_queue
  up_reader :: pouch_bufview

text \<open>The static variables of \<^verbatim>\<open>buf.c\<close>, the crypto module, \<^verbatim>\<open>entry.c\<close>, \<^verbatim>\<open>stream.c\<close>, \<^verbatim>\<open>uplink.c\<close> and \<^verbatim>\<open>pouch.c\<close>.\<close>

record 'c node =
  n_heap :: heap
  n_crypto :: 'c
  n_block :: "pouch_buf option"
  n_stream_id :: u32
  n_open_streams :: int
  n_up :: pouch_uplink
  n_event_q :: "pouch_event list"
  n_event_work :: bool

definition map_up :: "(pouch_uplink \<Rightarrow> pouch_uplink) \<Rightarrow> 'c node \<Rightarrow> 'c node" where
  "map_up f s = s\<lparr>n_up := f (n_up s)\<rparr>"

section \<open>Events\<close>

text \<open>\<^verbatim>\<open>k_msgq_put\<close> without waiting drops the message when the queue is full; the result is not looked at.\<close>

definition pouch_event_emit :: "config \<Rightarrow> pouch_event \<Rightarrow> 'c node \<Rightarrow> 'c node" where
  "pouch_event_emit c e s =
     (let s = (if length (n_event_q s) < config_event_queue_depth c
               then s\<lparr>n_event_q := n_event_q s @ [e]\<rparr> else s)
      in s\<lparr>n_event_work := True\<rparr>)"

text \<open>
  The work item: every event goes to every registered handler, in order. A handler works on the node and on the state \<open>'a\<close> of the
  application; it may emit events itself, and the loop goes on until the queue is empty.
\<close>

type_synonym ('c, 'a) event_handler = "pouch_event \<Rightarrow> 'c node \<times> 'a \<Rightarrow> ('c node \<times> 'a) option"

fun foreach_event_handler :: "('c, 'a) event_handler list \<Rightarrow> ('c, 'a) event_handler" where
  "foreach_event_handler [] e x = Some x"
| "foreach_event_handler (h # hs) e x = do { x \<leftarrow> h e x; foreach_event_handler hs e x }"

definition dispatch_round :: "('c, 'a) event_handler list \<Rightarrow> 'c node \<times> 'a \<Rightarrow> ('c node \<times> 'a, 'c node \<times> 'a) round" where
  "dispatch_round hs = (\<lambda>(s, a).
     case n_event_q s of
       [] \<Rightarrow> Halt (Some (s, a))
     | e # es \<Rightarrow> (case foreach_event_handler hs e (s\<lparr>n_event_q := es\<rparr>, a) of None \<Rightarrow> Halt None | Some x \<Rightarrow> Again x))"

definition dispatch_events :: "('c, 'a) event_handler list \<Rightarrow> 'c node \<times> 'a \<Rightarrow> ('c node \<times> 'a) run" where
  "dispatch_events hs x = rounds (dispatch_round hs) x"

definition run_event_work :: "('c, 'a) event_handler list \<Rightarrow> 'c node \<times> 'a \<Rightarrow> ('c node \<times> 'a) run" where
  "run_event_work hs = (\<lambda>(s, a).
     if n_event_work s then dispatch_events hs (s\<lparr>n_event_work := False\<rparr>, a) else Some (Some (s, a)))"

section \<open>Handing a block to the uplink\<close>

definition uplink_enqueue :: "pouch_buf \<Rightarrow> 'c node \<Rightarrow> 'c node" where
  "uplink_enqueue block s =
     map_up (\<lambda>u. u\<lparr>up_processing_queue := buf_queue_submit (up_processing_queue u) block,
                   up_processing_work := True\<rparr>) s"

definition uplink_session_id :: "'c node \<Rightarrow> u32" where
  "uplink_session_id s = up_id (n_up s)"

section \<open>The pouch header\<close>

definition POUCH_HEADER_VERSION :: byte where
  "POUCH_HEADER_VERSION = 1"

definition POUCH_DEVICE_ID_MAX_LEN :: nat where
  "POUCH_DEVICE_ID_MAX_LEN = 32"

definition SESSION_ID_LEN :: nat where
  "SESSION_ID_LEN = 16"

definition CERT_REF_SHORT_LEN :: nat where
  "CERT_REF_SHORT_LEN = 6"

definition POUCH_HEADER_MAX_LEN :: "config \<Rightarrow> nat" where
  "POUCH_HEADER_MAX_LEN c =
     (if config_saead c then 16 + SESSION_ID_LEN + CERT_REF_SHORT_LEN
      else 2 + 3 + POUCH_DEVICE_ID_MAX_LEN)"

definition write_header ::
  "header_codec \<Rightarrow> 'c crypto_ops \<Rightarrow> 'c \<Rightarrow> pouch_buf \<Rightarrow> nat \<Rightarrow> (ret \<times> pouch_buf) option" where
  "write_header codec ops cr b maxlen =
     (case crypto_header_get ops cr of
        None \<Rightarrow> None
      | Some (Inl e) \<Rightarrow> Some (Err e, b)
      | Some (Inr info) \<Rightarrow>
          (case cbor_encode_pouch_header codec maxlen
                  \<lparr>ph_version = POUCH_HEADER_VERSION, ph_encryption_info = info\<rparr> of
             None \<Rightarrow> Some (Err EZCBOR, b)
           | Some xs \<Rightarrow>
               do { b \<leftarrow> buf_poke (buf_next b) xs b;
                    let (_, b) = buf_claim b (length xs);
                    Some (OK, b) }))"

definition pouch_header_create ::
  "config \<Rightarrow> header_codec \<Rightarrow> 'c crypto_ops \<Rightarrow> 'c \<Rightarrow> heap \<Rightarrow> (pouch_buf option \<times> heap) option" where
  "pouch_header_create c codec ops cr h =
     (case buf_alloc (POUCH_HEADER_MAX_LEN c) h of
        (None, h) \<Rightarrow> Some (None, h)
      | (Some header, h) \<Rightarrow>
          do { (err, header) \<leftarrow> write_header codec ops cr header (POUCH_HEADER_MAX_LEN c);
               Some (if err = OK then (Some header, h) else (None, buf_free (Some header) h)) })"

section \<open>Invariant and accounting\<close>

text \<open>A finished block, as the processing queue holds it.\<close>

definition sendable :: "config \<Rightarrow> pouch_buf \<Rightarrow> bool" where
  "sendable c b \<longleftrightarrow> wf_buf b \<and> framed (contents b) \<and> 3 \<le> pb_bytes b \<and> pb_bytes b \<le> MAX_PLAINTEXT_BLOCK_SIZE c"

text \<open>What the transport may hold: a buffer with something to send.\<close>

definition transportable :: "pouch_buf \<Rightarrow> bool" where
  "transportable b \<longleftrightarrow> wf_buf b \<and> 0 < pb_bytes b"

text \<open>A block of entries: its identifier byte says stream 0, first and last.\<close>

definition is_entry_block :: "pouch_buf \<Rightarrow> bool" where
  "is_entry_block b \<longleftrightarrow> contents b ! 2 = 0xC0"

text \<open>The transport's view is unset, or has bytes left to read.\<close>

definition wf_reader :: "pouch_bufview \<Rightarrow> bool" where
  "wf_reader v \<longleftrightarrow> bv_buf v = None \<or> (view_ok v \<and> view_rest v \<noteq> [])"

definition node_inv :: "config \<Rightarrow> 'c node \<Rightarrow> bool" where
  "node_inv c s \<longleftrightarrow>
     (case n_block s of None \<Rightarrow> True | Some b \<Rightarrow> wf_block c b \<and> is_entry_block b)
     \<and> list_all (sendable c) (up_processing_queue (n_up s))
     \<and> list_all transportable (up_transport_queue (n_up s))
     \<and> (case up_header (n_up s) of None \<Rightarrow> True | Some b \<Rightarrow> transportable b)
     \<and> wf_reader (up_reader (n_up s))"

text \<open>The buffers the node owns; the rest of the live ones belong to open streams and the downlink.\<close>

definition owned :: "'c node \<Rightarrow> int" where
  "owned s = own (n_block s) + own (up_header (n_up s)) + int (length (up_processing_queue (n_up s)))
     + int (length (up_transport_queue (n_up s))) + own (bv_buf (up_reader (n_up s)))"

definition balance :: "'c node \<Rightarrow> int" where
  "balance s = bufs (n_heap s) - owned s"

text \<open>The bytes of all entries that wait in the uplink, oldest first.\<close>

definition entry_log :: "'c node \<Rightarrow> byte list" where
  "entry_log s =
     concat (map (\<lambda>b. drop 3 (contents b)) (filter is_entry_block (up_processing_queue (n_up s))))
     @ (case n_block s of None \<Rightarrow> [] | Some b \<Rightarrow> drop 3 (contents b))"

section \<open>Lemmas\<close>

lemma map_up_fields [simp]:
  "n_up (map_up f s) = f (n_up s)" "n_heap (map_up f s) = n_heap s" "n_crypto (map_up f s) = n_crypto s"
  "n_block (map_up f s) = n_block s" "n_stream_id (map_up f s) = n_stream_id s"
  "n_open_streams (map_up f s) = n_open_streams s" "n_event_q (map_up f s) = n_event_q s"
  "n_event_work (map_up f s) = n_event_work s"
  by (simp_all add: map_up_def)

lemma pouch_event_emit_fields [simp]:
  "n_up (pouch_event_emit c e s) = n_up s" "n_heap (pouch_event_emit c e s) = n_heap s"
  "n_crypto (pouch_event_emit c e s) = n_crypto s" "n_block (pouch_event_emit c e s) = n_block s"
  "n_stream_id (pouch_event_emit c e s) = n_stream_id s"
  "n_open_streams (pouch_event_emit c e s) = n_open_streams s"
  by (simp_all add: pouch_event_emit_def Let_def)

lemma uplink_enqueue_fields [simp]:
  "n_heap (uplink_enqueue b s) = n_heap s" "n_crypto (uplink_enqueue b s) = n_crypto s"
  "n_block (uplink_enqueue b s) = n_block s" "n_stream_id (uplink_enqueue b s) = n_stream_id s"
  "n_open_streams (uplink_enqueue b s) = n_open_streams s" "n_event_q (uplink_enqueue b s) = n_event_q s"
  "up_processing_queue (n_up (uplink_enqueue b s)) = up_processing_queue (n_up s) @ [b]"
  "up_processing_work (n_up (uplink_enqueue b s)) = True"
  "up_transport_queue (n_up (uplink_enqueue b s)) = up_transport_queue (n_up s)"
  "up_header (n_up (uplink_enqueue b s)) = up_header (n_up s)"
  "up_flags (n_up (uplink_enqueue b s)) = up_flags (n_up s)"
  "up_id (n_up (uplink_enqueue b s)) = up_id (n_up s)"
  "up_reader (n_up (uplink_enqueue b s)) = up_reader (n_up s)"
  by (simp_all add: uplink_enqueue_def buf_queue_submit_def)

subsection \<open>Events\<close>

text \<open>
  The contract between the event loop and the handlers: with \<open>I\<close> an invariant of node and application, they return, keep it and
  emit nothing. Then the loop ends, every event has been handled, and the invariant holds.
\<close>

locale event_handlers =
  fixes hs :: "('c, 'a) event_handler list" and I :: "'c node \<Rightarrow> 'a \<Rightarrow> bool"
  assumes handles: "I s a \<Longrightarrow> \<exists>s' a'. foreach_event_handler hs e (s, a) = Some (s', a') \<and> I s' a' \<and> n_event_q s' = n_event_q s"
    and queue_free: "I s a \<Longrightarrow> I (s\<lparr>n_event_q := q\<rparr>) a" "I s a \<Longrightarrow> I (s\<lparr>n_event_work := w\<rparr>) a"
begin

lemma dispatch_spec:
  "I s a \<Longrightarrow> \<exists>s' a'. dispatch_events hs (s, a) = Some (Some (s', a')) \<and> I s' a' \<and> n_event_q s' = []"
proof (induction "n_event_q s" arbitrary: s a)
  case Nil
  then show ?case by (simp add: dispatch_events_def dispatch_round_def)
next
  case (Cons e es)
  let ?s = "s\<lparr>n_event_q := es\<rparr>"
  obtain s1 a1 where 1: "foreach_event_handler hs e (?s, a) = Some (s1, a1)" "I s1 a1" "n_event_q s1 = es"
    using handles [OF queue_free(1) [OF Cons.prems], of e es] by auto
  have "dispatch_round hs (s, a) = Again (s1, a1)"
    using 1(1) Cons.hyps(2) by (simp add: dispatch_round_def flip: Cons.hyps(2))
  with Cons.hyps(1) [OF 1(3) [symmetric] 1(2)] show ?case by (simp add: dispatch_events_def)
qed

lemma event_work_spec:
  "I s a \<Longrightarrow> \<exists>s' a'. run_event_work hs (s, a) = Some (Some (s', a')) \<and> I s' a' \<and> (n_event_work s \<longrightarrow> n_event_q s' = [])"
  using dispatch_spec [OF queue_free(2), of s a False] by (auto simp: run_event_work_def)

end

text \<open>One event in an otherwise empty queue is one call of the handlers.\<close>

lemma dispatch_one:
  assumes "n_event_q s = [e]" "foreach_event_handler hs e (s\<lparr>n_event_q := []\<rparr>, a) = Some (s', a')" "n_event_q s' = []"
  shows "dispatch_events hs (s, a) = Some (Some (s', a'))"
proof -
  have "dispatch_round hs (s, a) = Again (s', a')" using assms(1,2) by (simp add: dispatch_round_def)
  moreover have "dispatch_round hs (s', a') = Halt (Some (s', a'))" using assms(3) by (simp add: dispatch_round_def)
  ultimately show ?thesis by (simp add: dispatch_events_def)
qed

subsection \<open>Header creation\<close>

text \<open>
  What is relied on from the generated encoder: it does not write more than it is given, and the
  encoding of a header is not empty.
\<close>

definition encoder_bounded :: "header_codec \<Rightarrow> bool" where
  "encoder_bounded codec \<longleftrightarrow>
     (\<forall>n hd xs. cbor_encode_pouch_header codec n hd = Some xs \<longrightarrow> 0 < length xs \<and> length xs \<le> n)"

lemma POUCH_HEADER_MAX_LEN_less [simp]: "POUCH_HEADER_MAX_LEN c < SIZE_MOD"
  by (simp add: POUCH_HEADER_MAX_LEN_def SESSION_ID_LEN_def CERT_REF_SHORT_LEN_def
      POUCH_DEVICE_ID_MAX_LEN_def SIZE_MOD_def)

lemma pouch_header_create_cases:
  assumes "encoder_bounded codec" "crypto_header_get ops cr \<noteq> None"
  obtains (fail) h' where "pouch_header_create c codec ops cr h = Some (None, h')" "bufs h' = bufs h"
  | (ok) b h' xs info where "pouch_header_create c codec ops cr h = Some (Some b, h')" "bufs h' = bufs h + 1"
      "transportable b" "contents b = xs" "crypto_header_get ops cr = Some (Inr info)"
      "cbor_encode_pouch_header codec (POUCH_HEADER_MAX_LEN c)
         \<lparr>ph_version = POUCH_HEADER_VERSION, ph_encryption_info = info\<rparr> = Some xs"
proof (cases "buf_alloc (POUCH_HEADER_MAX_LEN c) h")
  case (Pair ob h')
  show thesis
  proof (cases ob)
    case None
    with Pair show thesis
      by (intro fail [of h']) (auto simp: pouch_header_create_def dest: bufs_buf_alloc)
  next
    case (Some b)
    then have b: "wf_buf b" "capacity b = POUCH_HEADER_MAX_LEN c" "pb_bytes b = 0" "contents b = []"
      "bufs h' = bufs h + 1"
      using buf_alloc_Some [of "POUCH_HEADER_MAX_LEN c" h b h'] Pair bufs_buf_alloc [OF Pair] by auto
    obtain r where r: "crypto_header_get ops cr = Some r" using assms(2) by blast
    show thesis
    proof (cases r)
      case (Inl e)
      with Pair Some b r show thesis
        by (intro fail [of "buf_free (Some b) h'"]) (auto simp: pouch_header_create_def write_header_def)
    next
      case (Inr info)
      let ?hd = "\<lparr>ph_version = POUCH_HEADER_VERSION, ph_encryption_info = info\<rparr>"
      show thesis
      proof (cases "cbor_encode_pouch_header codec (POUCH_HEADER_MAX_LEN c) ?hd")
        case None
        with Pair Some b Inr r show thesis
          by (intro fail [of "buf_free (Some b) h'"]) (auto simp: pouch_header_create_def write_header_def)
      next
        case xs: (Some xs)
        with assms(1) have "0 < length xs \<and> length xs \<le> POUCH_HEADER_MAX_LEN c" unfolding encoder_bounded_def by blast
        then have len: "length xs < SIZE_MOD" "fits xs b" "0 < length xs"
          using b le_less_trans [OF _ POUCH_HEADER_MAX_LEN_less [of c]] by (auto simp: fits_def)
        have "write_header codec ops cr b (POUCH_HEADER_MAX_LEN c) = Some (OK, buf_append xs b)"
          using Inr r xs len b by (simp add: write_header_def buf_poke_def buf_next_def buf_claim_def
              mem_write_def fits_def buf_append_def size_simps wf_buf_def)
        with Pair Some b Inr r xs len show thesis
          by (intro ok [of "buf_append xs b" h' xs info])
             (auto simp: pouch_header_create_def buf_append_fields transportable_def)
      qed
    qed
  qed
qed

section \<open>The crypto contract\<close>

text \<open>
  What the rest of the program relies on from the module behind \<^verbatim>\<open>crypto.h\<close>, with \<open>cinv\<close> the module's
  invariant: it takes over the buffer it is given, gives back at most one, never faults on a block
  that is framed and not too long, and keeps its invariant.
\<close>

locale crypto_provider =
  fixes c :: config and ops :: "'c crypto_ops" and cinv :: "'c \<Rightarrow> bool"
  assumes config_ok: "valid_config c"
    and session_start_law: "cinv cr \<Longrightarrow> \<exists>r cr'. crypto_session_start ops cr = Some (r, cr') \<and> cinv cr'"
    and session_end_inv: "cinv cr \<Longrightarrow> cinv (crypto_session_end ops cr)"
    and downlink_start_law: "cinv cr \<Longrightarrow> \<exists>r cr'. crypto_downlink_start ops info cr = Some (r, cr') \<and> cinv cr'"
    and pouch_start_inv: "cinv cr \<Longrightarrow> cinv (snd (crypto_pouch_start ops cr))"
    and header_get_law: "cinv cr \<Longrightarrow> crypto_header_get ops cr \<noteq> None"
    and encrypt_law: "cinv cr \<Longrightarrow> sendable c b \<Longrightarrow>
      \<exists>r h' cr'. crypto_encrypt_block ops b h cr = Some (r, h', cr') \<and> cinv cr'
        \<and> bufs h' = bufs h - 1 + own r \<and> malloc_ok h' = malloc_ok h
        \<and> (\<forall>e. r = Some e \<longrightarrow> transportable e \<and> framed (contents e) \<and> pb_bytes e \<le> MAX_CIPHERTEXT_BLOCK_SIZE c)"
    and decrypt_law: "cinv cr \<Longrightarrow> wf_buf b \<Longrightarrow> 2 \<le> pb_bytes b \<Longrightarrow> pb_bytes b \<le> MAX_CIPHERTEXT_BLOCK_SIZE c \<Longrightarrow>
      \<exists>r h' cr'. crypto_decrypt_block ops (Some b) h cr = Some (r, h', cr') \<and> cinv cr'
        \<and> bufs h' = bufs h - 1 + own r \<and> malloc_ok h' = malloc_ok h
        \<and> (\<forall>d. r = Some d \<longrightarrow> wf_buf d \<and> (framed (contents b) \<longrightarrow> framed (contents d)))"

end
