(* ===== verification/Entry.thy ===== *)
theory Entry
  imports Node
begin

text \<open>
  Entries, \<^verbatim>\<open>src/entry.c\<close>: small messages that share a block. The uplink half appends an entry to the
  open block and moves a full block to the processing queue; the downlink half splits the payload of
  a received block into entries, or treats it as a part of a stream, and calls the registered handlers.

  A handler is a pair of callbacks over the state \<^typ>\<open>'a\<close> of the application. The data pointer a callback
  receives is the bytes it points at, or \<^const>\<open>None\<close> for \<^verbatim>\<open>NULL\<close>; handing out a range that is not inside the
  block's storage counts as the fault it is for the callback that reads it. \<^verbatim>\<open>k_mutex_lock\<close> is represented
  by its result, an argument.

  Shown here: what a write appends on every branch, that a block of well-formed entries is delivered
  entry by entry (a round trip with the encoding), and the faults that a malformed block leads to.
\<close>

section \<open>Data\<close>

record pouch_entry =
  pe_path :: cstr
  pe_content_type :: u16
  pe_data :: "byte list"

record 'a pouch_downlink_handler =
  start_cb :: "nat \<Rightarrow> cstr \<Rightarrow> u16 \<Rightarrow> 'a \<Rightarrow> 'a option"
  data_cb :: "nat \<Rightarrow> byte list option \<Rightarrow> size_t \<Rightarrow> bool \<Rightarrow> 'a \<Rightarrow> 'a option"

definition ENTRY_HEADER_OVERHEAD :: nat where
  "ENTRY_HEADER_OVERHEAD = 5"

section \<open>Downlink\<close>

fun downlink_start :: "'a pouch_downlink_handler list \<Rightarrow> nat \<Rightarrow> cstr \<Rightarrow> u16 \<Rightarrow> 'a \<Rightarrow> 'a option" where
  "downlink_start [] stream_id path content_type a = Some a"
| "downlink_start (h # hs) stream_id path content_type a =
     do { a \<leftarrow> start_cb h stream_id path content_type a; downlink_start hs stream_id path content_type a }"

fun downlink_data ::
  "'a pouch_downlink_handler list \<Rightarrow> nat \<Rightarrow> byte list option \<Rightarrow> size_t \<Rightarrow> bool \<Rightarrow> 'a \<Rightarrow> 'a option" where
  "downlink_data [] stream_id data len is_last a = Some a"
| "downlink_data (h # hs) stream_id data len is_last a =
     do { a \<leftarrow> data_cb h stream_id data len is_last a; downlink_data hs stream_id data len is_last a }"

text \<open>The bytes behind a pointer that \<^verbatim>\<open>pouch_bufview_read\<close> returned, as the callbacks see them.\<close>

definition view_bytes :: "nat option \<Rightarrow> nat \<Rightarrow> pouch_bufview \<Rightarrow> byte list option option" where
  "view_bytes p n v = (case p of None \<Rightarrow> Some None | Some p \<Rightarrow> map_option Some (bufview_deref p n v))"

text \<open>\<^verbatim>\<open>memcpy\<close> of the path and its terminator: a C string ends at its first NUL.\<close>

definition path_null_term :: "nat option \<Rightarrow> nat \<Rightarrow> pouch_bufview \<Rightarrow> cstr option" where
  "path_null_term p n v =
     (case p of None \<Rightarrow> None | Some p \<Rightarrow> map_option (takeWhile (\<lambda>x. x \<noteq> 0)) (bufview_deref p n v))"

text \<open>The body of the loop over the entries of a block.\<close>

definition entries_push_one ::
  "'a pouch_downlink_handler list \<Rightarrow> pouch_bufview \<Rightarrow> 'a \<Rightarrow> (pouch_bufview \<times> 'a) option" where
  "entries_push_one hs v a =
     do { (data_len, v) \<leftarrow> pouch_bufview_read_be16 v;
          (content_type, v) \<leftarrow> pouch_bufview_read_be16 v;
          (path_len, v) \<leftarrow> pouch_bufview_read_byte v;
          (path, v) \<leftarrow> pouch_bufview_read (unat path_len) v;
          (data, v) \<leftarrow> pouch_bufview_read (unat data_len) v;
          path \<leftarrow> path_null_term path (unat path_len) v;
          data \<leftarrow> view_bytes data (unat data_len) v;
          a \<leftarrow> downlink_start hs 0 path content_type a;
          a \<leftarrow> downlink_data hs 0 data (unat data_len) True a;
          Some (v, a) }"

lemma entries_push_one_progress:
  assumes "entries_push_one hs v a = Some (v', a')"
  shows "\<exists>b. bv_buf v = Some b \<and> bv_buf v' = Some b \<and> bv_offset v + 5 \<le> bv_offset v'
    \<and> bv_offset v' \<le> capacity b \<and> capacity b < SIZE_MOD"
proof -
  obtain dl v1 ct v2 pl v3 p v4 d v5 path where
    r: "pouch_bufview_read_be16 v = Some (dl, v1)" "pouch_bufview_read_be16 v1 = Some (ct, v2)"
      "pouch_bufview_read_byte v2 = Some (pl, v3)" "pouch_bufview_read (unat pl) v3 = Some (p, v4)"
      "pouch_bufview_read (unat dl) v4 = Some (d, v5)" "path_null_term p (unat pl) v5 = Some path"
      "view_bytes d (unat dl) v5 \<noteq> None" "v' = v5"
    using assms by (auto simp: entries_push_one_def split: bind_splits)
  obtain b where b: "bv_buf v = Some b" "bv_offset v + 2 \<le> capacity b" "capacity b < SIZE_MOD"
    "bv_buf v1 = Some b" "bv_offset v1 = bv_offset v + 2"
    using pouch_bufview_read_be16D [OF r(1)] by auto
  have v2: "bv_buf v2 = Some b" "bv_offset v2 = bv_offset v + 4" "bv_offset v + 4 \<le> capacity b"
    using pouch_bufview_read_be16D [OF r(2)] b by auto
  have v3: "bv_buf v3 = Some b" "bv_offset v3 = bv_offset v + 5" "bv_offset v + 5 \<le> capacity b"
    using pouch_bufview_read_byteD [OF r(3)] v2 by auto
  obtain p' where p': "p = Some p'" "bv_buf v4 = Some b" "p' = bv_offset v3" "bv_buf v5 = bv_buf v4"
    using r(4-6) v3 by (auto simp: path_null_term_def pouch_bufview_read_def split: option.splits if_splits
        dest!: bufview_readD)
  then have v4: "bv_offset v4 = bv_offset v3 + unat pl" "bv_offset v3 + unat pl \<le> capacity b"
    using r(4,6) v3 b by (auto simp: path_null_term_def pouch_bufview_read_def size_simps
        split: if_splits dest!: bufview_readD bufview_derefD)
  have "bv_offset v4 \<le> bv_offset v5 \<and> bv_offset v5 \<le> capacity b"
    using r(5,7) p' v4 b by (auto simp: view_bytes_def pouch_bufview_read_def size_simps
        split: if_splits option.splits dest!: bufview_readD bufview_derefD)
  with v4 v3 p' r(8) b show ?thesis by auto
qed

function pouch_downlink_entries_push ::
  "'a pouch_downlink_handler list \<Rightarrow> pouch_bufview \<Rightarrow> 'a \<Rightarrow> 'a option" where
  "pouch_downlink_entries_push hs v a =
     (if pouch_bufview_available v = 0 then Some a
      else (case entries_push_one hs v a of
              None \<Rightarrow> None
            | Some (v', a') \<Rightarrow> pouch_downlink_entries_push hs v' a'))"
  by pat_completeness auto
termination
  by (relation "measure (\<lambda>(hs, v, a). case bv_buf v of None \<Rightarrow> 0 | Some b \<Rightarrow> capacity b - bv_offset v)")
     (auto dest!: entries_push_one_progress)

declare pouch_downlink_entries_push.simps [simp del]

definition pouch_downlink_stream_push ::
  "'a pouch_downlink_handler list \<Rightarrow> pouch_bufview \<Rightarrow> nat \<Rightarrow> bool \<Rightarrow> bool \<Rightarrow> 'a \<Rightarrow> 'a option" where
  "pouch_downlink_stream_push hs v stream_id is_first is_last a =
     do { (v, a) \<leftarrow>
            (if is_first
             then do { (content_type, v) \<leftarrow> pouch_bufview_read_be16 v;
                       (path_len, v) \<leftarrow> pouch_bufview_read_byte v;
                       (path, v) \<leftarrow> pouch_bufview_read (unat path_len) v;
                       path \<leftarrow> path_null_term path (unat path_len) v;
                       a \<leftarrow> downlink_start hs stream_id path content_type a;
                       Some (v, a) }
             else Some (v, a));
          let data_len = (word_of_nat (pouch_bufview_available v) :: u16);
          (data, v) \<leftarrow> pouch_bufview_read (unat data_len) v;
          data \<leftarrow> view_bytes data (unat data_len) v;
          downlink_data hs stream_id data (unat data_len) is_last a }"

definition pouch_downlink_block_push ::
  "'a pouch_downlink_handler list \<Rightarrow> pouch_buf \<Rightarrow> 'a \<Rightarrow> 'a option" where
  "pouch_downlink_block_push hs b a =
     do { let v = pouch_bufview_init (Some b);
          (block_size, stream_id, is_stream, is_first, is_last, v) \<leftarrow> block_decode_hdr v;
          if is_stream then pouch_downlink_stream_push hs v (unat stream_id) is_first is_last a
          else pouch_downlink_entries_push hs v a }"

section \<open>Uplink\<close>

definition write_entry :: "config \<Rightarrow> pouch_buf \<Rightarrow> pouch_entry \<Rightarrow> (ret \<times> pouch_buf) option" where
  "write_entry c block entry =
     (let pathlen = length (pe_path entry); data_len = length (pe_data entry) in
      if block_space_get c block < sz_add (sz_add ENTRY_HEADER_OVERHEAD pathlen) data_len
      then Some (Err ENOMEM, block)
      else do {
        let (p, block) = buf_claim block 2;
        block \<leftarrow> buf_poke p (sys_put_be16 (word_of_nat data_len)) block;
        let (p, block) = buf_claim block 2;
        block \<leftarrow> buf_poke p (sys_put_be16 (pe_content_type entry)) block;
        let (p, block) = buf_claim block 1;
        block \<leftarrow> buf_poke p [word_of_nat pathlen] block;
        block \<leftarrow> buf_write (pe_path entry) block;
        block \<leftarrow> buf_write (pe_data entry) block;
        Some (OK, block) })"

definition pouch_uplink_entry_write ::
  "config \<Rightarrow> ret \<Rightarrow> cstr option \<Rightarrow> u16 \<Rightarrow> byte list option \<Rightarrow> 'c node \<Rightarrow> (ret \<times> 'c node) option" where
  "pouch_uplink_entry_write c lock path content_type data s =
     (case (path, data) of
        (None, _) \<Rightarrow> Some (Err EINVAL, s)
      | (_, None) \<Rightarrow> Some (Err EINVAL, s)
      | (Some path, Some data) \<Rightarrow>
          if length data = 0 then Some (Err EINVAL, s)
          else if lock \<noteq> OK then Some (lock, s)
          else do {
            let block_is_new = (n_block s = None);
            (block, s) \<leftarrow> (case n_block s of
                 None \<Rightarrow> do { (b, h) \<leftarrow> block_alloc c (n_heap s);
                              Some (b, s\<lparr>n_heap := h, n_block := b\<rparr>) }
               | Some b \<Rightarrow> Some (Some b, s));
            case block of
              None \<Rightarrow> Some (Err ENOMEM, s)
            | Some block \<Rightarrow> do {
                let entry = \<lparr>pe_path = path, pe_content_type = content_type, pe_data = data\<rparr>;
                (err, block) \<leftarrow> write_entry c block entry;
                let s = s\<lparr>n_block := Some block\<rparr>;
                if err \<noteq> OK \<and> \<not> block_is_new
                then do {
                  block \<leftarrow> block_finish block;
                  let s = uplink_enqueue block s;
                  (block, h) \<leftarrow> block_alloc c (n_heap s);
                  let s = s\<lparr>n_heap := h, n_block := block\<rparr>;
                  case block of
                    None \<Rightarrow> Some (Err ENOMEM, s)
                  | Some block \<Rightarrow> do {
                      (err, block) \<leftarrow> write_entry c block entry;
                      Some (err, s\<lparr>n_block := Some block\<rparr>) } }
                else Some (err, s) } })"

definition entry_block_close :: "ret \<Rightarrow> 'c node \<Rightarrow> (ret \<times> 'c node) option" where
  "entry_block_close lock s =
     (if lock \<noteq> OK then Some (lock, s)
      else (case n_block s of
              None \<Rightarrow> Some (OK, s)
            | Some block \<Rightarrow>
                if block_size_get block > 0
                then do { block \<leftarrow> block_finish block;
                          let s = uplink_enqueue block s;
                          Some (OK, s\<lparr>n_block := None\<rparr>) }
                else Some (OK, s)))"

section \<open>The format\<close>

text \<open>The bytes of an entry, and the entries that the format can carry.\<close>

definition entry_image :: "pouch_entry \<Rightarrow> byte list" where
  "entry_image e = sys_put_be16 (word_of_nat (length (pe_data e))) @ sys_put_be16 (pe_content_type e)
     @ [word_of_nat (length (pe_path e))] @ pe_path e @ pe_data e"

definition valid_entry :: "pouch_entry \<Rightarrow> bool" where
  "valid_entry e \<longleftrightarrow> length (pe_path e) < 256 \<and> length (pe_data e) < 65536 \<and> 0 \<notin> set (pe_path e)"

text \<open>
  A reference decoder over byte lists: what a block of entries means. An entry whose data is cut off
  is announced with the null pointer and decoding goes on behind its path; a cut-off header or path
  has no meaning.
\<close>

type_synonym entry_event = "cstr \<times> u16 \<times> byte list option \<times> nat"

function parse_entries :: "byte list \<Rightarrow> entry_event list option" where
  "parse_entries xs =
     (if xs = [] then Some []
      else if length xs < 5 then None
      else let dl = unat (sys_get_be16 xs); ct = sys_get_be16 (drop 2 xs); pl = unat (xs ! 4);
               path = take pl (drop 5 xs); rest = drop (5 + pl) xs in
        if length xs < 5 + pl then None
        else if length rest < dl
        then map_option (Cons (takeWhile (\<lambda>x. x \<noteq> 0) path, ct, None, dl)) (parse_entries rest)
        else map_option (Cons (takeWhile (\<lambda>x. x \<noteq> 0) path, ct, Some (take dl rest), dl))
               (parse_entries (drop dl rest)))"
  by pat_completeness auto
termination
  by (relation "measure length") auto

declare parse_entries.simps [simp del]

lemma parse_entries_Nil [simp]: "parse_entries [] = Some []"
  by (simp add: parse_entries.simps)

text \<open>Handing the decoded entries to the handlers, one after the other.\<close>

definition deliver_entry :: "'a pouch_downlink_handler list \<Rightarrow> entry_event \<Rightarrow> 'a \<Rightarrow> 'a option" where
  "deliver_entry hs ev a =
     (case ev of (path, ct, data, len) \<Rightarrow>
        do { a \<leftarrow> downlink_start hs 0 path ct a; downlink_data hs 0 data len True a })"

fun deliver_entries :: "'a pouch_downlink_handler list \<Rightarrow> entry_event list \<Rightarrow> 'a \<Rightarrow> 'a option" where
  "deliver_entries hs [] a = Some a"
| "deliver_entries hs (ev # evs) a = do { a \<leftarrow> deliver_entry hs ev a; deliver_entries hs evs a }"

definition entry_event_of :: "pouch_entry \<Rightarrow> entry_event" where
  "entry_event_of e = (pe_path e, pe_content_type e, Some (pe_data e), length (pe_data e))"

section \<open>Lemmas\<close>

lemma length_entry_image [simp]:
  "length (entry_image e) = 5 + length (pe_path e) + length (pe_data e)"
  by (simp add: entry_image_def)

subsection \<open>Writing an entry\<close>

lemma write_entry_eq:
  assumes "wf_block c b" "5 + length (pe_path e) + length (pe_data e) < SIZE_MOD"
  shows "write_entry c b e =
    Some (if fits (entry_image e) b then (OK, buf_append (entry_image e) b) else (Err ENOMEM, b))"
proof -
  have sum: "sz_add (sz_add ENTRY_HEADER_OVERHEAD (length (pe_path e))) (length (pe_data e))
      = length (entry_image e)"
    using assms(2) by (simp add: size_simps ENTRY_HEADER_OVERHEAD_def)
  have guard: "block_space_get c b < length (entry_image e) \<longleftrightarrow> \<not> fits (entry_image e) b"
    using assms(1) by (auto simp: block_space_eq fits_def wf_block_def wf_buf_def)
  show ?thesis
  proof (cases "fits (entry_image e) b")
    case False
    with sum guard show ?thesis by (simp add: write_entry_def)
  next
    case True
    let ?d = "sys_put_be16 (word_of_nat (length (pe_data e)) :: u16)"
    let ?c = "sys_put_be16 (pe_content_type e)" and ?l = "[word_of_nat (length (pe_path e)) :: byte]"
    have "write_entry c b e = do { b \<leftarrow> buf_write ?d b; b \<leftarrow> buf_write ?c b; b \<leftarrow> buf_write ?l b;
       b \<leftarrow> buf_write (pe_path e) b; b \<leftarrow> buf_write (pe_data e) b; Some (OK, b) }"
      using True sum guard by (simp add: write_entry_def buf_write_def case_prod_unfold Let_def)
    moreover have "fits ?d b" "fits (?d @ ?c) b" "fits (?d @ ?c @ ?l) b" "fits (?d @ ?c @ ?l @ pe_path e) b"
      "fits (?d @ ?c @ ?l @ pe_path e @ pe_data e) b"
      using True by (auto simp: fits_def entry_image_def)
    ultimately show ?thesis
      using True by (simp add: buf_write_eq buf_append_append entry_image_def)
  qed
qed

subsection \<open>The loop over a block's entries is the reference decoder\<close>

text \<open>Once the loop has read past the contents, it only stops by a fault.\<close>

lemma entries_push_overrun:
  assumes "bv_buf v = Some b" "pb_bytes b < bv_offset v" "bv_offset v < SIZE_MOD"
  shows "pouch_downlink_entries_push hs v a = None"
  using assms
proof (induction hs v a rule: pouch_downlink_entries_push.induct)
  case (1 hs v a)
  have av: "pouch_bufview_available v \<noteq> 0"
    using 1(2-4) by (simp add: pouch_bufview_available_def sz_sub_def)
  show ?case
  proof (cases "entries_push_one hs v a")
    case None
    with av show ?thesis by (simp add: pouch_downlink_entries_push.simps [of hs v a])
  next
    case (Some r)
    then obtain v' a' where r: "entries_push_one hs v a = Some (v', a')" by (cases r) auto
    from entries_push_one_progress [OF r] 1(2-4)
    have "bv_buf v' = Some b" "pb_bytes b < bv_offset v'" "bv_offset v' < SIZE_MOD" by auto
    with 1(1) [OF av r] r have "pouch_downlink_entries_push hs v' a' = None" by simp
    with av r show ?thesis by (simp add: pouch_downlink_entries_push.simps [of hs v a])
  qed
qed

text \<open>One iteration on a view whose header is complete.\<close>

lemma entries_push_one_eq:
  fixes v :: pouch_bufview
  defines "xs \<equiv> view_rest v"
  defines "dl \<equiv> unat (sys_get_be16 xs)" and "ct \<equiv> sys_get_be16 (drop 2 xs)" and "pl \<equiv> unat (xs ! 4)"
  defines "rest \<equiv> drop (5 + pl) xs"
  defines "path \<equiv> takeWhile (\<lambda>x. x \<noteq> 0) (take pl (drop 5 xs))"
  assumes v: "view_ok v" and len: "5 \<le> length xs"
  shows "entries_push_one hs v a =
    (if length xs < 5 + pl then None
     else if length rest < dl
     then map_option (Pair (view_advance (5 + pl) v)) (deliver_entry hs (path, ct, None, dl) a)
     else map_option (Pair (view_advance (5 + pl + dl) v))
            (deliver_entry hs (path, ct, Some (take dl rest), dl) a))"
proof -
  let ?v5 = "view_advance 5 v"
  have r1: "pouch_bufview_read_be16 v = Some (sys_get_be16 xs, view_advance 2 v)"
    and r2: "pouch_bufview_read_be16 (view_advance 2 v) = Some (ct, view_advance 4 v)"
    using v len by (simp_all add: xs_def ct_def pouch_bufview_read_be16_eq view_advance_add)
  have "view_rest (view_advance 4 v) = xs ! 4 # drop 5 xs"
    using len by (simp add: xs_def Cons_nth_drop_Suc eval_nat_numeral)
  then have r3: "pouch_bufview_read_byte (view_advance 4 v) = Some (xs ! 4, ?v5)"
    using v len by (subst pouch_bufview_read_byte_eq) (auto simp: xs_def view_advance_add)
  have v5: "view_ok ?v5" "view_rest ?v5 = drop 5 xs" using v len by (simp_all add: xs_def)
  have off: "bv_offset (view_advance n w) = bv_offset w + n" for n w by (simp add: view_advance_def)
  show ?thesis
  proof (cases "length xs < 5 + pl")
    case True
    then have "pouch_bufview_read pl ?v5 = Some (None, ?v5)"
      using v5 len by (subst pouch_bufview_read_eq) auto
    then show ?thesis
      using True r1 r2 r3 by (cases "pouch_bufview_read dl ?v5")
        (auto simp: entries_push_one_def dl_def [symmetric] pl_def [symmetric] path_null_term_def)
  next
    case False
    let ?w = "view_advance (5 + pl) v"
    have r4: "pouch_bufview_read pl ?v5 = Some (Some (bv_offset ?v5), ?w)"
      using False v5 by (subst pouch_bufview_read_eq) (auto simp: view_advance_add)
    have w: "view_ok ?w" "view_rest ?w = rest" using False v by (simp_all add: xs_def rest_def)
    have p: "path_null_term (Some (bv_offset ?v5)) pl (view_advance n ?w) = Some path" for n
      using bufview_read_eq(2) [OF v5(1), of pl "pl + n"] False v5(2) len
      by (simp add: path_null_term_def path_def view_advance_add add.assoc xs_def)
    show ?thesis
    proof (cases "length rest < dl")
      case True
      then have "pouch_bufview_read dl ?w = Some (None, ?w)"
        using w by (subst pouch_bufview_read_eq) auto
      then show ?thesis
        using False True r1 r2 r3 r4 p [of 0]
        by (auto simp: entries_push_one_def dl_def [symmetric] pl_def [symmetric] view_bytes_def
            deliver_entry_def split: bind_splits)
    next
      case dl: False
      have r5: "pouch_bufview_read dl ?w = Some (Some (bv_offset ?w), view_advance dl ?w)"
        using dl w by (subst pouch_bufview_read_eq) auto
      have d: "view_bytes (Some (bv_offset ?w)) dl (view_advance dl ?w) = Some (Some (take dl rest))"
        using bufview_read_eq(2) [OF w(1), of dl dl] dl w by (simp add: view_bytes_def rest_def xs_def)
      show ?thesis
        using False dl r1 r2 r3 r4 r5 p [of dl] d
        by (auto simp: entries_push_one_def dl_def [symmetric] pl_def [symmetric]
            deliver_entry_def view_advance_add split: bind_splits)
    qed
  qed
qed

theorem entries_push_parse:
  assumes "view_ok v"
  shows "pouch_downlink_entries_push hs v a =
    do { evs \<leftarrow> parse_entries (view_rest v); deliver_entries hs evs a }"
  using assms
proof (induction hs v a rule: pouch_downlink_entries_push.induct)
  case (1 hs v a)
  let ?xs = "view_rest v"
  note unf = pouch_downlink_entries_push.simps [of hs v a] parse_entries.simps [of ?xs]
  show ?case
  proof (cases "?xs = []")
    case True
    with 1(2) show ?thesis by (simp add: unf view_available)
  next
    case ne: False
    then have av: "pouch_bufview_available v \<noteq> 0" using 1(2) by (simp add: view_available)
    show ?thesis
    proof (cases "length ?xs < 5")
      case short: True
      have "pouch_downlink_entries_push hs v a = None"
      proof (cases "entries_push_one hs v a")
        case None
        then show ?thesis by (simp add: unf av)
      next
        case (Some r)
        then obtain v' a' where r: "entries_push_one hs v a = Some (v', a')" by (cases r) auto
        obtain b where b: "bv_buf v = Some b" "wf_buf b" "length ?xs = pb_bytes b - bv_offset v"
          using 1(2) by (rule view_okE)
        have "bv_buf v' = Some b" "pb_bytes b < bv_offset v'" "bv_offset v' < SIZE_MOD"
          using entries_push_one_progress [OF r] b short by auto
        then show ?thesis using r av by (simp add: unf entries_push_overrun)
      qed
      with short ne show ?thesis by (simp add: unf)
    next
      case long: False
      let ?dl = "unat (sys_get_be16 ?xs)" and ?pl = "unat (?xs ! 4)"
      let ?rest = "drop (5 + ?pl) ?xs"
      have IH: "pouch_downlink_entries_push hs v' a' =
          do { evs \<leftarrow> parse_entries (view_rest v'); deliver_entries hs evs a' }"
        if "entries_push_one hs v a = Some (v', a')" "view_ok v'" for v' a'
        using 1(1) [OF av that(1)] that(2) by simp
      note one = entries_push_one_eq [OF 1(2), of hs a]
      consider (path) "length ?xs < 5 + ?pl" | (null) "\<not> length ?xs < 5 + ?pl" "length ?rest < ?dl"
        | (full) "\<not> length ?xs < 5 + ?pl" "\<not> length ?rest < ?dl" by blast
      then show ?thesis
      proof cases
        case path
        with one long ne av show ?thesis by (simp add: unf Let_def)
      next
        case null
        let ?ev = "(takeWhile (\<lambda>x. x \<noteq> 0) (take ?pl (drop 5 ?xs)), sys_get_be16 (drop 2 ?xs), None, ?dl)"
        let ?w = "view_advance (5 + ?pl) v"
        have w: "view_ok ?w" "view_rest ?w = ?rest" using 1(2) null by simp_all
        have "entries_push_one hs v a = map_option (Pair ?w) (deliver_entry hs ?ev a)"
          using one long null by simp
        then show ?thesis
          using IH [of ?w] w null long ne av
          by (cases "deliver_entry hs ?ev a"; cases "parse_entries ?rest") (auto simp: unf Let_def)
      next
        case full
        let ?ev = "(takeWhile (\<lambda>x. x \<noteq> 0) (take ?pl (drop 5 ?xs)), sys_get_be16 (drop 2 ?xs),
            Some (take ?dl ?rest), ?dl)"
        let ?w = "view_advance (5 + ?pl + ?dl) v"
        have w: "view_ok ?w" "view_rest ?w = drop ?dl ?rest"
          using 1(2) full by (simp_all add: add.commute)
        have "entries_push_one hs v a = map_option (Pair ?w) (deliver_entry hs ?ev a)"
          using one long full by simp
        then show ?thesis
          using IH [of ?w] w full long ne av
          by (cases "deliver_entry hs ?ev a"; cases "parse_entries (drop ?dl ?rest)") (auto simp: unf Let_def)
      qed
    qed
  qed
qed

subsection \<open>Round trip\<close>

lemma takeWhile_no_zero: "0 \<notin> set xs \<Longrightarrow> takeWhile (\<lambda>x. x \<noteq> (0 :: byte)) xs = xs"
  by (induction xs) auto

lemma parse_entry_image:
  assumes "valid_entry e"
  shows "parse_entries (entry_image e @ rest) = map_option (Cons (entry_event_of e)) (parse_entries rest)"
proof -
  let ?xs = "entry_image e @ rest"
  have v: "length (pe_path e) < 256" "length (pe_data e) < 65536" "0 \<notin> set (pe_path e)"
    using assms by (auto simp: valid_entry_def)
  have eq: "?xs = sys_put_be16 (word_of_nat (length (pe_data e))) @ sys_put_be16 (pe_content_type e)
     @ word_of_nat (length (pe_path e)) # pe_path e @ pe_data e @ rest" (is "_ = ?ys")
    by (simp add: entry_image_def)
  have dl: "unat (sys_get_be16 ?xs) = length (pe_data e)" unfolding eq using v by simp
  have ct: "sys_get_be16 (drop 2 ?xs) = pe_content_type e" unfolding eq by simp
  have pl: "unat (?xs ! 4) = length (pe_path e)" unfolding eq using v by (simp add: nth_append)
  have path: "take (length (pe_path e)) (drop 5 ?xs) = pe_path e" unfolding eq by simp
  have rest: "drop (5 + length (pe_path e)) ?xs = pe_data e @ rest" unfolding eq by simp
  have "?xs \<noteq> []" "\<not> length ?xs < 5 + length (pe_path e)" by (simp_all add: entry_image_def)
  then show ?thesis
    by (subst parse_entries.simps)
       (simp only: Let_def dl ct pl path rest, simp add: takeWhile_no_zero v entry_event_of_def)
qed

lemma parse_entry_images:
  "list_all valid_entry es \<Longrightarrow> parse_entries (concat (map entry_image es)) = Some (map entry_event_of es)"
  by (induction es) (simp_all add: parse_entry_image)

text \<open>Decoding a block of entries.\<close>

lemma block_push_entry_block:
  assumes "wf_buf b" "contents b = block_image 0xC0 payload" "length payload < 65535"
  shows "pouch_downlink_block_push hs b a = do { evs \<leftarrow> parse_entries payload; deliver_entries hs evs a }"
proof -
  let ?v = "view_advance 3 (pouch_bufview_init (Some b))"
  have v: "view_ok ?v" "view_rest ?v = payload"
    using assms by (simp_all, simp_all add: block_image_def)
  show ?thesis
    using block_decode_hdr_image [OF assms] entries_push_parse [OF v(1), of hs a] v(2)
    by (simp add: pouch_downlink_block_push_def BLOCK_ID_MASK_def BLOCK_ID_ENTRY_def)
qed

subsection \<open>Stream blocks\<close>

definition stream_header_image :: "u16 \<Rightarrow> cstr \<Rightarrow> byte list" where
  "stream_header_image ct path = sys_put_be16 ct @ word_of_nat (length path) # path"

lemma length_stream_header_image [simp]: "length (stream_header_image ct path) = length path + 3"
  by (simp add: stream_header_image_def)

lemma stream_data_eq:
  assumes "view_ok v" "view_rest v = data" "length data < 65536"
  shows "do { let data_len = (word_of_nat (pouch_bufview_available v) :: u16);
      (d, v) \<leftarrow> pouch_bufview_read (unat data_len) v;
      d \<leftarrow> view_bytes d (unat data_len) v;
      downlink_data hs i d (unat data_len) is_last a } = downlink_data hs i (Some data) (length data) is_last a"
  using assms bufview_read_eq(2) [OF assms(1), of "length data" "length data"]
  by (simp add: view_available pouch_bufview_read_eq view_bytes_def)

lemma stream_push_cont:
  assumes "view_ok v" "view_rest v = data" "length data < 65536"
  shows "pouch_downlink_stream_push hs v i False is_last a =
    downlink_data hs i (Some data) (length data) is_last a"
  using stream_data_eq [OF assms] by (simp add: pouch_downlink_stream_push_def)

lemma stream_push_header_cont:
  assumes "view_ok v" "view_rest v = stream_header_image ct path @ data" "length path < 256"
  shows "pouch_downlink_stream_push hs v i True is_last a =
    do { a \<leftarrow> downlink_start hs i (takeWhile (\<lambda>x. x \<noteq> 0) path) ct a; pouch_downlink_stream_push hs (view_advance (length path + 3) v) i False is_last a }"
proof -
  let ?w = "view_advance (length path + 3) v"
  have r1: "pouch_bufview_read_be16 v = Some (ct, view_advance 2 v)"
    using assms(1,2) by (simp add: pouch_bufview_read_be16_eq, simp add: stream_header_image_def)
  have "view_rest (view_advance 2 v) = word_of_nat (length path) # path @ data"
    using assms(2) by (simp, simp add: stream_header_image_def)
  then have r2: "pouch_bufview_read_byte (view_advance 2 v) = Some (word_of_nat (length path), view_advance 3 v)"
    using assms(1,2) by (subst pouch_bufview_read_byte_eq) (auto simp: view_advance_add)
  have v3: "view_ok (view_advance 3 v)" "view_rest (view_advance 3 v) = path @ data"
    using assms(1,2) by (simp_all, simp_all add: stream_header_image_def)
  have r3: "pouch_bufview_read (length path) (view_advance 3 v) = Some (Some (bv_offset (view_advance 3 v)), ?w)"
    using v3 by (subst pouch_bufview_read_eq) (auto simp: view_advance_add add.commute)
  have r4: "path_null_term (Some (bv_offset (view_advance 3 v))) (length path) ?w = Some (takeWhile (\<lambda>x. x \<noteq> 0) path)"
    using bufview_read_eq(2) [OF v3(1), of "length path" "length path"] v3(2) assms(2)
    by (simp add: path_null_term_def view_advance_add add.commute)
  show ?thesis
    using r1 r2 r3 r4 assms(3) by (cases "downlink_start hs i (takeWhile (\<lambda>x. x \<noteq> 0) path) ct a") (simp_all add: pouch_downlink_stream_push_def)
qed

lemma stream_push_first:
  assumes "view_ok v" "view_rest v = stream_header_image ct path @ data" "length data < 65536"
    "length path < 256" "0 \<notin> set path"
  shows "pouch_downlink_stream_push hs v i True is_last a =
    do { a \<leftarrow> downlink_start hs i path ct a; downlink_data hs i (Some data) (length data) is_last a }"
proof -
  have "view_ok (view_advance (length path + 3) v)" "view_rest (view_advance (length path + 3) v) = data" using assms(1,2) by simp_all
  with stream_push_header_cont [OF assms(1,2,4), of hs i is_last a] assms(3,5) show ?thesis
    by (simp add: takeWhile_no_zero stream_push_cont)
qed

lemma block_push_stream_block:
  assumes "wf_buf b" "contents b = block_image bid payload" "length payload < 65535"
    "bid AND BLOCK_ID_MASK \<noteq> 0"
  shows "pouch_downlink_block_push hs b a =
    pouch_downlink_stream_push hs (view_advance 3 (pouch_bufview_init (Some b)))
      (unat (bid AND BLOCK_ID_MASK)) (bid AND FIRST_DATA_MASK \<noteq> 0) (bid AND LAST_DATA_MASK \<noteq> 0) a"
  using block_decode_hdr_image [OF assms(1-3)] assms(4)
  by (simp add: pouch_downlink_block_push_def BLOCK_ID_ENTRY_def)

subsection \<open>Malformed blocks\<close>

lemma unat_u16_underflow:
  assumes "0 < d" "d < 65536"
  shows "unat (word_of_nat (SIZE_MOD - d) :: u16) = 65536 - d"
proof -
  have "SIZE_MOD - d = (65536 - d) + 65535 * 65536"
    using assms by (simp add: SIZE_MOD_def)
  then have "(SIZE_MOD - d) mod 65536 = 65536 - d"
    using assms by (simp only: mod_mult_self1) simp
  then show ?thesis by (simp add: unat_of_nat del: of_nat_diff)
qed

text \<open>Reading the data of a stream block from behind its contents leaves the storage.\<close>

lemma stream_data_overrun:
  assumes "bv_buf v = Some b" "pb_bytes b < bv_offset v" "bv_offset v < 65536" "capacity b < 65536"
  shows "do { let data_len = (word_of_nat (pouch_bufview_available v) :: u16);
      (d, v) \<leftarrow> pouch_bufview_read (unat data_len) v;
      d \<leftarrow> view_bytes d (unat data_len) v;
      downlink_data hs i d (unat data_len) is_last a } = None"
proof -
  let ?d = "bv_offset v - pb_bytes b"
  have av: "pouch_bufview_available v = SIZE_MOD - ?d"
    using assms by (simp add: pouch_bufview_available_def sz_sub_def)
  have len: "unat (word_of_nat (pouch_bufview_available v) :: u16) = 65536 - ?d"
    unfolding av using assms by (intro unat_u16_underflow) auto
  have "\<not> pouch_bufview_available v < 65536 - ?d" using assms av by (simp add: SIZE_MOD_def)
  moreover have "capacity b < bv_offset v + (65536 - ?d)" using assms by auto
  ultimately show ?thesis
    using assms by (auto simp: len pouch_bufview_read_def bufview_read_def view_bytes_def
        bufview_deref_def buf_peek_def mem_read_def Let_def split: bind_splits)
qed

lemma stream_push_overrun:
  assumes "bv_buf v = Some b" "pb_bytes b < bv_offset v + (if is_first then 3 else 0)" "bv_offset v < 65536" "capacity b < 65536"
  shows "pouch_downlink_stream_push hs v i is_first is_last a = None"
proof (rule ccontr)
  assume "pouch_downlink_stream_push hs v i is_first is_last a \<noteq> None"
  then obtain v' a' where
    hd: "(if is_first
          then do { (ct, v) \<leftarrow> pouch_bufview_read_be16 v; (pl, v) \<leftarrow> pouch_bufview_read_byte v;
                    (path, v) \<leftarrow> pouch_bufview_read (unat pl) v;
                    path \<leftarrow> path_null_term path (unat pl) v;
                    a \<leftarrow> downlink_start hs i path ct a; Some (v, a) }
          else Some (v, a)) = Some (v', a')"
    and tl: "do { let data_len = (word_of_nat (pouch_bufview_available v') :: u16);
        (d, v) \<leftarrow> pouch_bufview_read (unat data_len) v';
        d \<leftarrow> view_bytes d (unat data_len) v;
        downlink_data hs i d (unat data_len) is_last a' } \<noteq> None"
    unfolding pouch_downlink_stream_push_def by (fastforce split: bind_splits)
  have "bv_buf v' = Some b \<and> pb_bytes b < bv_offset v' \<and> bv_offset v' < 65536"
  proof (cases is_first)
    case False
    with hd assms show ?thesis by simp
  next
    case True
    then obtain ct v1 pl v2 p path where
      r: "pouch_bufview_read_be16 v = Some (ct, v1)" "pouch_bufview_read_byte v1 = Some (pl, v2)"
        "pouch_bufview_read (unat pl) v2 = Some (p, v')" "path_null_term p (unat pl) v' = Some path"
      using hd by (auto split: bind_splits)
    have v2: "bv_buf v2 = Some b" "bv_offset v2 = bv_offset v + 3"
      using pouch_bufview_read_be16D [OF r(1)] pouch_bufview_read_byteD [OF r(2)] assms(1) by auto
    obtain p' where p: "p = Some p'" using r(4) by (cases p) (auto simp: path_null_term_def)
    have rd: "bufview_read (unat pl) v2 = Some (p', v')"
      using r(3) p by (auto simp: pouch_bufview_read_def split: if_splits)
    have "\<exists>xs. bufview_deref p' (unat pl) v' = Some xs" using r(4) p by (auto simp: path_null_term_def)
    then show ?thesis
      using bufview_readD [OF rd] v2 assms True by (auto simp: size_simps dest!: bufview_derefD)
  qed
  then have "do { let data_len = (word_of_nat (pouch_bufview_available v') :: u16);
        (d, v) \<leftarrow> pouch_bufview_read (unat data_len) v';
        d \<leftarrow> view_bytes d (unat data_len) v;
        downlink_data hs i d (unat data_len) is_last a' } = None"
    using assms(4) by (intro stream_data_overrun) auto
  with tl show False by simp
qed

lemma block_push_too_short:
  assumes "pb_bytes b < 3" "capacity b < 65536"
  shows "pouch_downlink_block_push hs b a = None"
proof (cases "block_decode_hdr (pouch_bufview_init (Some b))")
  case None
  then show ?thesis by (simp add: pouch_downlink_block_push_def)
next
  case (Some r)
  then obtain n i st f l v where r: "block_decode_hdr (pouch_bufview_init (Some b)) = Some (n, i, st, f, l, v)"
    by (cases r) auto
  then obtain v1 bid where "pouch_bufview_read_be16 (pouch_bufview_init (Some b)) = Some (n, v1)"
    "pouch_bufview_read_byte v1 = Some (bid, v)"
    by (auto simp: block_decode_hdr_def Let_def split: bind_splits if_splits)
  from pouch_bufview_read_be16D [OF this(1)] pouch_bufview_read_byteD [OF this(2)]
  have v: "bv_buf v = Some b" "bv_offset v = 3" "capacity b < SIZE_MOD"
    by (auto simp: pouch_bufview_init_def)
  show ?thesis
    using r v assms entries_push_overrun [of v b hs a] stream_push_overrun [of v b f hs "unat i" l a]
    by (simp add: pouch_downlink_block_push_def SIZE_MOD_def)
qed

subsection \<open>The uplink half\<close>

lemma is_entry_block_append: "is_entry_block b \<Longrightarrow> wf_block c b \<Longrightarrow> fits xs b \<Longrightarrow> is_entry_block (buf_append xs b)"
  by (simp add: is_entry_block_def buf_append_fields nth_append wf_block_def)

lemma fresh_entry_block: "wf_block c b \<Longrightarrow> contents b = [0, 0, 0xC0] \<Longrightarrow> is_entry_block b \<and> pb_bytes b = 3"
  using contents_length [of b] by (simp add: is_entry_block_def wf_block_def)

lemma drop3_append: "wf_block c b \<Longrightarrow> fits xs b \<Longrightarrow> drop 3 (contents (buf_append xs b)) = drop 3 (contents b) @ xs"
  by (simp add: buf_append_fields wf_block_def)

lemma valid_config_payload: "valid_config c \<Longrightarrow> MAX_BLOCK_PAYLOAD_SIZE c < 65535"
  using MAX_sizes [of c] by (auto simp: valid_config_def MAX_PLAINTEXT_BLOCK_SIZE_def BLOCK_HEADER_SIZE_def)

text \<open>A finished entry block can be sent and carries the same entries.\<close>

lemma block_finish_entry:
  assumes "valid_config c" "wf_block c b" "is_entry_block b"
  shows "\<exists>b'. block_finish b = Some b' \<and> sendable c b' \<and> is_entry_block b'
    \<and> drop 3 (contents b') = drop 3 (contents b) \<and> contents b' = block_image 0xC0 (drop 3 (contents b))"
proof -
  obtain x y bid payload where c: "contents b = x # y # bid # payload"
    using assms(2) by (rule wf_block_contents)
  with assms(3) have bid: "bid = 0xC0" by (simp add: is_entry_block_def)
  obtain b' where b': "block_finish b = Some b'" "wf_block c b'" "contents b' = block_image 0xC0 payload"
    using block_finish_eq [OF assms(2) c] bid by auto
  have "length payload < 65535"
    using wf_block_payload_bound [OF assms(2) c] valid_config_payload [OF assms(1)] by simp
  then have "sendable c b'"
    using b' framed_block_image [of payload "0xC0"] by (auto simp: sendable_def wf_block_def wf_buf_def)
  then show ?thesis
    using b' c by (auto simp: is_entry_block_def block_image_def sys_put_be16_def)
qed

text \<open>A write into an entry block, on both branches.\<close>

lemma write_entry_cases:
  assumes "wf_block c b" "is_entry_block b" "5 + length (pe_path e) + length (pe_data e) < SIZE_MOD"
  obtains (full) "write_entry c b e = Some (Err ENOMEM, b)" "MAX_PLAINTEXT_BLOCK_SIZE c < pb_bytes b + length (entry_image e)"
  | (ok) b' where "write_entry c b e = Some (OK, b')" "wf_block c b'" "is_entry_block b'"
      "drop 3 (contents b') = drop 3 (contents b) @ entry_image e"
      "pb_bytes b + length (entry_image e) \<le> MAX_PLAINTEXT_BLOCK_SIZE c"
proof (cases "fits (entry_image e) b")
  case True
  have "pb_bytes b + length (entry_image e) \<le> MAX_PLAINTEXT_BLOCK_SIZE c"
    using True assms(1) by (auto simp: fits_def wf_block_def)
  with True assms(1,2) write_entry_eq [OF assms(1,3)] show thesis
    by (intro ok [of "buf_append (entry_image e) b"])
       (simp_all add: wf_block_append is_entry_block_append drop3_append)
next
  case False
  then show thesis
    using assms write_entry_eq [OF assms(1,3)] by (intro full) (auto simp: fits_def wf_block_def)
qed

text \<open>Allocating a block and writing the entry into it, as both the first try and the retry do.\<close>

lemma alloc_write_cases:
  assumes "valid_config c" "5 + length (pe_path e) + length (pe_data e) < SIZE_MOD"
  obtains (fail) h' where "block_alloc c h = Some (None, h')" "bufs h' = bufs h" "\<not> malloc_ok h (mallocs h)"
  | (full) b h' where "block_alloc c h = Some (Some b, h')" "bufs h' = bufs h + 1"
      "write_entry c b e = Some (Err ENOMEM, b)" "wf_block c b" "is_entry_block b" "drop 3 (contents b) = []"
      "MAX_BLOCK_PAYLOAD_SIZE c < length (entry_image e)"
  | (ok) b b' h' where "block_alloc c h = Some (Some b, h')" "bufs h' = bufs h + 1"
      "write_entry c b e = Some (OK, b')" "wf_block c b'" "is_entry_block b'"
      "drop 3 (contents b') = entry_image e" "length (entry_image e) \<le> MAX_BLOCK_PAYLOAD_SIZE c"
  using assms(1)
proof (cases rule: block_alloc_cases [of c h])
  case (fail h')
  then have "\<not> malloc_ok h (mallocs h)"
    by (auto simp: block_alloc_def buf_alloc_def malloc_def split: if_splits bind_splits)
  with fail show thesis by (rule that(1))
next
  case (ok b h')
  note fb = fresh_entry_block [OF ok(3,4)]
  have MP: "MAX_PLAINTEXT_BLOCK_SIZE c = 3 + MAX_BLOCK_PAYLOAD_SIZE c"
    by (simp add: MAX_PLAINTEXT_BLOCK_SIZE_def BLOCK_HEADER_SIZE_def)
  from ok(3) conjunct1 [OF fb] assms(2) show thesis
  proof (cases rule: write_entry_cases)
    case full
    with ok fb MP show thesis by (intro that(2) [of b h']) auto
  next
    case w: (ok b')
    with ok fb MP show thesis by (intro that(3) [of b h' b']) auto
  qed
qed

lemmas node_defs = node_inv_def balance_def owned_def entry_log_def

lemma entry_write_spec:
  fixes s :: "'c node" and ct :: u16
  assumes c: "valid_config c" and inv: "node_inv c s"
    and sz: "5 + length path + length data < SIZE_MOD"
  defines "e \<equiv> \<lparr>pe_path = path, pe_content_type = ct, pe_data = data\<rparr>"
  shows "\<exists>r s'. pouch_uplink_entry_write c lock (Some path) ct (Some data) s = Some (r, s')
    \<and> node_inv c s' \<and> balance s' = balance s
    \<and> entry_log s' = entry_log s @ (if r = OK then entry_image e else [])
    \<and> (r = OK \<longrightarrow> lock = OK \<and> data \<noteq> [] \<and> length (entry_image e) \<le> MAX_BLOCK_PAYLOAD_SIZE c)
    \<and> (lock = OK \<longrightarrow> data \<noteq> [] \<longrightarrow> length (entry_image e) \<le> MAX_BLOCK_PAYLOAD_SIZE c
         \<longrightarrow> (\<forall>n. malloc_ok (n_heap s) n) \<longrightarrow> r = OK)"
proof -
  have sz': "5 + length (pe_path e) + length (pe_data e) < SIZE_MOD" using sz by (simp add: e_def)
  note unf = pouch_uplink_entry_write_def e_def [symmetric]
  consider (arg) "data = [] \<or> lock \<noteq> OK" | (fresh) "data \<noteq> []" "lock = OK" "n_block s = None"
    | (old) b where "data \<noteq> []" "lock = OK" "n_block s = Some b" by (cases "n_block s") auto
  then show ?thesis
  proof cases
    case arg
    with inv show ?thesis by (auto simp: unf)
  next
    case fresh
    from c sz' show ?thesis
      by (cases rule: alloc_write_cases [of c e "n_heap s"]) (use fresh inv in \<open>auto simp: unf node_defs\<close>)
  next
    case (old b)
    then have b: "wf_block c b" "is_entry_block b" using inv by (simp_all add: node_inv_def)
    from b sz' show ?thesis
    proof (cases rule: write_entry_cases)
      case (ok b')
      with old inv b show ?thesis
        by (auto simp: unf node_defs wf_block_def MAX_PLAINTEXT_BLOCK_SIZE_def BLOCK_HEADER_SIZE_def)
    next
      case full
      obtain f where f: "block_finish b = Some f" "sendable c f" "is_entry_block f"
        "drop 3 (contents f) = drop 3 (contents b)"
        using block_finish_entry [OF c b] by auto
      from c sz' show ?thesis
        by (cases rule: alloc_write_cases [of c e "n_heap s"]) (use old full(1) inv f in \<open>auto simp: unf node_defs\<close>)
    qed
  qed
qed

lemma entry_block_close_spec:
  fixes s :: "'c node"
  assumes "valid_config c" "node_inv c s"
  shows "\<exists>r s'. entry_block_close lock s = Some (r, s') \<and> r = lock \<and> node_inv c s' \<and> balance s' = balance s
    \<and> entry_log s' = entry_log s \<and> (r = OK \<longrightarrow> n_block s' = None)
    \<and> up_transport_queue (n_up s') = up_transport_queue (n_up s) \<and> up_flags (n_up s') = up_flags (n_up s)"
proof (cases "n_block s")
  case None
  with assms show ?thesis by (auto simp: entry_block_close_def)
next
  case (Some b)
  then have b: "wf_block c b" "is_entry_block b" using assms by (simp_all add: node_inv_def)
  obtain f where f: "block_finish b = Some f" "sendable c f" "is_entry_block f"
    "drop 3 (contents f) = drop 3 (contents b)"
    using block_finish_entry [OF assms(1) b] by auto
  have "0 < block_size_get b" using b by (simp add: block_size_get_def buf_size_get_def wf_block_def)
  with Some f assms show ?thesis by (auto simp: entry_block_close_def node_defs)
qed

end
