(* ===== verification/Streams.thy ===== *)
theory Streams
  imports Entry
begin

text \<open>
  Uplink streams, \<^verbatim>\<open>src/stream.c\<close>: data of any length cut into blocks of its own. A stream handle is a
  value that the application keeps between the calls; the counters \<^verbatim>\<open>stream_id\<close> and \<^verbatim>\<open>open_streams\<close> are in
  the node.

  Shown here: the blocks a write produces carry exactly the bytes written, in order, whatever the
  sizes of the writes and wherever allocation fails; opening a stream with a path that does not fit
  into a block writes outside the block.
\<close>

section \<open>Data\<close>

record pouch_stream =
  st_id :: byte
  st_buf :: pouch_buf
  st_bytes :: size_t
  st_session_id :: u32

definition POUCH_STREAMS_MAX :: int where
  "POUCH_STREAMS_MAX = 126"

section \<open>Operations\<close>

definition write_stream_header :: "pouch_buf \<Rightarrow> u16 \<Rightarrow> cstr \<Rightarrow> pouch_buf option" where
  "write_stream_header block content_type path =
     do { let path_len = length path;
          let (p, block) = buf_claim block 2;
          block \<leftarrow> buf_poke p (sys_put_be16 content_type) block;
          let (p, block) = buf_claim block 1;
          block \<leftarrow> buf_poke p [word_of_nat path_len] block;
          buf_write path block }"

lemma AND_31_eq_mod: "unat ((n :: u32) AND 31) = unat n mod 32"
proof -
  have "n AND 31 = take_bit 5 n"
    using take_bit_eq_mask [of 5 n] by (simp add: mask_eq_exp_minus_1)
  then show ?thesis by (simp add: take_bit_eq_mod unat_mod_distrib)
qed

lemma next_id_nonzero: "(n :: u32) AND 31 = 0 \<Longrightarrow> (n + 1) AND 31 \<noteq> 0"
proof
  assume "n AND 31 = 0" "(n + 1) AND 31 = 0"
  then have "unat n mod 32 = 0" "unat (n + 1) mod 32 = 0"
    using AND_31_eq_mod [of n] AND_31_eq_mod [of "n + 1"] by simp_all
  moreover have "unat (n + 1) = (unat n + 1) mod 2 ^ 32"
    by (simp add: unat_word_ariths)
  then have "unat (n + 1) mod 32 = (unat n + 1) mod 32" by (simp add: mod_mod_cancel)
  ultimately show False by (simp add: mod_Suc)
qed

text \<open>The loop that skips the reserved number 0; \<^verbatim>\<open>atomic_inc\<close> returns the old value.\<close>

function new_stream_id :: "u32 \<Rightarrow> byte \<times> u32" where
  "new_stream_id n =
     (let i = n AND ucast BLOCK_ID_MASK; n' = n + 1
      in if i = 0 then new_stream_id n' else (ucast i, n'))"
  by pat_completeness auto
termination
  by (relation "measure (\<lambda>n. if n AND 31 = 0 then 1 else 0)") (auto simp: next_id_nonzero BLOCK_ID_MASK_def)

declare new_stream_id.simps [simp del]

definition pouch_uplink_stream_open ::
  "config \<Rightarrow> cstr \<Rightarrow> u16 \<Rightarrow> 'c node \<Rightarrow> (pouch_stream option \<times> 'c node) option" where
  "pouch_uplink_stream_open c path content_type s =
     (let old = n_open_streams s; s = s\<lparr>n_open_streams := old + 1\<rparr> in
      if POUCH_STREAMS_MAX \<le> old then Some (None, s\<lparr>n_open_streams := n_open_streams s - 1\<rparr>)
      else case malloc (n_heap s) of (ok, h) \<Rightarrow>
        let s = s\<lparr>n_heap := h\<rparr> in
        if \<not> ok then Some (None, s\<lparr>n_open_streams := n_open_streams s - 1\<rparr>)
        else case new_stream_id (n_stream_id s) of (i, n) \<Rightarrow>
          let s = s\<lparr>n_stream_id := n\<rparr>; session_id = uplink_session_id s in
          do { (b, h) \<leftarrow> block_alloc_stream c i True (n_heap s);
               let s = s\<lparr>n_heap := h\<rparr>;
               case b of
                 None \<Rightarrow> Some (None, s\<lparr>n_open_streams := n_open_streams s - 1\<rparr>)
               | Some b \<Rightarrow>
                   do { b \<leftarrow> write_stream_header b content_type path;
                        Some (Some \<lparr>st_id = i, st_buf = b, st_bytes = 0, st_session_id = session_id\<rparr>, s) } })"

definition pouch_stream_is_valid :: "pouch_stream option \<Rightarrow> 'c node \<Rightarrow> bool" where
  "pouch_stream_is_valid stream s =
     (case stream of None \<Rightarrow> False | Some st \<Rightarrow> st_session_id st = uplink_session_id s)"

text \<open>
  The head of the write loop: make sure that the stream's buffer has room, with a new buffer if need
  be. The flag is false where the code breaks out of the loop.
\<close>

definition stream_room :: "config \<Rightarrow> pouch_stream \<Rightarrow> 'c node \<Rightarrow> (bool \<times> pouch_stream \<times> 'c node) option" where
  "stream_room c st s =
     (if block_space_get c (st_buf st) = 0
      then do { (b, h) \<leftarrow> block_alloc_stream c (st_id st) False (n_heap s);
                let s = s\<lparr>n_heap := h\<rparr>;
                case b of
                  None \<Rightarrow> Some (False, st, s)
                | Some b \<Rightarrow>
                    do { full \<leftarrow> block_finish_stream (st_buf st) (st_id st) False;
                         let s = uplink_enqueue full s;
                         Some (True, st\<lparr>st_buf := b\<rparr>, s) } }
      else Some (True, st, s))"

lemma block_alloc_stream_bytes:
  "block_alloc_stream c i first h = Some (Some b, h') \<Longrightarrow> pb_bytes b = 3"
  by (auto simp: block_alloc_stream_def write_block_header_def buf_claim_def buf_poke_def sz_add_def SIZE_MOD_def
      buf_alloc_def malloc_def split: bind_splits if_splits)

lemma stream_room_space:
  assumes "stream_room c st s = Some (True, st', s')"
  shows "0 < block_space_get c (st_buf st')"
proof (cases "block_space_get c (st_buf st) = 0")
  case False
  with assms show ?thesis by (simp add: stream_room_def)
next
  case True
  with assms obtain b h where "block_alloc_stream c (st_id st) False (n_heap s) = Some (Some b, h)" "st_buf st' = b"
    by (cases "block_alloc_stream c (st_id st) False (n_heap s)")
       (auto simp: stream_room_def Let_def split: option.splits bind_splits)
  then show ?thesis
    using MAX_sizes(1) [of c] block_alloc_stream_bytes [of c "st_id st" False "n_heap s" b h]
    by (simp add: block_space_get_def block_size_get_def buf_size_get_def size_simps)
qed

function stream_write_loop ::
  "config \<Rightarrow> byte list \<Rightarrow> pouch_stream \<Rightarrow> 'c node \<Rightarrow> (byte list \<times> pouch_stream \<times> 'c node) option" where
  "stream_write_loop c xs st s =
     (if xs = [] then Some ([], st, s)
      else case stream_room c st s of
             None \<Rightarrow> None
           | Some (room, st, s) \<Rightarrow>
               if \<not> room then Some (xs, st, s)
               else let write_len = min (block_space_get c (st_buf st)) (length xs) in
                 case buf_write (take write_len xs) (st_buf st) of
                   None \<Rightarrow> None
                 | Some b \<Rightarrow> stream_write_loop c (drop write_len xs) (st\<lparr>st_buf := b\<rparr>) s)"
  by pat_completeness auto
termination
  by (relation "measure (\<lambda>(c, xs, st, s). length xs)") (auto dest!: stream_room_space)

declare stream_write_loop.simps [simp del]

text \<open>The result is the number of bytes written, with the stream and the node after it.\<close>

definition pouch_stream_write ::
  "config \<Rightarrow> pouch_stream \<Rightarrow> byte list \<Rightarrow> 'c node \<Rightarrow> (size_t \<times> pouch_stream \<times> 'c node) option" where
  "pouch_stream_write c stream data s =
     (if \<not> pouch_stream_is_valid (Some stream) s then Some (0, stream, s)
      else do { (rest, stream, s) \<leftarrow> stream_write_loop c data stream s;
                let written = length data - length rest;
                Some (written, stream\<lparr>st_bytes := sz_add (st_bytes stream) written\<rparr>, s) })"

definition pouch_stream_close :: "pouch_stream option \<Rightarrow> 'c node \<Rightarrow> (ret \<times> 'c node) option" where
  "pouch_stream_close stream s =
     (case stream of
        None \<Rightarrow> Some (Err EINVAL, s)
      | Some st \<Rightarrow>
          do { s \<leftarrow> (if pouch_stream_is_valid stream s \<and> st_bytes st > 0
                     then do { b \<leftarrow> block_finish_stream (st_buf st) (st_id st) True; Some (uplink_enqueue b s) }
                     else Some (s\<lparr>n_heap := block_free (Some (st_buf st)) (n_heap s)\<rparr>));
               Some (OK, s\<lparr>n_open_streams := n_open_streams s - 1\<rparr>) })"

section \<open>Lemmas\<close>

subsection \<open>Stream numbers\<close>

lemma new_stream_id_eq:
  "new_stream_id n =
     (if n AND 31 = 0 then (ucast ((n + 1) AND 31), n + 2) else (ucast (n AND 31), n + 1))"
proof (cases "n AND 31 = 0")
  case True
  have "new_stream_id (n + 1) = (ucast ((n + 1) AND 31), n + 2)"
    using next_id_nonzero [OF True] by (simp add: new_stream_id.simps [of "n + 1"] Let_def BLOCK_ID_MASK_def)
  with True show ?thesis by (simp add: new_stream_id.simps [of n] Let_def BLOCK_ID_MASK_def)
next
  case False
  then show ?thesis by (simp add: new_stream_id.simps [of n] Let_def BLOCK_ID_MASK_def)
qed

lemma unat_ucast_AND_31: "unat (ucast ((n :: u32) AND 31) :: byte) = unat n mod 32"
  by (simp add: unsigned_ucast_eq AND_31_eq_mod take_bit_eq_mod)

lemma new_stream_id_range:
  assumes "new_stream_id n = (i, n')"
  shows "0 < unat i" "unat i < 32" "i \<noteq> 0" "i AND BLOCK_ID_MASK = i"
proof -
  have "\<exists>m :: u32. i = ucast (m AND 31) \<and> m AND 31 \<noteq> 0"
  proof (cases "n AND 31 = 0")
    case True
    with assms next_id_nonzero [OF True] show ?thesis by (intro exI [of _ "n + 1"]) (simp add: new_stream_id_eq)
  next
    case False
    with assms show ?thesis by (intro exI [of _ n]) (simp add: new_stream_id_eq)
  qed
  then obtain m :: u32 where m: "i = ucast (m AND 31)" "m AND 31 \<noteq> 0" by blast
  have "unat m mod 32 \<noteq> 0" using m(2) AND_31_eq_mod [of m] by (metis unat_eq_zero)
  with m(1) show "0 < unat i" "unat i < 32" "i \<noteq> 0"
    by (auto simp: unat_ucast_AND_31 simp flip: unat_eq_zero)
  show "i AND BLOCK_ID_MASK = i"
    unfolding m(1) BLOCK_ID_MASK_def by (rule bit_word_eqI) (auto simp: bit_simps)
qed

text \<open>The numbers of successive streams.\<close>

fun new_stream_ids :: "nat \<Rightarrow> u32 \<Rightarrow> byte list" where
  "new_stream_ids 0 n = []"
| "new_stream_ids (Suc k) n = (case new_stream_id n of (i, n) \<Rightarrow> i # new_stream_ids k n)"

lemma length_new_stream_ids [simp]: "length (new_stream_ids k n) = k"
  by (induction k arbitrary: n) (simp_all split: prod.splits)

lemma new_stream_ids_range: "set (new_stream_ids k n) \<subseteq> word_of_nat ` {1..<32}"
proof (induction k arbitrary: n)
  case (Suc k)
  obtain i n' where e: "new_stream_id n = (i, n')" by fastforce
  have "i = word_of_nat (unat i)" by simp
  then have "i \<in> word_of_nat ` {1..<32}"
    using new_stream_id_range(1,2) [OF e] by (metis One_nat_def Suc_leI atLeastLessThan_iff image_eqI)
  with Suc e show ?case by simp
qed simp

lemma new_stream_ids_repeat: "31 < k \<Longrightarrow> \<not> distinct (new_stream_ids k n)"
proof
  assume k: "31 < k" and d: "distinct (new_stream_ids k n)"
  have "card (set (new_stream_ids k n)) \<le> card ((word_of_nat :: nat \<Rightarrow> byte) ` {1..<32})"
    using new_stream_ids_range by (rule card_mono [rotated]) simp
  also have "\<dots> \<le> 31" using card_image_le [of "{1..<32}" "word_of_nat :: nat \<Rightarrow> byte"] by simp
  finally show False using k distinct_card [OF d] by simp
qed

subsection \<open>Opening\<close>

lemma write_stream_header_eq:
  assumes "fits (stream_header_image ct path) b"
  shows "write_stream_header b ct path = Some (buf_append (stream_header_image ct path) b)"
proof -
  let ?c = "sys_put_be16 ct" and ?l = "[word_of_nat (length path) :: byte]"
  have "write_stream_header b ct path = do { b \<leftarrow> buf_write ?c b; b \<leftarrow> buf_write ?l b; buf_write path b }"
    by (simp add: write_stream_header_def buf_write_def case_prod_unfold Let_def)
  moreover have "fits ?c b" "fits (?c @ ?l) b" "fits (?c @ ?l @ path) b"
    using assms by (auto simp: fits_def stream_header_image_def)
  ultimately show ?thesis
    by (simp add: buf_write_eq buf_append_append stream_header_image_def)
qed

lemma write_stream_header_fault:
  assumes "wf_buf b" "\<not> fits (stream_header_image ct path) b"
  shows "write_stream_header b ct path = None"
proof (rule ccontr)
  let ?c = "sys_put_be16 ct" and ?l = "[word_of_nat (length path) :: byte]"
  assume ne: "write_stream_header b ct path \<noteq> None"
  have eq: "write_stream_header b ct path = do { b \<leftarrow> buf_write ?c b; b \<leftarrow> buf_write ?l b; buf_write path b }"
    by (simp add: write_stream_header_def buf_write_def case_prod_unfold Let_def)
  then have c: "fits ?c b" using ne assms(1) buf_write_None_iff [of b ?c] by (cases "buf_write ?c b") auto
  then have l: "fits (?c @ ?l) b"
    using ne eq buf_write_None_iff [of "buf_append ?c b" ?l] by (auto simp: buf_write_eq buf_append_fields)
  then have "fits (?c @ ?l @ path) b"
    using ne eq c buf_write_None_iff [of "buf_append (?c @ ?l) b" path]
    by (auto simp: buf_write_eq buf_append_fields buf_append_append)
  with assms(2) show False by (simp add: stream_header_image_def)
qed

subsection \<open>Writing\<close>

text \<open>What the stream's open buffer satisfies, \<open>bid\<close> being its identifier byte.\<close>

definition stream_buf_ok :: "config \<Rightarrow> byte \<Rightarrow> pouch_buf \<Rightarrow> bool" where
  "stream_buf_ok c bid b \<longleftrightarrow> wf_block c b \<and> contents b ! 2 = bid"

definition payload :: "pouch_buf \<Rightarrow> byte list" where
  "payload b = drop 3 (contents b)"

lemma stream_finish:
  assumes "valid_config c" "stream_buf_ok c bid b"
  shows "\<exists>b'. block_finish_stream b i is_last = Some b' \<and> sendable c b'
    \<and> contents b' = block_image (bid OR (if is_last then LAST_DATA_MASK else 0)) (payload b)"
proof -
  have wf: "wf_block c b" and id2: "contents b ! 2 = bid" using assms(2) by (simp_all add: stream_buf_ok_def)
  obtain x y d xs where c: "contents b = x # y # d # xs" using wf by (rule wf_block_contents)
  obtain b' where b': "block_finish_stream b i is_last = Some b'" "wf_block c b'"
    "contents b' = block_image (bid OR (if is_last then LAST_DATA_MASK else 0)) xs"
    using block_finish_stream_eq [OF wf c, of i is_last] c id2 by auto
  have "length xs < 65535"
    using wf_block_payload_bound [OF wf c] valid_config_payload [OF assms(1)] by simp
  then have "sendable c b'"
    using b' framed_block_image [of xs] by (auto simp: sendable_def wf_block_def wf_buf_def)
  with b' c show ?thesis by (auto simp: payload_def)
qed

text \<open>The blocks of a stream: the first carries \<open>bid\<close>, the others the stream's number.\<close>

definition stream_ids :: "byte \<Rightarrow> byte \<Rightarrow> pouch_buf list \<Rightarrow> byte list" where
  "stream_ids bid i bs = (case bs of [] \<Rightarrow> [] | b # bs' \<Rightarrow> bid # replicate (length bs') i)"

definition block_id :: "pouch_buf \<Rightarrow> byte" where
  "block_id b = contents b ! 2"

lemma stream_buf_ok_append:
  "stream_buf_ok c bid b \<Longrightarrow> fits xs b \<Longrightarrow>
     stream_buf_ok c bid (buf_append xs b) \<and> payload (buf_append xs b) = payload b @ xs"
  by (auto simp: stream_buf_ok_def wf_block_append payload_def drop3_append)
     (auto simp: buf_append_fields nth_append wf_block_def)

lemma block_image_id: "contents b = block_image bid xs \<Longrightarrow> block_id b = bid \<and> payload b = xs"
  by (auto simp: block_id_def payload_def block_image_def sys_put_be16_def)

lemma stream_room_cases:
  fixes s :: "'c node"
  assumes "valid_config c" "stream_buf_ok c bid (st_buf st)" "node_inv c s"
  obtains (room) "stream_room c st s = Some (True, st, s)" "0 < block_space_get c (st_buf st)"
  | (fail) h where "stream_room c st s = Some (False, st, s\<lparr>n_heap := h\<rparr>)" "bufs h = bufs (n_heap s)"
      "malloc_ok h = malloc_ok (n_heap s)"
      "\<not> malloc_ok (n_heap s) (mallocs (n_heap s))"
  | (new) b full h where "stream_room c st s = Some (True, st\<lparr>st_buf := b\<rparr>, uplink_enqueue full (s\<lparr>n_heap := h\<rparr>))"
      "bufs h = bufs (n_heap s) + 1" "malloc_ok h = malloc_ok (n_heap s)" "stream_buf_ok c (st_id st) b" "payload b = []"
      "sendable c full" "block_id full = bid" "payload full = payload (st_buf st)"
      "0 < block_space_get c b"
proof (cases "block_space_get c (st_buf st) = 0")
  case False
  then show thesis by (intro room) (simp_all add: stream_room_def)
next
  case full0: True
  from assms(1) show thesis
  proof (cases rule: block_alloc_stream_cases [of c "st_id st" False "n_heap s"])
    case (fail h')
    then have "\<not> malloc_ok (n_heap s) (mallocs (n_heap s))" "malloc_ok h' = malloc_ok (n_heap s)"
      by (auto simp: block_alloc_stream_def buf_alloc_def malloc_def split: if_splits bind_splits)
    with fail full0 show thesis by (intro that(2) [of h']) (simp_all add: stream_room_def)
  next
    case (ok b h')
    obtain f where f: "block_finish_stream (st_buf st) (st_id st) False = Some f" "sendable c f"
      "contents f = block_image bid (payload (st_buf st))"
      using stream_finish [OF assms(1,2), of "st_id st" False] by auto
    have "malloc_ok h' = malloc_ok (n_heap s)" using ok(1)
      by (auto simp: block_alloc_stream_def buf_alloc_def malloc_def split: if_splits bind_splits)
    moreover have r: "stream_room c st s = Some (True, st\<lparr>st_buf := b\<rparr>, uplink_enqueue f (s\<lparr>n_heap := h'\<rparr>))"
      using full0 ok(1) f(1) by (simp add: stream_room_def)
    moreover have "0 < block_space_get c b" using stream_room_space [OF r] by simp
    ultimately show thesis
      using ok f block_image_id [OF f(3)]
      by (intro new [of b f h']) (simp_all add: stream_buf_ok_def payload_def)
  qed
qed

lemma node_inv_heap [simp]: "node_inv c (s\<lparr>n_heap := h\<rparr>) = node_inv c s"
  by (simp add: node_inv_def)

lemma node_inv_enqueue [simp]: "node_inv c (uplink_enqueue b s) \<longleftrightarrow> node_inv c s \<and> sendable c b"
  by (auto simp: node_inv_def)

lemma balance_heap: "balance (s\<lparr>n_heap := h\<rparr>) = balance s + bufs h - bufs (n_heap s)"
  by (simp add: balance_def owned_def)

lemma balance_enqueue [simp]: "balance (uplink_enqueue b s) = balance s - 1"
  by (simp add: balance_def owned_def)

text \<open>What the stream operations leave alone.\<close>

definition same_session :: "'c node \<Rightarrow> 'c node \<Rightarrow> bool" where
  "same_session s s' \<longleftrightarrow> n_block s' = n_block s \<and> n_crypto s' = n_crypto s
     \<and> up_id (n_up s') = up_id (n_up s) \<and> up_flags (n_up s') = up_flags (n_up s)
     \<and> up_header (n_up s') = up_header (n_up s) \<and> up_transport_queue (n_up s') = up_transport_queue (n_up s)
     \<and> up_reader (n_up s') = up_reader (n_up s)"

lemma same_session_simps [simp]:
  "same_session s s" "same_session s (s'\<lparr>n_heap := h\<rparr>) = same_session s s'"
  "same_session s (uplink_enqueue b s') = same_session s s'"
  "same_session s (s'\<lparr>n_open_streams := i\<rparr>) = same_session s s'"
  "same_session s (s'\<lparr>n_stream_id := n\<rparr>) = same_session s s'"
  by (simp_all add: same_session_def)

lemma same_session_trans: "same_session s s' \<Longrightarrow> same_session s' s'' \<Longrightarrow> same_session s s''"
  by (simp add: same_session_def)

lemma stream_write_step:
  assumes "stream_buf_ok c bid b" "xs \<noteq> []" "0 < block_space_get c b"
  defines "n \<equiv> min (block_space_get c b) (length xs)"
  shows "0 < n" "n \<le> length xs"
    "\<exists>b'. buf_write (take n xs) b = Some b' \<and> stream_buf_ok c bid b' \<and> payload b' = payload b @ take n xs"
proof -
  show "0 < n" "n \<le> length xs" using assms(2,3) by (simp_all add: n_def)
  have "fits (take n xs) b"
    using assms(1) block_space_eq [of c b] by (auto simp: fits_def n_def stream_buf_ok_def wf_block_def wf_buf_def)
  then show "\<exists>b'. buf_write (take n xs) b = Some b' \<and> stream_buf_ok c bid b' \<and> payload b' = payload b @ take n xs"
    using stream_buf_ok_append [OF assms(1)] by (simp add: buf_write_eq)
qed

text \<open>
  The write loop: the blocks \<open>bs\<close> it hands to the uplink and the buffer it leaves open hold what was
  in the buffer before and the bytes written, in order.
\<close>

definition write_post ::
  "config \<Rightarrow> byte \<Rightarrow> byte list \<Rightarrow> pouch_stream \<Rightarrow> 'c node \<Rightarrow> pouch_buf list \<Rightarrow> byte list \<Rightarrow> pouch_stream \<Rightarrow> 'c node \<Rightarrow> bool" where
  "write_post c bid xs st s bs rest st' s' \<longleftrightarrow>
     node_inv c s' \<and> balance s' = balance s \<and> same_session s s'
     \<and> up_processing_queue (n_up s') = up_processing_queue (n_up s) @ bs
     \<and> map block_id bs = stream_ids bid (st_id st) bs
     \<and> stream_buf_ok c (if bs = [] then bid else st_id st) (st_buf st')
     \<and> concat (map payload bs) @ payload (st_buf st') @ rest = payload (st_buf st) @ xs
     \<and> length (payload (st_buf st)) \<le> length (payload (hd (bs @ [st_buf st'])))
     \<and> st_id st' = st_id st \<and> st_session_id st' = st_session_id st
     \<and> n_open_streams s' = n_open_streams s \<and> malloc_ok (n_heap s') = malloc_ok (n_heap s)
     \<and> ((\<forall>n. malloc_ok (n_heap s) n) \<longrightarrow> rest = [])"

lemma stream_write_loop_spec:
  fixes s :: "'c node"
  assumes "valid_config c" "stream_buf_ok c bid (st_buf st)" "node_inv c s"
  shows "\<exists>bs rest st' s'. stream_write_loop c xs st s = Some (rest, st', s')
    \<and> write_post c bid xs st s bs rest st' s' \<and> st_bytes st' = st_bytes st"
  using assms(2,3)
proof (induction "length xs" arbitrary: xs st s bid rule: less_induct)
  case less
  show ?case
  proof (cases "xs = []")
    case True
    with less.prems show ?thesis
      by (intro exI [of _ "[]"]) (simp add: stream_write_loop.simps write_post_def stream_ids_def)
  next
    case ne: False
    from assms(1) less.prems show ?thesis
    proof (cases rule: stream_room_cases)
      case (fail h)
      with ne less.prems show ?thesis
        by (intro exI [of _ "[]"] exI [of _ xs] exI [of _ st] exI [of _ "s\<lparr>n_heap := h\<rparr>"])
           (auto simp: stream_write_loop.simps [of c xs] write_post_def stream_ids_def balance_heap)
    next
      case room
      let ?n = "min (block_space_get c (st_buf st)) (length xs)"
      note st = stream_write_step [OF less.prems(1) ne room(2)]
      obtain b' where b': "buf_write (take ?n xs) (st_buf st) = Some b'" "stream_buf_ok c bid b'"
        "payload b' = payload (st_buf st) @ take ?n xs" using st(3) by blast
      have "length (drop ?n xs) < length xs" using st(1) ne by (simp add: min_def)
      from less.hyps [OF this, of bid "st\<lparr>st_buf := b'\<rparr>" s] b'(2) less.prems(2)
      obtain bs rest st' s' where *: "stream_write_loop c (drop ?n xs) (st\<lparr>st_buf := b'\<rparr>) s = Some (rest, st', s')"
        "write_post c bid (drop ?n xs) (st\<lparr>st_buf := b'\<rparr>) s bs rest st' s'" "st_bytes st' = st_bytes st" by auto
      have "stream_write_loop c xs st s = Some (rest, st', s')"
        using ne room(1) b'(1) *(1) by (simp add: stream_write_loop.simps [of c xs] Let_def)
      moreover have "write_post c bid xs st s bs rest st' s'"
        using *(2) b'(3) by (auto simp: write_post_def)
      ultimately show ?thesis using *(3) by blast
    next
      case (new b full h)
      let ?n = "min (block_space_get c b) (length xs)"
      let ?s = "uplink_enqueue full (s\<lparr>n_heap := h\<rparr>)"
      note st = stream_write_step [OF new(4) ne new(9)]
      obtain b' where b': "buf_write (take ?n xs) b = Some b'" "stream_buf_ok c (st_id st) b'"
        "payload b' = take ?n xs" using st(3) new(5) by auto
      have lt: "length (drop ?n xs) < length xs" using st(1) ne by (simp add: min_def)
      from less.hyps [OF lt, of "st_id st" "st\<lparr>st_buf := b'\<rparr>" ?s] b'(2) less.prems(2) new(6)
      obtain bs rest st' s' where *: "stream_write_loop c (drop ?n xs) (st\<lparr>st_buf := b'\<rparr>) ?s = Some (rest, st', s')"
        "write_post c (st_id st) (drop ?n xs) (st\<lparr>st_buf := b'\<rparr>) ?s bs rest st' s'" "st_bytes st' = st_bytes st" by auto
      have "stream_write_loop c xs st s = Some (rest, st', s')"
        using ne new(1) b'(1) *(1) by (simp add: stream_write_loop.simps [of c xs] Let_def)
      moreover have "stream_ids bid (st_id st) (full # bs) = bid # stream_ids (st_id st) (st_id st) bs"
        by (cases bs) (simp_all add: stream_ids_def)
      then have "write_post c bid xs st s (full # bs) rest st' s'"
        using *(2) b'(3) new(2,3,7,8) by (auto simp: write_post_def balance_heap same_session_def split: if_splits)
      ultimately show ?thesis using *(3) by blast
    qed
  qed
qed

subsection \<open>Opening and closing\<close>

lemma stream_header_fits:
  "wf_block c b \<Longrightarrow> contents b = [0, 0, bid] \<Longrightarrow>
     fits (stream_header_image ct path) b \<longleftrightarrow> length path + 3 \<le> MAX_BLOCK_PAYLOAD_SIZE c"
  using contents_length [of b]
  by (auto simp: fits_def wf_block_def MAX_PLAINTEXT_BLOCK_SIZE_def BLOCK_HEADER_SIZE_def)

text \<open>Opening a stream on every branch. Which of them is taken depends on the allocator alone.\<close>

lemma stream_open_cases:
  fixes s :: "'c node"
  assumes "valid_config c"
  obtains (none) s' where "pouch_uplink_stream_open c path ct s = Some (None, s')" "same_session s s'"
      "n_open_streams s' = n_open_streams s" "bufs (n_heap s') = bufs (n_heap s)" "n_up s' = n_up s"
      "POUCH_STREAMS_MAX \<le> n_open_streams s \<or> \<not> (\<forall>n. malloc_ok (n_heap s) n)"
  | (ok) st s' i where "pouch_uplink_stream_open c path ct s = Some (Some st, s')" "same_session s s'"
      "n_open_streams s' = n_open_streams s + 1" "n_open_streams s < POUCH_STREAMS_MAX"
      "bufs (n_heap s') = bufs (n_heap s) + 1" "n_up s' = n_up s" "malloc_ok (n_heap s') = malloc_ok (n_heap s)"
      "i = fst (new_stream_id (n_stream_id s))" "st_id st = i" "st_bytes st = 0" "st_session_id st = uplink_session_id s"
      "stream_buf_ok c (i OR FIRST_DATA_MASK) (st_buf st)" "payload (st_buf st) = stream_header_image ct path"
      "length path + 3 \<le> MAX_BLOCK_PAYLOAD_SIZE c"
  | (fault) "pouch_uplink_stream_open c path ct s = None" "MAX_BLOCK_PAYLOAD_SIZE c < length path + 3"
proof -
  let ?h = "snd (malloc (n_heap s))"
  obtain i n where id: "new_stream_id (n_stream_id s) = (i, n)" by fastforce
  consider (early) "POUCH_STREAMS_MAX \<le> n_open_streams s \<or> \<not> fst (malloc (n_heap s))"
    | (go) "n_open_streams s < POUCH_STREAMS_MAX" "fst (malloc (n_heap s))" by fastforce
  then show thesis
  proof cases
    case early
    then show thesis
      by (intro none [of "if POUCH_STREAMS_MAX \<le> n_open_streams s then s else s\<lparr>n_heap := ?h\<rparr>"])
         (auto simp: pouch_uplink_stream_open_def Let_def malloc_def)
  next
    case go
    from assms show thesis
    proof (cases rule: block_alloc_stream_cases [of c i True ?h])
      case (fail h')
      then have "\<not> malloc_ok ?h (mallocs ?h)"
        by (auto simp: block_alloc_stream_def buf_alloc_def malloc_def split: if_splits bind_splits)
      with go fail id show thesis
        by (intro none [of "s\<lparr>n_open_streams := n_open_streams s, n_heap := h', n_stream_id := n\<rparr>"])
           (auto simp: pouch_uplink_stream_open_def Let_def case_prod_unfold malloc_def same_session_def)
    next
      case (ok b h')
      have mok: "malloc_ok h' = malloc_ok (n_heap s)" using ok(1)
        by (auto simp: block_alloc_stream_def buf_alloc_def malloc_def split: if_splits bind_splits)
      let ?w = "write_stream_header b ct path"
      have open_eq: "pouch_uplink_stream_open c path ct s = map_option (\<lambda>b.
          (Some \<lparr>st_id = i, st_buf = b, st_bytes = 0, st_session_id = uplink_session_id s\<rparr>,
           s\<lparr>n_open_streams := n_open_streams s + 1, n_heap := h', n_stream_id := n\<rparr>)) ?w"
        using go id ok(1)
        by (cases ?w) (auto simp: pouch_uplink_stream_open_def Let_def case_prod_unfold uplink_session_id_def)
      show thesis
      proof (cases "length path + 3 \<le> MAX_BLOCK_PAYLOAD_SIZE c")
        case True
        then have f: "fits (stream_header_image ct path) b" using ok stream_header_fits by auto
        then have w: "?w = Some (buf_append (stream_header_image ct path) b)" by (rule write_stream_header_eq)
        have "stream_buf_ok c (i OR FIRST_DATA_MASK) b" "payload b = []"
          using ok by (simp_all add: stream_buf_ok_def payload_def)
        with f have "stream_buf_ok c (i OR FIRST_DATA_MASK) (buf_append (stream_header_image ct path) b)"
          "payload (buf_append (stream_header_image ct path) b) = stream_header_image ct path"
          using stream_buf_ok_append by auto
        with w open_eq True mok ok(2) go(1) id show thesis
          by (intro that(2) [of "\<lparr>st_id = i, st_buf = buf_append (stream_header_image ct path) b,
                st_bytes = 0, st_session_id = uplink_session_id s\<rparr>"
                "s\<lparr>n_open_streams := n_open_streams s + 1, n_heap := h', n_stream_id := n\<rparr>" i])
             (auto simp: same_session_def)
      next
        case False
        then have "\<not> fits (stream_header_image ct path) b" using ok stream_header_fits by auto
        then have "?w = None" using ok(3) by (intro write_stream_header_fault) (simp_all add: wf_block_def)
        with False open_eq show thesis by (intro fault) auto
      qed
    qed
  qed
qed

lemma stream_close_spec:
  fixes s :: "'c node"
  assumes "valid_config c" "stream_buf_ok c bid (st_buf st)" "node_inv c s"
  shows "\<exists>bs s'. pouch_stream_close (Some st) s = Some (OK, s') \<and> node_inv c s' \<and> balance s' = balance s - 1
    \<and> same_session s s' \<and> n_open_streams s' = n_open_streams s - 1
    \<and> up_processing_queue (n_up s') = up_processing_queue (n_up s) @ bs
    \<and> (if st_session_id st = uplink_session_id s \<and> 0 < st_bytes st
        then \<exists>b. bs = [b] \<and> contents b = block_image (bid OR LAST_DATA_MASK) (payload (st_buf st)) else bs = [])"
proof (cases "st_session_id st = uplink_session_id s \<and> 0 < st_bytes st")
  case True
  obtain b where b: "block_finish_stream (st_buf st) (st_id st) True = Some b" "sendable c b"
    "contents b = block_image (bid OR LAST_DATA_MASK) (payload (st_buf st))"
    using stream_finish [OF assms(1,2), of "st_id st" True] by auto
  with True assms(3) show ?thesis
    by (intro exI [of _ "[b]"])
       (auto simp: pouch_stream_close_def pouch_stream_is_valid_def node_inv_def balance_def owned_def)
next
  case False
  with assms(3) show ?thesis
    by (intro exI [of _ "[]"])
       (auto simp: pouch_stream_close_def pouch_stream_is_valid_def node_inv_def balance_def owned_def block_free_def)
qed

subsection \<open>Round trip\<close>

text \<open>Receiving blocks one after the other, and what a stream in pieces looks like to the handlers.\<close>

fun push_blocks :: "'a pouch_downlink_handler list \<Rightarrow> pouch_buf list \<Rightarrow> 'a \<Rightarrow> 'a option" where
  "push_blocks hs [] a = Some a"
| "push_blocks hs (b # bs) a = do { a \<leftarrow> pouch_downlink_block_push hs b a; push_blocks hs bs a }"

fun downlink_chunks :: "'a pouch_downlink_handler list \<Rightarrow> nat \<Rightarrow> byte list list \<Rightarrow> 'a \<Rightarrow> 'a option" where
  "downlink_chunks hs i [] a = Some a"
| "downlink_chunks hs i (d # ds) a =
     do { a \<leftarrow> downlink_data hs i (Some d) (length d) (ds = []) a; downlink_chunks hs i ds a }"

lemma sendable_image:
  assumes "sendable c b"
  shows "contents b = block_image (block_id b) (payload b)"
proof -
  have b: "3 \<le> length (contents b)" "unat (sys_get_be16 (contents b)) = length (contents b) - 2"
    using assms by (simp_all add: sendable_def framed_def)
  then obtain x y i ps where e: "contents b = x # y # i # ps"
    by (metis One_nat_def Suc_le_length_iff numeral_3_eq_3)
  have g: "sys_get_be16 (contents b) = sys_get_be16 [x, y]"
    unfolding e by (rule sys_get_be16_cong) simp_all
  have "word_of_nat (Suc (length ps)) = (word_of_nat (unat (sys_get_be16 [x, y])) :: u16)"
    using b(2) unfolding g by (simp add: e del: of_nat_Suc)
  then have "word_of_nat (Suc (length ps)) = sys_get_be16 [x, y]" by (simp del: of_nat_Suc)
  then show ?thesis
    using sys_put_get_be16 [of x y] by (simp add: e block_image_def block_id_def payload_def del: of_nat_Suc)
qed

lemma sendable_payload: "sendable c b \<Longrightarrow> valid_config c \<Longrightarrow> length (payload b) < 65535"
  using MAX_sizes [of c] by (auto simp: sendable_def payload_def valid_config_def)

text \<open>The flags in the identifier byte do not disturb the stream's number.\<close>

lemma stream_id_bits:
  assumes "i AND BLOCK_ID_MASK = i"
  shows "(i OR FIRST_DATA_MASK) AND BLOCK_ID_MASK = i" "(i OR LAST_DATA_MASK) AND BLOCK_ID_MASK = i"
    "(i OR FIRST_DATA_MASK OR LAST_DATA_MASK) AND BLOCK_ID_MASK = i"
    "i AND FIRST_DATA_MASK = 0" "i AND LAST_DATA_MASK = 0"
    "(i OR FIRST_DATA_MASK) AND FIRST_DATA_MASK \<noteq> 0" "(i OR FIRST_DATA_MASK) AND LAST_DATA_MASK = 0"
    "(i OR LAST_DATA_MASK) AND FIRST_DATA_MASK = 0" "(i OR LAST_DATA_MASK) AND LAST_DATA_MASK \<noteq> 0"
    "(i OR FIRST_DATA_MASK OR LAST_DATA_MASK) AND FIRST_DATA_MASK \<noteq> 0"
    "(i OR FIRST_DATA_MASK OR LAST_DATA_MASK) AND LAST_DATA_MASK \<noteq> 0"
proof -
  have a: "(i AND 0x1f) AND 0x40 = 0" "(i AND 0x1f) AND 0x80 = 0"
    by (simp_all add: and.assoc)
  then have z: "i AND 0x40 = 0" "i AND 0x80 = 0" using assms by (simp_all add: BLOCK_ID_MASK_def)
  show "(i OR FIRST_DATA_MASK) AND BLOCK_ID_MASK = i" "(i OR LAST_DATA_MASK) AND BLOCK_ID_MASK = i"
    "(i OR FIRST_DATA_MASK OR LAST_DATA_MASK) AND BLOCK_ID_MASK = i"
    "i AND FIRST_DATA_MASK = 0" "i AND LAST_DATA_MASK = 0"
    "(i OR FIRST_DATA_MASK) AND FIRST_DATA_MASK \<noteq> 0" "(i OR FIRST_DATA_MASK) AND LAST_DATA_MASK = 0"
    "(i OR LAST_DATA_MASK) AND FIRST_DATA_MASK = 0" "(i OR LAST_DATA_MASK) AND LAST_DATA_MASK \<noteq> 0"
    "(i OR FIRST_DATA_MASK OR LAST_DATA_MASK) AND FIRST_DATA_MASK \<noteq> 0"
    "(i OR FIRST_DATA_MASK OR LAST_DATA_MASK) AND LAST_DATA_MASK \<noteq> 0"
    using assms z by (simp_all add: FIRST_DATA_MASK_def LAST_DATA_MASK_def BLOCK_ID_MASK_def bit.conj_disj_distrib2)
qed

text \<open>A block that continues a stream, and the first block of a stream, as the receiver sees them.\<close>

lemma push_cont_block:
  assumes "valid_config c" "sendable c b" "i AND BLOCK_ID_MASK = i" "i \<noteq> 0"
    "block_id b = i OR (if is_last then LAST_DATA_MASK else 0)"
  shows "pouch_downlink_block_push hs b a =
    downlink_data hs (unat i) (Some (payload b)) (length (payload b)) is_last a"
proof -
  let ?v = "view_advance 3 (pouch_bufview_init (Some b))"
  have wf: "wf_buf b" using assms(2) by (simp add: sendable_def)
  have v: "view_ok ?v" "view_rest ?v = payload b"
    using assms(2) wf by (auto simp: sendable_def payload_def)
  have l: "length (payload b) < 65535" using assms(1,2) by (simp add: sendable_payload)
  have "block_id b AND BLOCK_ID_MASK = i" "block_id b AND FIRST_DATA_MASK = 0"
    "(block_id b AND LAST_DATA_MASK \<noteq> 0) = is_last"
    using assms(3,5) stream_id_bits [OF assms(3)] by (cases is_last; simp)+
  with block_push_stream_block [OF wf sendable_image [OF assms(2)] l, of hs a] assms(4)
    stream_push_cont [OF v, of hs "unat i" is_last a] l
  show ?thesis by simp
qed

lemma push_first_block:
  assumes "valid_config c" "sendable c b" "i AND BLOCK_ID_MASK = i" "i \<noteq> 0"
    "block_id b = i OR FIRST_DATA_MASK OR (if is_last then LAST_DATA_MASK else 0)"
    "payload b = stream_header_image ct path @ d" "length path < 256" "0 \<notin> set path"
  shows "pouch_downlink_block_push hs b a =
    do { a \<leftarrow> downlink_start hs (unat i) path ct a; downlink_data hs (unat i) (Some d) (length d) is_last a }"
proof -
  let ?v = "view_advance 3 (pouch_bufview_init (Some b))"
  have wf: "wf_buf b" using assms(2) by (simp add: sendable_def)
  have v: "view_ok ?v" "view_rest ?v = stream_header_image ct path @ d"
    using assms(2,6) wf by (auto simp: sendable_def payload_def)
  have l: "length (payload b) < 65535" using assms(1,2) by (simp add: sendable_payload)
  then have d: "length d < 65536" using assms(6) by simp
  have "block_id b AND BLOCK_ID_MASK = i" "block_id b AND FIRST_DATA_MASK \<noteq> 0"
    "(block_id b AND LAST_DATA_MASK \<noteq> 0) = is_last"
    using assms(3,5) stream_id_bits [OF assms(3)] by (cases is_last; simp)+
  with block_push_stream_block [OF wf sendable_image [OF assms(2)] l, of hs a] assms(4)
    stream_push_first [OF v d assms(7,8), of hs "unat i" is_last a]
  show ?thesis by simp
qed

lemma push_cont_blocks:
  assumes "valid_config c" "i AND BLOCK_ID_MASK = i" "i \<noteq> 0"
  shows "list_all (sendable c) (bs @ [b]) \<Longrightarrow> map block_id bs = replicate (length bs) i \<Longrightarrow>
    block_id b = i OR LAST_DATA_MASK \<Longrightarrow>
    push_blocks hs (bs @ [b]) a = downlink_chunks hs (unat i) (map payload (bs @ [b])) a"
proof (induction bs arbitrary: a)
  case Nil
  then show ?case
    using push_cont_block [OF assms(1) _ assms(2,3), of b True hs a]
    by (cases "downlink_data hs (unat i) (Some (payload b)) (length (payload b)) True a") simp_all
next
  case (Cons b' bs)
  then show ?case
    using push_cont_block [OF assms(1) _ assms(2,3), of b' False hs a]
    by (cases "downlink_data hs (unat i) (Some (payload b')) (length (payload b')) False a") auto
qed

text \<open>Several writes, one after the other.\<close>

fun stream_writes :: "config \<Rightarrow> byte list list \<Rightarrow> pouch_stream \<Rightarrow> 'c node \<Rightarrow> (pouch_stream \<times> 'c node) option" where
  "stream_writes c [] st s = Some (st, s)"
| "stream_writes c (xs # xss) st s =
     do { (n, st, s) \<leftarrow> pouch_stream_write c st xs s; stream_writes c xss st s }"

lemma pouch_stream_write_spec:
  fixes s :: "'c node"
  assumes "valid_config c" "stream_buf_ok c bid (st_buf st)" "node_inv c s" "st_session_id st = uplink_session_id s"
  shows "\<exists>bs rest st' s'. pouch_stream_write c st xs s = Some (length xs - length rest, st', s')
    \<and> write_post c bid xs st s bs rest st' s' \<and> st_bytes st' = sz_add (st_bytes st) (length xs - length rest)"
proof -
  obtain bs rest st' s' where l: "stream_write_loop c xs st s = Some (rest, st', s')"
    "write_post c bid xs st s bs rest st' s'" "st_bytes st' = st_bytes st"
    using stream_write_loop_spec [OF assms(1-3)] by blast
  let ?st = "st'\<lparr>st_bytes := sz_add (st_bytes st) (length xs - length rest)\<rparr>"
  have "pouch_stream_write c st xs s = Some (length xs - length rest, ?st, s')"
    using l(1,3) assms(4) by (simp add: pouch_stream_write_def pouch_stream_is_valid_def Let_def)
  moreover have "write_post c bid xs st s bs rest ?st s'" using l(2) by (simp add: write_post_def)
  ultimately show ?thesis by force
qed

lemma write_post_append:
  assumes "write_post c bid xs st s bs [] st1 s1"
    "write_post c (if bs = [] then bid else st_id st) ys st1 s1 bs' rest st2 s2"
  shows "write_post c bid (xs @ ys) st s (bs @ bs') rest st2 s2"
proof -
  have "map block_id (bs @ bs') = stream_ids bid (st_id st) (bs @ bs')"
    using assms by (cases bs; cases bs') (auto simp: write_post_def stream_ids_def replicate_add replicate_append_same)
  then show ?thesis
    using assms by (auto simp: write_post_def intro: same_session_trans split: if_splits)
qed

lemma stream_writes_spec:
  fixes s :: "'c node"
  assumes "valid_config c" "stream_buf_ok c bid (st_buf st)" "node_inv c s" "st_session_id st = uplink_session_id s"
    "\<forall>n. malloc_ok (n_heap s) n" "st_bytes st + length (concat xss) < SIZE_MOD"
  shows "\<exists>bs st' s'. stream_writes c xss st s = Some (st', s') \<and> write_post c bid (concat xss) st s bs [] st' s'
    \<and> st_bytes st' = st_bytes st + length (concat xss)"
  using assms(2-)
proof (induction xss arbitrary: bid st s)
  case Nil
  then show ?case by (intro exI [of _ "[]"]) (simp add: write_post_def stream_ids_def)
next
  case (Cons xs xss)
  obtain bs rest st1 s1 where w: "pouch_stream_write c st xs s = Some (length xs - length rest, st1, s1)"
    "write_post c bid xs st s bs rest st1 s1" "st_bytes st1 = sz_add (st_bytes st) (length xs - length rest)"
    using pouch_stream_write_spec [OF assms(1) Cons.prems(1-3)] by blast
  have r: "rest = []" using w(2) Cons.prems(4) by (simp add: write_post_def)
  have b: "st_bytes st1 = st_bytes st + length xs" using w(3) r Cons.prems(5) by (simp add: size_simps)
  obtain bs' st2 s2 where *: "stream_writes c xss st1 s1 = Some (st2, s2)"
    "write_post c (if bs = [] then bid else st_id st) (concat xss) st1 s1 bs' [] st2 s2"
    "st_bytes st2 = st_bytes st1 + length (concat xss)"
    using Cons.IH [of "if bs = [] then bid else st_id st" st1 s1] w(2) Cons.prems b
    by (auto simp: write_post_def same_session_def uplink_session_id_def)
  have "write_post c bid (xs @ concat xss) st s (bs @ bs') [] st2 s2"
    using write_post_append [OF _ *(2)] w(2) r by simp
  with w(1) *(1,3) b show ?case by auto
qed

text \<open>A complete stream at the receiver.\<close>

lemma push_stream_blocks:
  assumes "valid_config c" "i AND BLOCK_ID_MASK = i" "i \<noteq> 0" "list_all (sendable c) (bs @ [b])"
    "map block_id bs = stream_ids (i OR FIRST_DATA_MASK) i bs"
    "block_id b = (if bs = [] then i OR FIRST_DATA_MASK else i) OR LAST_DATA_MASK"
    "concat (map payload (bs @ [b])) = stream_header_image ct path @ xs"
    "length path + 3 \<le> length (payload (hd (bs @ [b])))" "length path < 256" "0 \<notin> set path"
  shows "\<exists>ds. concat ds = xs \<and> (\<forall>a. push_blocks hs (bs @ [b]) a =
    do { a \<leftarrow> downlink_start hs (unat i) path ct a; downlink_chunks hs (unat i) ds a })"
proof -
  let ?h = "stream_header_image ct path" and ?f = "hd (bs @ [b])"
  define rest where "rest = tl (bs @ [b])"
  have f: "bs @ [b] = ?f # rest" by (simp add: rest_def)
  then have cat: "payload ?f @ concat (map payload rest) = ?h @ xs"
    by (metis assms(7) concat.simps(2) list.simps(9))
  define d where "d = drop (length path + 3) (payload ?f)"
  have pf: "payload ?f = ?h @ d"
  proof -
    have "take (length path + 3) (payload ?f) = ?h"
      using arg_cong [OF cat, of "take (length path + 3)"] assms(8) by simp
    then show ?thesis unfolding d_def by (metis append_take_drop_id)
  qed
  with cat have xs: "xs = concat (d # map payload rest)" by simp
  have bf: "block_id ?f = i OR FIRST_DATA_MASK OR (if rest = [] then LAST_DATA_MASK else 0)"
    using assms(5,6) by (cases bs) (auto simp: rest_def stream_ids_def or.assoc)
  have sf: "sendable c ?f" using assms(4) by (cases bs) auto
  have first: "pouch_downlink_block_push hs ?f a =
      do { a \<leftarrow> downlink_start hs (unat i) path ct a; downlink_data hs (unat i) (Some d) (length d) (rest = []) a }" for a
    using push_first_block [OF assms(1) sf assms(2,3) bf pf assms(9,10)] .
  have later: "push_blocks hs rest a = downlink_chunks hs (unat i) (map payload rest) a" for a
  proof (cases bs)
    case (Cons b' bs')
    then show ?thesis
      using push_cont_blocks [OF assms(1-3), of bs' b hs a] assms(4-6) by (simp add: rest_def stream_ids_def)
  qed (simp add: rest_def)
  show ?thesis
    by (rule exI [of _ "d # map payload rest"], subst f) (auto simp: xs first later simp del: hd_append split: bind_splits)
qed

text \<open>Everything that a stream puts into the uplink between its opening and its closing.\<close>

lemma stream_roundtrip:
  fixes s :: "'c node" and hs :: "'a pouch_downlink_handler list"
  assumes "valid_config c" "node_inv c s" "\<forall>n. malloc_ok (n_heap s) n" "n_open_streams s < POUCH_STREAMS_MAX"
    "length path + 3 \<le> MAX_BLOCK_PAYLOAD_SIZE c" "length path < 256" "0 \<notin> set path"
    "concat xss \<noteq> []" "length (concat xss) < SIZE_MOD"
  shows "\<exists>st s1 st2 s2 s3 bs ds. pouch_uplink_stream_open c path ct s = Some (Some st, s1)
    \<and> stream_writes c xss st s1 = Some (st2, s2) \<and> pouch_stream_close (Some st2) s2 = Some (OK, s3)
    \<and> node_inv c s3 \<and> balance s3 = balance s \<and> n_open_streams s3 = n_open_streams s
    \<and> up_processing_queue (n_up s3) = up_processing_queue (n_up s) @ bs \<and> concat ds = concat xss
    \<and> (\<forall>a. push_blocks hs bs a = do { a \<leftarrow> downlink_start hs (unat (st_id st)) path ct a;
                                          downlink_chunks hs (unat (st_id st)) ds a })"
  using assms(1)
proof (cases rule: stream_open_cases [of c path ct s])
  case (none s')
  with assms(3,4) show ?thesis by simp
next
  case fault
  with assms(5) show ?thesis by simp
next
  case (ok st s1 i)
  have i: "i AND BLOCK_ID_MASK = i" "i \<noteq> 0"
    using ok(8) new_stream_id_range [of "n_stream_id s" i "snd (new_stream_id (n_stream_id s))"] by simp_all
  have s1: "node_inv c s1" "balance s1 = balance s + 1"
    using assms(2) ok(2,5,6) by (simp_all add: node_inv_def balance_def owned_def same_session_def)
  obtain bs st2 s2 where w: "stream_writes c xss st s1 = Some (st2, s2)"
    "write_post c (i OR FIRST_DATA_MASK) (concat xss) st s1 bs [] st2 s2" "st_bytes st2 = length (concat xss)"
    using stream_writes_spec [OF assms(1) ok(12) s1(1), of xss] ok assms(3,9) by (auto simp: uplink_session_id_def)
  let ?bid = "if bs = [] then i OR FIRST_DATA_MASK else i"
  have w': "stream_buf_ok c ?bid (st_buf st2)" "node_inv c s2" "st_session_id st2 = uplink_session_id s2"
    "map block_id bs = stream_ids (i OR FIRST_DATA_MASK) i bs"
    "concat (map payload bs) @ payload (st_buf st2) = stream_header_image ct path @ concat xss"
    using w(2) ok by (auto simp: write_post_def same_session_def uplink_session_id_def split: if_splits)
  have pos: "st_session_id st2 = uplink_session_id s2 \<and> 0 < st_bytes st2"
    using w'(3) w(3) assms(8) by (cases "concat xss") auto
  obtain s3 b where cl: "pouch_stream_close (Some st2) s2 = Some (OK, s3)" "node_inv c s3" "balance s3 = balance s2 - 1"
    "n_open_streams s3 = n_open_streams s2 - 1" "up_processing_queue (n_up s3) = up_processing_queue (n_up s2) @ [b]"
    "contents b = block_image (?bid OR LAST_DATA_MASK) (payload (st_buf st2))"
    using stream_close_spec [OF assms(1) w'(1,2)] pos by auto
  have q: "up_processing_queue (n_up s3) = up_processing_queue (n_up s) @ bs @ [b]"
    and bal: "balance s3 = balance s" "n_open_streams s3 = n_open_streams s"
    using w(2) cl ok(3,6) s1(2) by (simp_all add: write_post_def)
  have sb: "list_all (sendable c) (bs @ [b])" using cl(2) q by (simp add: node_inv_def)
  have b: "block_id b = ?bid OR LAST_DATA_MASK" "payload b = payload (st_buf st2)"
    using block_image_id [OF cl(6)] by simp_all
  have len: "length path + 3 \<le> length (payload (hd (bs @ [b])))"
    using w(2) ok(13) b(2) by (cases bs) (simp_all add: write_post_def)
  obtain ds where "concat ds = concat xss" "\<forall>a. push_blocks hs (bs @ [b]) a =
      do { a \<leftarrow> downlink_start hs (unat i) path ct a; downlink_chunks hs (unat i) ds a }"
    using push_stream_blocks [OF assms(1) i sb w'(4) b(1) _ len assms(6,7), of ct "concat xss" hs] w'(5) b(2) by auto
  with ok(1,9) w(1) cl(1,2) q bal show ?thesis by blast
qed

end
