(* ===== verification/Uplink.thy ===== *)
theory Uplink
  imports Streams
begin

text \<open>
  The uplink session, \<^verbatim>\<open>src/uplink.c\<close>: blocks wait in the processing queue, a work item encrypts them
  into the transport queue, and the transport pulls the bytes out in pieces of its own size.

  The crypto module is the record of its operations (\<open>ops\<close>), the header codec an argument; the lemmas
  are proved in the locale \<open>crypto_provider\<close> and reach the two builds through its interpretations. The
  timeouts appear as the result of taking the entry lock (\<open>lock\<close>).

  Shown here: filling is reading from one byte sequence; the work item is a map over the queue; the
  invariant and the buffer accounting are kept by every operation.
\<close>

section \<open>Data\<close>

datatype pouch_result = POUCH_NO_MORE_DATA | POUCH_MORE_DATA | POUCH_ERROR

definition SESSION_ACTIVE :: nat where "SESSION_ACTIVE = 0"
definition POUCH_CLOSING :: nat where "POUCH_CLOSING = 1"
definition POUCH_CLOSED :: nat where "POUCH_CLOSED = 2"

definition set_flag :: "nat \<Rightarrow> 'c node \<Rightarrow> 'c node" where
  "set_flag n s = map_up (\<lambda>u. u\<lparr>up_flags := set_bit n (up_flags u)\<rparr>) s"

definition clear_flag :: "nat \<Rightarrow> 'c node \<Rightarrow> 'c node" where
  "clear_flag n s = map_up (\<lambda>u. u\<lparr>up_flags := unset_bit n (up_flags u)\<rparr>) s"

definition session_is_active :: "'c node \<Rightarrow> bool" where
  "session_is_active s = bit (up_flags (n_up s)) SESSION_ACTIVE"

definition pouch_is_open :: "'c node \<Rightarrow> bool" where
  "pouch_is_open s = (\<not> bit (up_flags (n_up s)) POUCH_CLOSED)"

definition pouch_is_closing :: "'c node \<Rightarrow> bool" where
  "pouch_is_closing s = bit (up_flags (n_up s)) POUCH_CLOSING"

section \<open>Processing\<close>

text \<open>An encrypted block goes to the transport behind the header, if that is still waiting.\<close>

definition transport_submit :: "pouch_buf \<Rightarrow> 'c node \<Rightarrow> 'c node" where
  "transport_submit encrypted s =
     (let s = (case up_header (n_up s) of
                 None \<Rightarrow> s
               | Some header \<Rightarrow>
                   map_up (\<lambda>u. u\<lparr>up_transport_queue := buf_queue_submit (up_transport_queue u) header,
                                 up_header := None\<rparr>) s)
      in map_up (\<lambda>u. u\<lparr>up_transport_queue := buf_queue_submit (up_transport_queue u) encrypted\<rparr>) s)"

lemma transport_submit_processing [simp]:
  "up_processing_queue (n_up (transport_submit b s)) = up_processing_queue (n_up s)"
  by (simp add: transport_submit_def Let_def split: option.splits)

lemma buf_queue_get_less: "(Some b, q') = buf_queue_get q \<Longrightarrow> length q' < length q"
  by (cases q) simp_all

function process_blocks_loop :: "'c crypto_ops \<Rightarrow> 'c node \<Rightarrow> 'c node option" where
  "process_blocks_loop ops s =
     (if session_is_active s \<and> pouch_is_open s \<and> \<not> buf_queue_is_empty (up_processing_queue (n_up s))
      then case buf_queue_get (up_processing_queue (n_up s)) of
             (None, q) \<Rightarrow> None
           | (Some b, q) \<Rightarrow>
               (case crypto_encrypt_block ops b (n_heap s) (n_crypto s) of
                  None \<Rightarrow> None
                | Some (encrypted, h, cr) \<Rightarrow>
                    let s = map_up (\<lambda>u. u\<lparr>up_processing_queue := q\<rparr>) (s\<lparr>n_heap := h, n_crypto := cr\<rparr>) in
                    process_blocks_loop ops (case encrypted of None \<Rightarrow> s | Some e \<Rightarrow> transport_submit e s))
      else Some s)"
  by pat_completeness auto
termination
  by (relation "measure (\<lambda>(ops, s). length (up_processing_queue (n_up s)))")
     (auto dest!: buf_queue_get_less split: option.splits)

declare process_blocks_loop.simps [simp del]

definition process_blocks :: "'c crypto_ops \<Rightarrow> 'c node \<Rightarrow> 'c node option" where
  "process_blocks ops s =
     do { s \<leftarrow> process_blocks_loop ops s;
          Some (if pouch_is_closing s then set_flag POUCH_CLOSED s else s) }"

text \<open>The work queue runs the item when it has been submitted; it may be submitted again while it runs.\<close>

definition run_processing_work :: "'c crypto_ops \<Rightarrow> 'c node \<Rightarrow> 'c node option" where
  "run_processing_work ops s =
     (if up_processing_work (n_up s)
      then process_blocks ops (map_up (\<lambda>u. u\<lparr>up_processing_work := False\<rparr>) s) else Some s)"

definition end_session :: "config \<Rightarrow> 'c crypto_ops \<Rightarrow> 'c node \<Rightarrow> 'c node" where
  "end_session c ops s =
     (let s = s\<lparr>n_crypto := crypto_session_end ops (n_crypto s)\<rparr>;
          s = clear_flag SESSION_ACTIVE s
      in pouch_event_emit c POUCH_EVENT_SESSION_END s)"

definition work_submit :: "'c node \<Rightarrow> 'c node" where
  "work_submit s = map_up (\<lambda>u. u\<lparr>up_processing_work := True\<rparr>) s"

definition pouch_uplink_close :: "ret \<Rightarrow> 'c node \<Rightarrow> (ret \<times> 'c node) option" where
  "pouch_uplink_close lock s =
     (if pouch_is_closing s then Some (Err EALREADY, s)
      else do { (err, s) \<leftarrow> entry_block_close lock (set_flag POUCH_CLOSING s);
                Some (err, work_submit s) })"

definition uplink_init :: "'c node \<Rightarrow> 'c node" where
  "uplink_init s =
     map_up (\<lambda>u. u\<lparr>up_processing_queue := buf_queue_init, up_transport_queue := buf_queue_init,
                   up_processing_work := False\<rparr>) s"

section \<open>Transport API\<close>

text \<open>The result is false for \<^verbatim>\<open>NULL\<close>.\<close>

definition pouch_uplink_start ::
  "config \<Rightarrow> header_codec \<Rightarrow> 'c crypto_ops \<Rightarrow> 'c node \<Rightarrow> (bool \<times> 'c node) option" where
  "pouch_uplink_start c codec ops s =
     (if session_is_active s then Some (False, s)
      else do {
        let s = set_flag SESSION_ACTIVE s;
        (err, cr) \<leftarrow> crypto_session_start ops (n_crypto s);
        let s = s\<lparr>n_crypto := cr\<rparr>;
        if err \<noteq> OK then Some (False, clear_flag SESSION_ACTIVE s)
        else case crypto_pouch_start ops (n_crypto s) of (err, cr) \<Rightarrow>
        let s = s\<lparr>n_crypto := cr\<rparr> in
        if err \<noteq> OK then Some (False, clear_flag SESSION_ACTIVE s)
        else do {
          (header, h) \<leftarrow> pouch_header_create c codec ops (n_crypto s) (n_heap s);
          let s = map_up (\<lambda>u. u\<lparr>up_header := header\<rparr>) (s\<lparr>n_heap := h\<rparr>);
          if header = None then Some (False, clear_flag SESSION_ACTIVE s)
          else do {
            let s = pouch_event_emit c POUCH_EVENT_SESSION_START s;
            Some (True, if \<not> buf_queue_is_empty (up_processing_queue (n_up s)) then work_submit s else s) } } })"

text \<open>The head of the fill loop: a buffer to read from. The flag is false where the code breaks.\<close>

definition fill_reader :: "'c node \<Rightarrow> bool \<times> 'c node" where
  "fill_reader s =
     (if \<not> pouch_bufview_is_ready (up_reader (n_up s))
      then (case buf_queue_get (up_transport_queue (n_up s)) of
              (None, q) \<Rightarrow> (False, s)
            | (Some b, q) \<Rightarrow>
                (True, map_up (\<lambda>u. u\<lparr>up_transport_queue := q, up_reader := pouch_bufview_init (Some b)\<rparr>) s))
      else (True, s))"

text \<open>The rest of the body: copy what fits, and let go of the buffer when it is used up.\<close>

definition fill_copy :: "nat \<Rightarrow> 'c node \<Rightarrow> (byte list \<times> 'c node) option" where
  "fill_copy n s =
     do { (xs, v) \<leftarrow> pouch_bufview_memcpy n (up_reader (n_up s));
          let s = map_up (\<lambda>u. u\<lparr>up_reader := v\<rparr>) s;
          Some (xs, if pouch_bufview_available v = 0
                    then (case pouch_bufview_free v (n_heap s) of (v, h) \<Rightarrow>
                            map_up (\<lambda>u. u\<lparr>up_reader := v\<rparr>) (s\<lparr>n_heap := h\<rparr>))
                    else s) }"

lemma memcpy_length:
  "pouch_bufview_memcpy n v = Some (xs, v') \<Longrightarrow> length xs = min n (pouch_bufview_available v)"
  by (auto simp: pouch_bufview_memcpy_def Let_def bufview_deref_def buf_peek_def mem_simps
      split: bind_splits option.splits)

lemma fill_copy_fields:
  assumes "fill_copy n s = Some (xs, s')"
  shows "length xs = min n (pouch_bufview_available (up_reader (n_up s)))
    \<and> up_transport_queue (n_up s') = up_transport_queue (n_up s)"
  using assms by (auto simp: fill_copy_def Let_def pouch_bufview_free_def dest: memcpy_length split: bind_splits)

lemma fill_reader_cases:
  assumes "fill_reader s = (True, s')"
  shows "length (up_transport_queue (n_up s')) < length (up_transport_queue (n_up s))
    \<or> (s' = s \<and> 0 < pouch_bufview_available (up_reader (n_up s)))"
  using assms by (cases "up_transport_queue (n_up s)")
    (auto simp: fill_reader_def pouch_bufview_is_ready_def split: if_splits)

text \<open>The bytes copied so far are \<open>dst\<close>.\<close>

function fill_loop :: "nat \<Rightarrow> byte list \<Rightarrow> 'c node \<Rightarrow> (byte list \<times> 'c node) option" where
  "fill_loop maxlen dst s =
     (if length dst < maxlen
      then case fill_reader s of (ready, s) \<Rightarrow>
        if \<not> ready then Some (dst, s)
        else case fill_copy (maxlen - length dst) s of
               None \<Rightarrow> None
             | Some (xs, s) \<Rightarrow> fill_loop maxlen (dst @ xs) s
      else Some (dst, s))"
  by pat_completeness auto
termination
  by (relation "inv_image (less_than <*lex*> less_than)
        (\<lambda>(maxlen, dst, s). (length (up_transport_queue (n_up s)), maxlen - length dst))")
     (auto dest!: fill_reader_cases [OF sym] fill_copy_fields)

declare fill_loop.simps [simp del]

text \<open>
  The result, \<^verbatim>\<open>*len\<close> after the call, and the bytes written to \<^verbatim>\<open>dst\<close>. A session that is not active
  leaves \<^verbatim>\<open>*len\<close> alone.
\<close>

definition pouch_uplink_fill ::
  "config \<Rightarrow> 'c crypto_ops \<Rightarrow> size_t \<Rightarrow> 'c node \<Rightarrow> (pouch_result \<times> size_t \<times> byte list \<times> 'c node) option" where
  "pouch_uplink_fill c ops len s =
     (if \<not> session_is_active s then Some (POUCH_ERROR, len, [], s)
      else do {
        (dst, s) \<leftarrow> fill_loop len [] s;
        if pouch_is_open s \<or> pouch_bufview_available (up_reader (n_up s)) > 0
           \<or> \<not> buf_queue_is_empty (up_transport_queue (n_up s))
        then Some (POUCH_MORE_DATA, length dst, dst, s)
        else Some (POUCH_NO_MORE_DATA, length dst, dst, end_session c ops s) })"

definition pouch_uplink_error :: "'c node \<Rightarrow> int" where
  "pouch_uplink_error s = up_error (n_up s)"

fun free_queue :: "pouch_buf_queue \<Rightarrow> heap \<Rightarrow> heap" where
  "free_queue [] h = h"
| "free_queue (b # q) h = free_queue q (buf_free (Some b) h)"

definition pouch_uplink_finish :: "config \<Rightarrow> 'c crypto_ops \<Rightarrow> 'c node \<Rightarrow> 'c node" where
  "pouch_uplink_finish c ops s =
     (let s = map_up (\<lambda>u. u\<lparr>up_transport_queue := []\<rparr>) (s\<lparr>n_heap := free_queue (up_transport_queue (n_up s)) (n_heap s)\<rparr>);
          (v, h) = pouch_bufview_free (up_reader (n_up s)) (n_heap s);
          s = map_up (\<lambda>u. u\<lparr>up_reader := v\<rparr>) (s\<lparr>n_heap := h\<rparr>);
          s = (case up_header (n_up s) of
                 None \<Rightarrow> s
               | Some header \<Rightarrow> map_up (\<lambda>u. u\<lparr>up_header := None\<rparr>) (s\<lparr>n_heap := buf_free (Some header) (n_heap s)\<rparr>));
          s = map_up (\<lambda>u. u\<lparr>up_id := up_id u + 1\<rparr>) s;
          active = session_is_active s;
          s = map_up (\<lambda>u. u\<lparr>up_flags := 0\<rparr>) s
      in if active then end_session c ops s else s)"

section \<open>Abstraction\<close>

text \<open>The bytes that wait for the transport, and the encryption of a queue of blocks.\<close>

definition pending :: "'c node \<Rightarrow> byte list" where
  "pending s = view_rest (up_reader (n_up s)) @ concat (map contents (up_transport_queue (n_up s)))"

definition header_bytes :: "'c node \<Rightarrow> byte list" where
  "header_bytes s = (case up_header (n_up s) of None \<Rightarrow> [] | Some b \<Rightarrow> contents b)"

fun encrypt_all ::
  "'c crypto_ops \<Rightarrow> pouch_buf list \<Rightarrow> heap \<Rightarrow> 'c \<Rightarrow> (pouch_buf list \<times> heap \<times> 'c) option" where
  "encrypt_all ops [] h cr = Some ([], h, cr)"
| "encrypt_all ops (b # bs) h cr =
     do { (e, h, cr) \<leftarrow> crypto_encrypt_block ops b h cr;
          (es, h, cr) \<leftarrow> encrypt_all ops bs h cr;
          Some (case e of None \<Rightarrow> es | Some e \<Rightarrow> e # es, h, cr) }"

text \<open>Handing several encrypted blocks to the transport.\<close>

definition transport_submit_all :: "pouch_buf list \<Rightarrow> 'c node \<Rightarrow> 'c node" where
  "transport_submit_all es s =
     (if es = [] then s
      else map_up (\<lambda>u. u\<lparr>up_transport_queue := up_transport_queue u
              @ (case up_header u of None \<Rightarrow> [] | Some b \<Rightarrow> [b]) @ es, up_header := None\<rparr>) s)"

section \<open>Lemmas\<close>

lemma flag_bits [simp]:
  "bit (set_bit n (w :: u32)) m \<longleftrightarrow> (m = n \<and> n < 32) \<or> bit w m"
  "bit (unset_bit n (w :: u32)) m \<longleftrightarrow> m \<noteq> n \<and> bit w m"
  by (auto simp: bit_set_bit_iff bit_unset_bit_iff)

lemmas flag_numbers = SESSION_ACTIVE_def POUCH_CLOSING_def POUCH_CLOSED_def

lemmas flag_tests = session_is_active_def pouch_is_open_def pouch_is_closing_def

lemma flag_fields [simp]:
  "n_heap (set_flag n s) = n_heap s" "n_crypto (set_flag n s) = n_crypto s" "n_block (set_flag n s) = n_block s"
  "n_heap (clear_flag n s) = n_heap s" "n_crypto (clear_flag n s) = n_crypto s" "n_block (clear_flag n s) = n_block s"
  "n_up (set_flag n s) = (n_up s)\<lparr>up_flags := set_bit n (up_flags (n_up s))\<rparr>"
  "n_up (clear_flag n s) = (n_up s)\<lparr>up_flags := unset_bit n (up_flags (n_up s))\<rparr>"
  by (simp_all add: set_flag_def clear_flag_def)

text \<open>The invariant and the accounting look at the queues and buffers only.\<close>

definition same_bufs :: "'c node \<Rightarrow> 'c node \<Rightarrow> bool" where
  "same_bufs s s' \<longleftrightarrow> n_heap s' = n_heap s \<and> n_block s' = n_block s
     \<and> up_header (n_up s') = up_header (n_up s) \<and> up_processing_queue (n_up s') = up_processing_queue (n_up s)
     \<and> up_transport_queue (n_up s') = up_transport_queue (n_up s) \<and> up_reader (n_up s') = up_reader (n_up s)"

lemma same_bufsD:
  assumes "same_bufs s s'"
  shows "node_inv c s' = node_inv c s" "balance s' = balance s" "pending s' = pending s" "entry_log s' = entry_log s"
    "buf_active_count (n_heap s') = buf_active_count (n_heap s)"
  using assms by (simp_all add: same_bufs_def node_inv_def balance_def owned_def pending_def entry_log_def)

lemma same_bufs_intros [simp]:
  "same_bufs s (set_flag n s)" "same_bufs s (clear_flag n s)" "same_bufs s (s\<lparr>n_crypto := cr\<rparr>)"
  "same_bufs s (pouch_event_emit c e s)" "same_bufs s (work_submit s)" "same_bufs s (end_session c ops s)"
  by (simp_all add: same_bufs_def work_submit_def end_session_def Let_def)

lemmas bufs_kept [simp] = same_bufsD [OF same_bufs_intros(1)] same_bufsD [OF same_bufs_intros(2)]
  same_bufsD [OF same_bufs_intros(3)] same_bufsD [OF same_bufs_intros(4)]
  same_bufsD [OF same_bufs_intros(5)] same_bufsD [OF same_bufs_intros(6)]

subsection \<open>Processing is a map over the queue\<close>

lemma transport_submit_eq: "transport_submit b s = transport_submit_all [b] s"
  by (cases "up_header (n_up s)")
     (simp_all add: transport_submit_def transport_submit_all_def buf_queue_submit_def Let_def map_up_def)

lemma transport_submit_all_Cons:
  "transport_submit_all es (transport_submit b s) = transport_submit_all (b # es) s"
  by (cases "up_header (n_up s)") (simp_all add: transport_submit_eq transport_submit_all_def map_up_def)

lemma transport_submit_all_flags [simp]:
  "session_is_active (transport_submit_all es s) = session_is_active s"
  "pouch_is_open (transport_submit_all es s) = pouch_is_open s"
  "pouch_is_closing (transport_submit_all es s) = pouch_is_closing s"
  by (simp_all add: transport_submit_all_def flag_tests)

lemma process_blocks_loop_eq:
  assumes "session_is_active s" "pouch_is_open s"
  shows "process_blocks_loop ops s =
    map_option (\<lambda>(es, h, cr). transport_submit_all es
        (map_up (\<lambda>u. u\<lparr>up_processing_queue := []\<rparr>) (s\<lparr>n_heap := h, n_crypto := cr\<rparr>)))
      (encrypt_all ops (up_processing_queue (n_up s)) (n_heap s) (n_crypto s))"
  using assms
proof (induction "up_processing_queue (n_up s)" arbitrary: s)
  case Nil
  then show ?case
    by (simp add: process_blocks_loop.simps buf_queue_is_empty_def transport_submit_all_def map_up_def)
next
  case (Cons b q)
  show ?case
  proof (cases "crypto_encrypt_block ops b (n_heap s) (n_crypto s)")
    case None
    with Cons show ?thesis by (simp add: process_blocks_loop.simps [of ops s] buf_queue_is_empty_def flip: Cons.hyps(2))
  next
    case (Some r)
    obtain e h cr where r: "r = (e, h, cr)" by (cases r)
    let ?s = "map_up (\<lambda>u. u\<lparr>up_processing_queue := q\<rparr>) (s\<lparr>n_heap := h, n_crypto := cr\<rparr>)"
    let ?t = "case e of None \<Rightarrow> ?s | Some e \<Rightarrow> transport_submit e ?s"
    have t: "process_blocks_loop ops s = process_blocks_loop ops ?t"
      using Cons.prems Some r
      by (simp add: process_blocks_loop.simps [of ops s] buf_queue_is_empty_def Let_def flip: Cons.hyps(2))
    have "process_blocks_loop ops ?t = map_option (\<lambda>(es, h, cr). transport_submit_all es
        (map_up (\<lambda>u. u\<lparr>up_processing_queue := []\<rparr>) (?t\<lparr>n_heap := h, n_crypto := cr\<rparr>)))
      (encrypt_all ops q (n_heap ?t) (n_crypto ?t))"
      using Cons.prems Cons.hyps(1) [of ?t]
      by (cases e) (auto simp: transport_submit_eq flag_tests transport_submit_all_def)
    with t Some r show ?thesis
      by (cases e; cases "encrypt_all ops q h cr")
         (auto simp: transport_submit_eq transport_submit_all_def map_up_def split: option.splits simp flip: Cons.hyps(2))
  qed
qed

lemma process_blocks_loop_idle:
  "\<not> (session_is_active s \<and> pouch_is_open s) \<Longrightarrow> process_blocks_loop ops s = Some s"
  by (subst process_blocks_loop.simps) (simp only: if_False de_Morgan_conj, auto)

subsection \<open>Filling reads from one byte sequence\<close>

lemma wf_reader_ready: "wf_reader v \<Longrightarrow> pouch_bufview_is_ready v \<longleftrightarrow> bv_buf v \<noteq> None"
  by (auto simp: wf_reader_def pouch_bufview_is_ready_def view_available)

lemma wf_reader_available: "wf_reader v \<Longrightarrow> pouch_bufview_available v = length (view_rest v)"
  by (auto simp: wf_reader_def view_available) (simp_all add: pouch_bufview_available_def view_rest_def)

lemma wf_reader_init: "transportable b \<Longrightarrow> wf_reader (pouch_bufview_init (Some b))"
  using contents_length [of b] by (auto simp: wf_reader_def transportable_def simp del: contents_length)

lemma fill_reader_spec:
  fixes s :: "'c node"
  assumes "node_inv c s"
  obtains (empty) "fill_reader s = (False, s)" "pending s = []" "bv_buf (up_reader (n_up s)) = None"
      "up_transport_queue (n_up s) = []"
  | (ready) s' where "fill_reader s = (True, s')" "node_inv c s'" "balance s' = balance s" "pending s' = pending s"
      "view_ok (up_reader (n_up s'))" "view_rest (up_reader (n_up s')) \<noteq> []"
      "s' = map_up (\<lambda>u. u\<lparr>up_transport_queue := up_transport_queue (n_up s'), up_reader := up_reader (n_up s')\<rparr>) s"
proof (cases "bv_buf (up_reader (n_up s))")
  case (Some b)
  then have "fill_reader s = (True, s)" "view_ok (up_reader (n_up s))" "view_rest (up_reader (n_up s)) \<noteq> []"
    using assms wf_reader_ready [of "up_reader (n_up s)"] by (auto simp: fill_reader_def node_inv_def wf_reader_def)
  with assms show thesis by (intro ready [of s]) (auto simp: map_up_def)
next
  case None
  then have r: "\<not> pouch_bufview_is_ready (up_reader (n_up s))" "view_rest (up_reader (n_up s)) = []"
    by (simp_all add: pouch_bufview_is_ready_def view_rest_def)
  show thesis
  proof (cases "up_transport_queue (n_up s)")
    case Nil
    with None r show thesis by (intro empty) (simp_all add: fill_reader_def pending_def)
  next
    case (Cons b q)
    let ?s = "map_up (\<lambda>u. u\<lparr>up_transport_queue := q, up_reader := pouch_bufview_init (Some b)\<rparr>) s"
    have "transportable b" using assms Cons by (simp add: node_inv_def)
    then have "node_inv c ?s" "view_ok (up_reader (n_up ?s))" "view_rest (up_reader (n_up ?s)) \<noteq> []"
      using assms Cons wf_reader_init [of b] by (auto simp: node_inv_def wf_reader_def pouch_bufview_init_def)
    moreover have "fill_reader s = (True, ?s)" using r Cons by (simp add: fill_reader_def)
    moreover have "balance ?s = balance s" using None Cons
      by (simp add: balance_def owned_def pouch_bufview_init_def)
    moreover have "pending ?s = pending s" using r Cons by (simp add: pending_def)
    ultimately show thesis by (intro ready [of ?s]) simp_all
  qed
qed

lemma fill_copy_spec:
  fixes s :: "'c node"
  assumes "node_inv c s" "view_ok (up_reader (n_up s))" "view_rest (up_reader (n_up s)) \<noteq> []" "0 < n"
  shows "\<exists>xs s'. fill_copy n s = Some (xs, s') \<and> node_inv c s' \<and> balance s' = balance s
    \<and> xs @ pending s' = pending s \<and> length xs \<le> n
    \<and> s' = map_up (\<lambda>u. u\<lparr>up_reader := up_reader (n_up s')\<rparr>) (s\<lparr>n_heap := n_heap s'\<rparr>)"
proof -
  let ?v = "up_reader (n_up s)" and ?m = "min n (length (view_rest (up_reader (n_up s))))"
  let ?w = "view_advance ?m ?v"
  have cp: "pouch_bufview_memcpy n ?v = Some (take n (view_rest ?v), ?w)"
    using assms(2) by (rule pouch_bufview_memcpy_eq)
  have w: "view_ok ?w" "view_rest ?w = drop n (view_rest ?v)" using assms(2) by (auto simp: min_def)
  show ?thesis
  proof (cases "n < length (view_rest ?v)")
    case True
    with cp w have e: "fill_copy n s = Some (take n (view_rest ?v), map_up (\<lambda>u. u\<lparr>up_reader := ?w\<rparr>) s)"
      by (simp add: fill_copy_def view_available Let_def)
    with True w assms(1) show ?thesis
      by (auto simp: node_inv_def wf_reader_def balance_def owned_def pending_def min_def map_up_def
          simp flip: append_assoc)
  next
    case False
    obtain b where b: "bv_buf ?v = Some b" using assms(2) by (rule view_okE)
    let ?s = "map_up (\<lambda>u. u\<lparr>up_reader := \<lparr>bv_buf = None, bv_offset = 0\<rparr>\<rparr>) (s\<lparr>n_heap := buf_free (Some b) (n_heap s)\<rparr>)"
    have "fill_copy n s = Some (view_rest ?v, ?s)"
      using False cp w b by (simp add: fill_copy_def view_available Let_def pouch_bufview_free_def map_up_def)
    moreover have "node_inv c ?s" using assms(1) by (simp add: node_inv_def wf_reader_def)
    moreover have "balance ?s = balance s" using b by (simp add: balance_def owned_def)
    moreover have "view_rest ?v @ pending ?s = pending s" by (simp add: pending_def view_rest_def)
    ultimately show ?thesis using False by (auto simp: map_up_def)
  qed
qed

text \<open>What filling leaves alone.\<close>

definition fill_frame :: "'c node \<Rightarrow> 'c node \<Rightarrow> bool" where
  "fill_frame s s' \<longleftrightarrow> s' = map_up (\<lambda>u. u\<lparr>up_transport_queue := up_transport_queue (n_up s'),
     up_reader := up_reader (n_up s')\<rparr>) (s\<lparr>n_heap := n_heap s'\<rparr>)"

lemma fill_frame_refl: "fill_frame s s"
  by (simp add: fill_frame_def map_up_def)

lemma fill_frame_trans: "fill_frame s s' \<Longrightarrow> fill_frame s' s'' \<Longrightarrow> fill_frame s s''"
  by (cases s; cases s'; cases s''; cases "n_up s"; cases "n_up s'"; cases "n_up s''")
     (auto simp: fill_frame_def map_up_def)

lemma fill_frame_fields:
  assumes "fill_frame s s'"
  shows "n_crypto s' = n_crypto s" "n_block s' = n_block s" "up_header (n_up s') = up_header (n_up s)"
    "up_flags (n_up s') = up_flags (n_up s)" "up_id (n_up s') = up_id (n_up s)"
    "up_processing_queue (n_up s') = up_processing_queue (n_up s)"
    "up_processing_work (n_up s') = up_processing_work (n_up s)" "n_event_q s' = n_event_q s"
  by (subst assms [unfolded fill_frame_def], simp)+

lemma fill_loop_spec:
  fixes s :: "'c node"
  assumes "node_inv c s"
  shows "\<exists>s'. fill_loop maxlen dst s = Some (dst @ take (maxlen - length dst) (pending s), s')
    \<and> node_inv c s' \<and> balance s' = balance s \<and> pending s' = drop (maxlen - length dst) (pending s) \<and> fill_frame s s'"
  using assms
proof (induction maxlen dst s rule: fill_loop.induct)
  case (1 maxlen dst s)
  show ?case
  proof (cases "length dst < maxlen")
    case False
    with 1 show ?thesis by (simp add: fill_loop.simps fill_frame_refl)
  next
    case lt: True
    from "1.prems" show ?thesis
    proof (cases rule: fill_reader_spec)
      case empty
      with lt 1 show ?thesis by (simp add: fill_loop.simps [of maxlen dst s] fill_frame_refl)
    next
      case (ready s1)
      obtain xs s2 where c: "fill_copy (maxlen - length dst) s1 = Some (xs, s2)" "node_inv c s2" "balance s2 = balance s1"
        "xs @ pending s2 = pending s1" "length xs \<le> maxlen - length dst"
        "s2 = map_up (\<lambda>u. u\<lparr>up_reader := up_reader (n_up s2)\<rparr>) (s1\<lparr>n_heap := n_heap s2\<rparr>)"
        using fill_copy_spec [OF ready(2,5,6), of "maxlen - length dst"] lt by auto
      obtain s' where s': "fill_loop maxlen (dst @ xs) s2 = Some ((dst @ xs) @ take (maxlen - length (dst @ xs)) (pending s2), s')"
        "node_inv c s'" "balance s' = balance s2" "pending s' = drop (maxlen - length (dst @ xs)) (pending s2)" "fill_frame s2 s'"
        using "1.IH" [OF lt ready(1) [symmetric] _ c(1) refl c(2)] by auto
      have "fill_frame s s1" by (subst ready(7)) (simp add: fill_frame_def map_up_def)
      moreover have "fill_frame s1 s2" by (subst c(6)) (simp add: fill_frame_def map_up_def)
      ultimately have "fill_frame s s'" using s'(5) by (blast intro: fill_frame_trans)
      moreover have "take (maxlen - length dst) (pending s) = xs @ take (maxlen - (length dst + length xs)) (pending s2)"
        "drop (maxlen - length dst) (pending s) = drop (maxlen - (length dst + length xs)) (pending s2)"
        using c(4,5) unfolding ready(4) [symmetric] c(4) [symmetric] by simp_all
      ultimately show ?thesis
        using lt ready(1,3) c(1,3) s'(1-4) by (simp add: fill_loop.simps [of maxlen dst s])
    qed
  qed
qed

subsection \<open>The session operations, for every crypto module that keeps its contract\<close>

lemma transport_submit_all_spec:
  fixes s :: "'c node"
  assumes "node_inv c s" "list_all transportable es"
  shows "node_inv c (transport_submit_all es s)"
    "balance (transport_submit_all es s) = balance s - int (length es)"
    "pending (transport_submit_all es s) = pending s @ (if es = [] then [] else header_bytes s) @ concat (map contents es)"
    "up_header (n_up (transport_submit_all es s)) = (if es = [] then up_header (n_up s) else None)"
  using assms by (auto simp: transport_submit_all_def node_inv_def balance_def owned_def pending_def header_bytes_def
      split: option.splits)

lemma transport_submit_all_fields [simp]:
  "n_heap (transport_submit_all es s) = n_heap s" "n_crypto (transport_submit_all es s) = n_crypto s"
  "n_block (transport_submit_all es s) = n_block s" "n_event_q (transport_submit_all es s) = n_event_q s"
  "up_processing_queue (n_up (transport_submit_all es s)) = up_processing_queue (n_up s)"
  "up_flags (n_up (transport_submit_all es s)) = up_flags (n_up s)"
  "up_id (n_up (transport_submit_all es s)) = up_id (n_up s)"
  "n_open_streams (transport_submit_all es s) = n_open_streams s"
  by (simp_all add: transport_submit_all_def)

lemma free_queue_bufs [simp]: "bufs (free_queue q h) = bufs h - int (length q)" "malloc_ok (free_queue q h) = malloc_ok h"
  by (induction q arbitrary: h) (simp_all add: buf_free_def)

context crypto_provider
begin

lemma encrypt_all_law:
  assumes "cinv cr" "list_all (sendable c) bs"
  shows "\<exists>es h' cr'. encrypt_all ops bs h cr = Some (es, h', cr') \<and> cinv cr'
    \<and> bufs h' = bufs h - int (length bs) + int (length es) \<and> malloc_ok h' = malloc_ok h
    \<and> list_all transportable es \<and> list_all (\<lambda>e. framed (contents e)) es \<and> length es \<le> length bs"
  using assms
proof (induction bs arbitrary: h cr)
  case Nil
  then show ?case by simp
next
  case (Cons b bs)
  obtain r h1 cr1 where e: "crypto_encrypt_block ops b h cr = Some (r, h1, cr1)" "cinv cr1"
    "bufs h1 = bufs h - 1 + own r" "malloc_ok h1 = malloc_ok h"
    "\<forall>e. r = Some e \<longrightarrow> transportable e \<and> framed (contents e)"
    using encrypt_law [of cr b h] Cons.prems by auto
  with Cons.IH [of cr1 h1] Cons.prems show ?case by (cases r) auto
qed

lemma process_blocks_spec:
  assumes "cinv (n_crypto s)" "node_inv c s"
  obtains es s' h cr where "process_blocks ops s = Some s'" "node_inv c s'" "balance s' = balance s" "cinv (n_crypto s')"
    "pending s' = pending s @ (if es = [] then [] else header_bytes s) @ concat (map contents es)"
    "up_header (n_up s') = (if es = [] then up_header (n_up s) else None)"
    "list_all (\<lambda>e. framed (contents e)) es" "n_block s' = n_block s" "up_id (n_up s') = up_id (n_up s)"
    "session_is_active s' = session_is_active s" "pouch_is_closing s' = pouch_is_closing s"
    "pouch_is_open s' \<longleftrightarrow> pouch_is_open s \<and> \<not> pouch_is_closing s"
    "malloc_ok (n_heap s') = malloc_ok (n_heap s)"
    "if session_is_active s \<and> pouch_is_open s
     then encrypt_all ops (up_processing_queue (n_up s)) (n_heap s) (n_crypto s) = Some (es, h, cr)
       \<and> up_processing_queue (n_up s') = []
     else es = [] \<and> up_processing_queue (n_up s') = up_processing_queue (n_up s)"
proof (cases "session_is_active s \<and> pouch_is_open s")
  case False
  then have "process_blocks ops s = Some (if pouch_is_closing s then set_flag POUCH_CLOSED s else s)"
    by (simp add: process_blocks_def process_blocks_loop_idle)
  from that [OF this, of "[]"] False assms show thesis
    by (auto simp: flag_tests flag_numbers split: if_splits)
next
  case True
  obtain es h cr where e: "encrypt_all ops (up_processing_queue (n_up s)) (n_heap s) (n_crypto s) = Some (es, h, cr)"
    "cinv cr" "bufs h = bufs (n_heap s) - int (length (up_processing_queue (n_up s))) + int (length es)"
    "malloc_ok h = malloc_ok (n_heap s)" "list_all transportable es" "list_all (\<lambda>e. framed (contents e)) es"
    using encrypt_all_law [OF assms(1), of "up_processing_queue (n_up s)" "n_heap s"] assms(2)
    by (auto simp: node_inv_def)
  let ?s = "map_up (\<lambda>u. u\<lparr>up_processing_queue := []\<rparr>) (s\<lparr>n_heap := h, n_crypto := cr\<rparr>)"
  let ?t = "transport_submit_all es ?s"
  have p: "process_blocks ops s = Some (if pouch_is_closing s then set_flag POUCH_CLOSED ?t else ?t)"
    using True e(1) by (simp add: process_blocks_def process_blocks_loop_eq) (simp add: flag_tests)
  have s: "node_inv c ?s" "balance ?s = balance s + int (length es)" "pending ?s = pending s"
    "header_bytes ?s = header_bytes s"
    using assms(2) e(3) by (simp_all add: node_inv_def balance_def owned_def pending_def header_bytes_def)
  note t = transport_submit_all_spec [OF s(1) e(5)]
  from p True t s e show thesis
    by (intro that [OF p, of es h cr]) (auto simp: flag_tests flag_numbers)
qed

lemma fill_spec:
  assumes "cinv (n_crypto s)" "node_inv c s" "session_is_active s"
  shows "\<exists>s'. pouch_uplink_fill c ops len s =
      Some (if pouch_is_open s \<or> drop len (pending s) \<noteq> [] then POUCH_MORE_DATA else POUCH_NO_MORE_DATA,
            min len (length (pending s)), take len (pending s), s')
    \<and> node_inv c s' \<and> balance s' = balance s \<and> cinv (n_crypto s') \<and> pending s' = drop len (pending s)
    \<and> session_is_active s' = (pouch_is_open s \<or> drop len (pending s) \<noteq> [])
    \<and> pouch_is_open s' = pouch_is_open s \<and> up_header (n_up s') = up_header (n_up s) \<and> up_id (n_up s') = up_id (n_up s)
    \<and> up_processing_queue (n_up s') = up_processing_queue (n_up s) \<and> n_block s' = n_block s"
proof -
  obtain t where t: "fill_loop len [] s = Some (take len (pending s), t)" "node_inv c t" "balance t = balance s"
    "pending t = drop len (pending s)" "fill_frame s t"
    using fill_loop_spec [OF assms(2), of len "[]"] by auto
  note f = fill_frame_fields [OF t(5)]
  have e: "pouch_bufview_available (up_reader (n_up t)) > 0 \<or> \<not> buf_queue_is_empty (up_transport_queue (n_up t))
      \<longleftrightarrow> pending t \<noteq> []"
  proof -
    have "wf_reader (up_reader (n_up t))" "list_all transportable (up_transport_queue (n_up t))"
      using t(2) by (simp_all add: node_inv_def)
    then show ?thesis
      by (cases "up_transport_queue (n_up t)")
         (auto simp: wf_reader_available pending_def buf_queue_is_empty_def transportable_def contents_def wf_buf_def)
  qed
  have fl: "session_is_active t" "pouch_is_open t = pouch_is_open s" using f assms(3) by (simp_all add: flag_tests)
  show ?thesis
  proof (cases "pouch_is_open s \<or> drop len (pending s) \<noteq> []")
    case True
    with t e fl f assms show ?thesis
      by (auto simp: pouch_uplink_fill_def)
  next
    case False
    then have "pouch_uplink_fill c ops len s = Some (POUCH_NO_MORE_DATA, length (take len (pending s)),
        take len (pending s), end_session c ops t)"
      using t e fl assms(3) by (simp add: pouch_uplink_fill_def)
    moreover have "cinv (n_crypto (end_session c ops t))"
      using assms(1) f by (simp add: end_session_def Let_def session_end_inv)
    ultimately show ?thesis
      using False t f by (auto simp: end_session_def Let_def flag_tests flag_numbers)
  qed
qed

lemma start_spec:
  assumes "encoder_bounded codec" "cinv (n_crypto s)" "node_inv c s" "up_header (n_up s) = None" "\<not> session_is_active s"
  shows "\<exists>r s'. pouch_uplink_start c codec ops s = Some (r, s')
    \<and> node_inv c s' \<and> balance s' = balance s \<and> cinv (n_crypto s') \<and> pending s' = pending s
    \<and> session_is_active s' = r \<and> (up_header (n_up s') \<noteq> None) = r
    \<and> pouch_is_open s' = pouch_is_open s \<and> pouch_is_closing s' = pouch_is_closing s \<and> up_id (n_up s') = up_id (n_up s)
    \<and> up_processing_queue (n_up s') = up_processing_queue (n_up s) \<and> n_block s' = n_block s"
proof -
  obtain e1 cr1 where c1: "crypto_session_start ops (n_crypto s) = Some (e1, cr1)" "cinv cr1"
    using session_start_law [OF assms(2)] by blast
  obtain e2 cr2 where c2: "crypto_pouch_start ops cr1 = (e2, cr2)" by fastforce
  have inv: "cinv cr1" "cinv cr2"
    using pouch_start_inv [of cr1] c1 c2 by auto
  note d = pouch_uplink_start_def Let_def flag_tests flag_numbers node_inv_def balance_def owned_def pending_def
  show ?thesis
  proof (cases "e1 = OK \<and> e2 = OK")
    case False
    with c1 c2 inv assms(3-) show ?thesis by (cases "e1 = OK") (auto simp: d)
  next
    case True
    from assms(1) header_get_law [OF inv(2)] show ?thesis
    proof (cases rule: pouch_header_create_cases [of codec ops cr2 c "n_heap s"])
      case (fail h)
      with True c1 c2 inv assms(3-) show ?thesis by (auto simp: d)
    next
      case (ok b h xs info)
      with True c1 c2 inv assms(3-) show ?thesis by (auto simp: d work_submit_def)
    qed
  qed
qed

lemma close_spec:
  assumes "node_inv c s"
  shows "\<exists>r s'. pouch_uplink_close lock s = Some (r, s') \<and> node_inv c s' \<and> balance s' = balance s
    \<and> entry_log s' = entry_log s \<and> pending s' = pending s \<and> n_crypto s' = n_crypto s
    \<and> session_is_active s' = session_is_active s \<and> pouch_is_closing s' \<and> pouch_is_open s' = pouch_is_open s
    \<and> up_header (n_up s') = up_header (n_up s) \<and> up_id (n_up s') = up_id (n_up s)
    \<and> (if pouch_is_closing s then r = Err EALREADY \<and> s' = s
        else r = lock \<and> up_processing_work (n_up s') \<and> (lock = OK \<longrightarrow> n_block s' = None))"
proof (cases "pouch_is_closing s")
  case True
  with assms show ?thesis by (simp add: pouch_uplink_close_def)
next
  case False
  let ?s = "set_flag POUCH_CLOSING s"
  obtain r s' where e: "entry_block_close lock ?s = Some (r, s')" "r = lock" "node_inv c s'" "balance s' = balance ?s"
    "entry_log s' = entry_log ?s" "r = OK \<longrightarrow> n_block s' = None"
    using entry_block_close_spec [OF config_ok, of ?s lock] assms by auto
  have f: "up_transport_queue (n_up s') = up_transport_queue (n_up s)" "up_flags (n_up s') = up_flags (n_up ?s)"
    "up_reader (n_up s') = up_reader (n_up s)" "up_header (n_up s') = up_header (n_up s)"
    "n_crypto s' = n_crypto s" "up_id (n_up s') = up_id (n_up s)"
    using e(1) by (auto simp: entry_block_close_def Let_def split: if_splits option.splits bind_splits)
  have "pouch_uplink_close lock s = Some (lock, work_submit s')"
    using False e(1,2) by (simp add: pouch_uplink_close_def)
  moreover have "entry_log s' = entry_log s" "balance s' = balance s" using e(4,5) by simp_all
  ultimately show ?thesis
    using False e(2,3,6) f by (auto simp: flag_tests flag_numbers work_submit_def pending_def node_inv_def balance_def
        owned_def entry_log_def)
qed

lemma finish_spec:
  assumes "cinv (n_crypto s)" "node_inv c s"
  defines "s' \<equiv> pouch_uplink_finish c ops s"
  shows "node_inv c s'" "balance s' = balance s" "cinv (n_crypto s')" "pending s' = []" "up_header (n_up s') = None"
    "up_flags (n_up s') = 0" "up_id (n_up s') = up_id (n_up s) + 1" "n_block s' = n_block s"
    "up_processing_queue (n_up s') = up_processing_queue (n_up s)"
    "\<not> session_is_active s'" "pouch_is_open s'" "\<not> pouch_is_closing s'"
proof -
  have u: "unset_bit n 0 = (0 :: u32)" for n by (rule bit_word_eqI) simp
  have nu: "n_up s' = (n_up s)\<lparr>up_transport_queue := [], up_reader := \<lparr>bv_buf = None, bv_offset = 0\<rparr>, up_header := None,
      up_id := up_id (n_up s) + 1, up_flags := 0\<rparr>"
    by (auto simp: s'_def pouch_uplink_finish_def Let_def pouch_bufview_free_def end_session_def u split: option.splits)
  have nb: "n_block s' = n_block s" and nc: "n_crypto s' = n_crypto s \<or> n_crypto s' = crypto_session_end ops (n_crypto s)"
    by (auto simp: s'_def pouch_uplink_finish_def Let_def pouch_bufview_free_def end_session_def split: option.splits)
  have nh: "bufs (n_heap s') = bufs (n_heap s) - int (length (up_transport_queue (n_up s)))
      - own (bv_buf (up_reader (n_up s))) - own (up_header (n_up s))"
    by (auto simp: s'_def pouch_uplink_finish_def Let_def pouch_bufview_free_def end_session_def split: option.splits)
  show "node_inv c s'" "balance s' = balance s" "cinv (n_crypto s')" "pending s' = []" "up_header (n_up s') = None"
    "up_flags (n_up s') = 0" "up_id (n_up s') = up_id (n_up s) + 1" "n_block s' = n_block s"
    "up_processing_queue (n_up s') = up_processing_queue (n_up s)"
    "\<not> session_is_active s'" "pouch_is_open s'" "\<not> pouch_is_closing s'"
    using assms(1,2) nu nb nc nh session_end_inv
    by (auto simp: node_inv_def balance_def owned_def pending_def flag_tests wf_reader_def view_rest_def)
qed

end

end
