(* ===== verification/Uplink_Runs.thy ===== *)
theory Uplink_Runs
  imports Uplink
begin

text \<open>
  Runs of the uplink: any interleaving of application calls (entries, streams, closing the pouch),
  transport calls (start, fill, finish) and the work item. The environment keeps the stream handles
  the application holds and whether the transport has a session, and three history variables: the
  header of the session, the encrypted blocks it has produced, and the bytes the transport has read.

  Shown here: no call faults in any reachable state, no buffer is lost, and what the transport reads is
  the header followed by the encrypted blocks.
\<close>

section \<open>Calls\<close>

datatype api_call =
    Entry_write ret cstr u16 "byte list"
  | Stream_open cstr u16
  | Stream_write nat "byte list"
  | Stream_close nat
  | Uplink_close ret
  | Uplink_start
  | Uplink_fill nat
  | Uplink_finish
  | Processing_work

record 'c env =
  e_node :: "'c node"
  e_streams :: "pouch_stream list"
  e_started :: bool
  e_header :: "byte list"
  e_blocks :: "byte list list"
  e_read :: "byte list"

text \<open>
  What the API asks of its callers: arguments smaller than the address space, a path that fits into
  the block, a handle that is open, and a transport that finishes a session before it starts the next.
\<close>

fun call_ok :: "config \<Rightarrow> api_call \<Rightarrow> 'c env \<Rightarrow> bool" where
  "call_ok c (Entry_write lock path ct data) e = (5 + length path + length data < SIZE_MOD)"
| "call_ok c (Stream_open path ct) e = (length path + 3 \<le> MAX_BLOCK_PAYLOAD_SIZE c)"
| "call_ok c (Stream_write i data) e = (i < length (e_streams e))"
| "call_ok c (Stream_close i) e = (i < length (e_streams e))"
| "call_ok c (Uplink_close lock) e = True"
| "call_ok c Uplink_start e = (\<not> e_started e)"
| "call_ok c (Uplink_fill n) e = e_started e"
| "call_ok c Uplink_finish e = e_started e"
| "call_ok c Processing_work e = True"

definition remove_nth :: "nat \<Rightarrow> 'x list \<Rightarrow> 'x list" where
  "remove_nth i xs = take i xs @ drop (Suc i) xs"

text \<open>The blocks that the work item hands to the transport.\<close>

definition work_output :: "'c crypto_ops \<Rightarrow> 'c node \<Rightarrow> byte list list" where
  "work_output ops s =
     (if session_is_active s \<and> pouch_is_open s
      then (case encrypt_all ops (up_processing_queue (n_up s)) (n_heap s) (n_crypto s) of
              None \<Rightarrow> [] | Some (es, _) \<Rightarrow> map contents es)
      else [])"

fun exec_call :: "config \<Rightarrow> header_codec \<Rightarrow> 'c crypto_ops \<Rightarrow> api_call \<Rightarrow> 'c env \<Rightarrow> 'c env option" where
  "exec_call c codec ops (Entry_write lock path ct data) e =
     do { (r, s) \<leftarrow> pouch_uplink_entry_write c lock (Some path) ct (Some data) (e_node e);
          Some (e\<lparr>e_node := s\<rparr>) }"
| "exec_call c codec ops (Stream_open path ct) e =
     do { (st, s) \<leftarrow> pouch_uplink_stream_open c path ct (e_node e);
          Some (e\<lparr>e_node := s, e_streams := e_streams e @ (case st of None \<Rightarrow> [] | Some st \<Rightarrow> [st])\<rparr>) }"
| "exec_call c codec ops (Stream_write i data) e =
     do { (n, st, s) \<leftarrow> pouch_stream_write c (e_streams e ! i) data (e_node e);
          Some (e\<lparr>e_node := s, e_streams := (e_streams e)[i := st]\<rparr>) }"
| "exec_call c codec ops (Stream_close i) e =
     do { (r, s) \<leftarrow> pouch_stream_close (Some (e_streams e ! i)) (e_node e);
          Some (e\<lparr>e_node := s, e_streams := remove_nth i (e_streams e)\<rparr>) }"
| "exec_call c codec ops (Uplink_close lock) e =
     do { (r, s) \<leftarrow> pouch_uplink_close lock (e_node e); Some (e\<lparr>e_node := s\<rparr>) }"
| "exec_call c codec ops Uplink_start e =
     do { (ok, s) \<leftarrow> pouch_uplink_start c codec ops (e_node e);
          Some (e\<lparr>e_node := s, e_started := ok, e_header := header_bytes s, e_blocks := [], e_read := []\<rparr>) }"
| "exec_call c codec ops (Uplink_fill n) e =
     do { (r, len, xs, s) \<leftarrow> pouch_uplink_fill c ops n (e_node e);
          Some (e\<lparr>e_node := s, e_read := e_read e @ xs\<rparr>) }"
| "exec_call c codec ops Uplink_finish e =
     Some (e\<lparr>e_node := pouch_uplink_finish c ops (e_node e), e_started := False, e_header := [],
             e_blocks := [], e_read := []\<rparr>)"
| "exec_call c codec ops Processing_work e =
     do { s \<leftarrow> run_processing_work ops (e_node e);
          Some (e\<lparr>e_node := s,
                  e_blocks := e_blocks e @ (if up_processing_work (n_up (e_node e)) then work_output ops (e_node e) else [])\<rparr>) }"

inductive reachable :: "config \<Rightarrow> header_codec \<Rightarrow> 'c crypto_ops \<Rightarrow> 'c env \<Rightarrow> 'c env \<Rightarrow> bool"
  for c codec ops e0 where
  init: "reachable c codec ops e0 e0"
| call: "reachable c codec ops e0 e \<Longrightarrow> call_ok c k e \<Longrightarrow> exec_call c codec ops k e = Some e' \<Longrightarrow>
    reachable c codec ops e0 e'"

inductive_simps reachable_init_simps: "reachable c codec ops e0 e0"

section \<open>Invariant\<close>

text \<open>The allocator serves others as well; \<open>x\<close> is the number of buffers that they hold.\<close>

definition env_inv :: "config \<Rightarrow> ('c \<Rightarrow> bool) \<Rightarrow> int \<Rightarrow> 'c env \<Rightarrow> bool" where
  "env_inv c cinv x e \<longleftrightarrow>
     node_inv c (e_node e) \<and> cinv (n_crypto (e_node e))
     \<and> list_all (\<lambda>st. wf_block c (st_buf st)) (e_streams e)
     \<and> balance (e_node e) = int (length (e_streams e)) + x
     \<and> e_read e @ pending (e_node e) = (if e_blocks e = [] then [] else e_header e) @ concat (e_blocks e)
     \<and> list_all framed (e_blocks e)
     \<and> up_header (n_up (e_node e)) \<noteq> None = (e_started e \<and> e_blocks e = [])
     \<and> (e_started e \<and> e_blocks e = [] \<longrightarrow> header_bytes (e_node e) = e_header e)
     \<and> (\<not> e_started e \<longrightarrow> \<not> session_is_active (e_node e) \<and> e_blocks e = [] \<and> e_read e = [])"

section \<open>Start-up\<close>

text \<open>The static initialisers of the uplink, the entry and the stream modules, and \<^verbatim>\<open>uplink_init\<close>.\<close>

definition boot_node :: "heap \<Rightarrow> 'c \<Rightarrow> 'c node" where
  "boot_node h cr = uplink_init
     \<lparr>n_heap = h, n_crypto = cr, n_block = None, n_stream_id = 1, n_open_streams = 0,
      n_up = \<lparr>up_header = None, up_flags = 0, up_id = 0, up_error = 0, up_processing_queue = [],
              up_processing_work = False, up_transport_queue = [], up_reader = \<lparr>bv_buf = None, bv_offset = 0\<rparr>\<rparr>,
      n_event_q = [], n_event_work = False\<rparr>"

definition boot_env :: "heap \<Rightarrow> 'c \<Rightarrow> 'c env" where
  "boot_env h cr = \<lparr>e_node = boot_node h cr, e_streams = [], e_started = False, e_header = [], e_blocks = [], e_read = []\<rparr>"

lemma env_inv_boot: "bufs h = x \<Longrightarrow> cinv cr \<Longrightarrow> env_inv c cinv x (boot_env h cr)"
  by (simp add: env_inv_def boot_env_def boot_node_def uplink_init_def node_inv_def balance_def owned_def pending_def
      wf_reader_def view_rest_def flag_tests buf_queue_init_def)

section \<open>Frames\<close>

text \<open>Everything but the open block, the processing queue and the allocator.\<close>

definition app_frame :: "'c node \<Rightarrow> 'c node \<Rightarrow> bool" where
  "app_frame s s' \<longleftrightarrow> n_crypto s' = n_crypto s \<and> up_flags (n_up s') = up_flags (n_up s)
     \<and> up_header (n_up s') = up_header (n_up s) \<and> up_transport_queue (n_up s') = up_transport_queue (n_up s)
     \<and> up_reader (n_up s') = up_reader (n_up s) \<and> up_id (n_up s') = up_id (n_up s)"

lemma app_frameD:
  assumes "app_frame s s'"
  shows "n_crypto s' = n_crypto s" "session_is_active s' = session_is_active s" "pouch_is_open s' = pouch_is_open s"
    "pending s' = pending s" "header_bytes s' = header_bytes s" "up_header (n_up s') = up_header (n_up s)"
  using assms by (simp_all add: app_frame_def flag_tests pending_def header_bytes_def)

lemma same_session_app_frame: "same_session s s' \<Longrightarrow> app_frame s s'"
  by (simp add: same_session_def app_frame_def)

lemma entry_write_frame:
  assumes "pouch_uplink_entry_write c lock path ct data s = Some (r, s')"
  shows "app_frame s s'"
  using assms unfolding app_frame_def
  by (auto simp: pouch_uplink_entry_write_def Let_def split: option.splits if_splits bind_splits)

lemma env_inv_app:
  assumes "env_inv c cinv x e" "app_frame (e_node e) s" "node_inv c s" "balance s = int (length sts) + x"
    "list_all (\<lambda>st. wf_block c (st_buf st)) sts"
  shows "env_inv c cinv x (e\<lparr>e_node := s, e_streams := sts\<rparr>)"
  using assms app_frameD [OF assms(2)] by (simp add: env_inv_def)

lemma length_remove_nth: "i < length xs \<Longrightarrow> length (remove_nth i xs) = length xs - 1"
  by (simp add: remove_nth_def)

lemma list_all_remove_nth: "list_all P xs \<Longrightarrow> list_all P (remove_nth i xs)"
  by (auto simp: remove_nth_def list_all_iff dest: in_set_takeD in_set_dropD)

section \<open>Every call keeps the invariant and none faults\<close>

text \<open>Pulling pieces of size \<open>len\<close> until the session reports its end, at most \<open>n\<close> times.\<close>

fun fill_times :: "config \<Rightarrow> 'c crypto_ops \<Rightarrow> nat \<Rightarrow> nat \<Rightarrow> 'c node \<Rightarrow> (byte list \<times> 'c node) option" where
  "fill_times c ops len 0 s = Some ([], s)"
| "fill_times c ops len (Suc n) s =
     do { (r, _, xs, s) \<leftarrow> pouch_uplink_fill c ops len s;
          if r = POUCH_MORE_DATA
          then do { (ys, s) \<leftarrow> fill_times c ops len n s; Some (xs @ ys, s) }
          else Some (xs, s) }"

context crypto_provider
begin

lemma exec_stream_open:
  assumes "env_inv c cinv x e" "length path + 3 \<le> MAX_BLOCK_PAYLOAD_SIZE c"
  shows "\<exists>e'. exec_call c codec ops (Stream_open path ct) e = Some e' \<and> env_inv c cinv x e'"
  using config_ok
proof (cases rule: stream_open_cases [of c path ct "e_node e"])
  case (none s')
  then have "node_inv c s'" "balance s' = balance (e_node e)"
    using assms(1) by (simp_all add: env_inv_def node_inv_def balance_def owned_def same_session_def)
  with none env_inv_app [OF assms(1) same_session_app_frame, of s' "e_streams e"] assms(1) show ?thesis
    by (simp add: env_inv_def)
next
  case (ok st s' i)
  then have "node_inv c s'" "balance s' = balance (e_node e) + 1" "wf_block c (st_buf st)"
    using assms(1) by (simp_all add: env_inv_def node_inv_def balance_def owned_def same_session_def stream_buf_ok_def)
  with ok env_inv_app [OF assms(1) same_session_app_frame, of s' "e_streams e @ [st]"] assms(1) show ?thesis
    by (simp add: env_inv_def)
next
  case fault
  with assms(2) show ?thesis by simp
qed

lemma exec_stream_write:
  assumes "env_inv c cinv x e" "i < length (e_streams e)"
  shows "\<exists>e'. exec_call c codec ops (Stream_write i data) e = Some e' \<and> env_inv c cinv x e'"
proof (cases "st_session_id (e_streams e ! i) = uplink_session_id (e_node e)")
  case False
  with assms show ?thesis by (simp add: pouch_stream_write_def pouch_stream_is_valid_def)
next
  case True
  have ok: "stream_buf_ok c (contents (st_buf (e_streams e ! i)) ! 2) (st_buf (e_streams e ! i))" "node_inv c (e_node e)"
    using assms by (auto simp: env_inv_def stream_buf_ok_def list_all_length)
  obtain bs rest st' s' n where w: "pouch_stream_write c (e_streams e ! i) data (e_node e) = Some (n, st', s')"
    "write_post c (contents (st_buf (e_streams e ! i)) ! 2) data (e_streams e ! i) (e_node e) bs rest st' s'"
    using pouch_stream_write_spec [OF config_ok ok True, of data] by blast
  then have "same_session (e_node e) s'" "node_inv c s'" "balance s' = balance (e_node e)" "wf_block c (st_buf st')"
    by (auto simp: write_post_def stream_buf_ok_def)
  moreover have "list_all (\<lambda>st. wf_block c (st_buf st)) ((e_streams e)[i := st'])"
    using assms(1) calculation(4) by (auto simp: env_inv_def list_all_iff dest!: set_update_subset_insert [THEN subsetD])
  ultimately show ?thesis
    using w(1) env_inv_app [OF assms(1) same_session_app_frame, of s' "(e_streams e)[i := st']"] assms(1)
    by (simp add: env_inv_def)
qed

lemma exec_stream_close:
  assumes "env_inv c cinv x e" "i < length (e_streams e)"
  shows "\<exists>e'. exec_call c codec ops (Stream_close i) e = Some e' \<and> env_inv c cinv x e'"
proof -
  have ok: "stream_buf_ok c (contents (st_buf (e_streams e ! i)) ! 2) (st_buf (e_streams e ! i))" "node_inv c (e_node e)"
    using assms by (auto simp: env_inv_def stream_buf_ok_def list_all_length)
  obtain s' where s: "pouch_stream_close (Some (e_streams e ! i)) (e_node e) = Some (OK, s')" "node_inv c s'"
    "balance s' = balance (e_node e) - 1" "same_session (e_node e) s'"
    using stream_close_spec [OF config_ok ok] by blast
  have "list_all (\<lambda>st. wf_block c (st_buf st)) (remove_nth i (e_streams e))"
    using assms(1) by (simp add: env_inv_def list_all_remove_nth)
  with s assms env_inv_app [OF assms(1) same_session_app_frame, of s' "remove_nth i (e_streams e)"] show ?thesis
    by (simp add: env_inv_def length_remove_nth of_nat_diff)
qed

lemma exec_work:
  assumes "env_inv c cinv x e"
  shows "\<exists>e'. exec_call c codec ops Processing_work e = Some e' \<and> env_inv c cinv x e'"
proof (cases "up_processing_work (n_up (e_node e))")
  case False
  with assms show ?thesis by (simp add: run_processing_work_def)
next
  case True
  let ?s = "map_up (\<lambda>u. u\<lparr>up_processing_work := False\<rparr>) (e_node e)"
  have s: "node_inv c ?s" "cinv (n_crypto ?s)" "balance ?s = balance (e_node e)" "pending ?s = pending (e_node e)"
    "header_bytes ?s = header_bytes (e_node e)" "up_header (n_up ?s) = up_header (n_up (e_node e))"
    "session_is_active ?s = session_is_active (e_node e)" "pouch_is_open ?s = pouch_is_open (e_node e)"
    "work_output ops ?s = work_output ops (e_node e)"
    using assms by (simp_all add: env_inv_def node_inv_def balance_def owned_def pending_def header_bytes_def
        flag_tests work_output_def)
  from s(2,1) obtain es s' h cr where p: "process_blocks ops ?s = Some s'" "node_inv c s'" "balance s' = balance ?s"
    "cinv (n_crypto s')"
    "pending s' = pending ?s @ (if es = [] then [] else header_bytes ?s) @ concat (map contents es)"
    "up_header (n_up s') = (if es = [] then up_header (n_up ?s) else None)"
    "list_all (\<lambda>e. framed (contents e)) es" "session_is_active s' = session_is_active ?s"
    "if session_is_active ?s \<and> pouch_is_open ?s
     then encrypt_all ops (up_processing_queue (n_up ?s)) (n_heap ?s) (n_crypto ?s) = Some (es, h, cr)
       \<and> up_processing_queue (n_up s') = []
     else es = [] \<and> up_processing_queue (n_up s') = up_processing_queue (n_up ?s)"
    by (rule process_blocks_spec)
  have out: "work_output ops (e_node e) = map contents es"
    using p(9) s by (auto simp: work_output_def split: if_splits)
  have hdr: "header_bytes s' = (if es = [] then header_bytes (e_node e) else [])"
    using p(6) s(6) by (simp add: header_bytes_def)
  let ?e = "e\<lparr>e_node := s', e_blocks := e_blocks e @ map contents es\<rparr>"
  have "exec_call c codec ops Processing_work e = Some ?e"
    using True p(1) out by (simp add: run_processing_work_def)
  moreover have "env_inv c cinv x ?e"
  proof (cases "es = []")
    case True
    with assms p s hdr show ?thesis by (auto simp: env_inv_def)
  next
    case False
    have act: "session_is_active (e_node e)" using False p(9) s by (auto split: if_splits)
    then have st: "e_started e" using assms by (auto simp: env_inv_def)
    have hb: "header_bytes (e_node e) = (if e_blocks e = [] then e_header e else [])"
      using assms st by (auto simp: env_inv_def header_bytes_def)
    have "list_all framed (map contents es)" using p(7) by (simp add: list_all_iff)
    with False assms p s hdr hb st act show ?thesis
      by (auto simp: env_inv_def simp flip: append_assoc)
  qed
  ultimately show ?thesis by blast
qed

lemma exec_call_inv:
  assumes "encoder_bounded codec" "env_inv c cinv x e" "call_ok c k e"
  shows "\<exists>e'. exec_call c codec ops k e = Some e' \<and> env_inv c cinv x e'"
proof (cases k)
  case (Entry_write lock path ct data)
  obtain r s' where w: "pouch_uplink_entry_write c lock (Some path) ct (Some data) (e_node e) = Some (r, s')"
    "node_inv c s'" "balance s' = balance (e_node e)"
    using entry_write_spec [OF config_ok, of "e_node e" path data lock ct] assms Entry_write by (auto simp: env_inv_def)
  then show ?thesis
    using Entry_write env_inv_app [OF assms(2) entry_write_frame [OF w(1)], of "e_streams e"] assms(2)
    by (simp add: env_inv_def)
next
  case (Uplink_close lock)
  obtain r s' where "pouch_uplink_close lock (e_node e) = Some (r, s')" "node_inv c s'" "balance s' = balance (e_node e)"
    "pending s' = pending (e_node e)" "n_crypto s' = n_crypto (e_node e)"
    "session_is_active s' = session_is_active (e_node e)" "up_header (n_up s') = up_header (n_up (e_node e))"
    using close_spec [of "e_node e" lock] assms(2) by (auto simp: env_inv_def)
  with Uplink_close assms(2) show ?thesis by (simp add: env_inv_def header_bytes_def)
next
  case Uplink_start
  then have "\<not> e_started e" using assms(3) by simp
  then have n: "up_header (n_up (e_node e)) = None" "\<not> session_is_active (e_node e)" "pending (e_node e) = []"
    "cinv (n_crypto (e_node e))" "node_inv c (e_node e)"
    using assms(2) by (auto simp: env_inv_def)
  obtain r s' where "pouch_uplink_start c codec ops (e_node e) = Some (r, s')" "node_inv c s'"
    "balance s' = balance (e_node e)" "cinv (n_crypto s')" "pending s' = pending (e_node e)"
    "session_is_active s' = r" "(up_header (n_up s') \<noteq> None) = r"
    using start_spec [OF assms(1) n(4,5,1,2)] by blast
  with n(3) assms(2) Uplink_start show ?thesis by (simp add: env_inv_def)
next
  case (Uplink_fill n)
  then have st: "e_started e" using assms(3) by simp
  show ?thesis
  proof (cases "session_is_active (e_node e)")
    case False
    with Uplink_fill assms(2) show ?thesis by (simp add: pouch_uplink_fill_def)
  next
    case True
    obtain r l s' where f: "pouch_uplink_fill c ops n (e_node e) = Some (r, l, take n (pending (e_node e)), s')"
      "node_inv c s'" "balance s' = balance (e_node e)" "cinv (n_crypto s')" "pending s' = drop n (pending (e_node e))"
      "up_header (n_up s') = up_header (n_up (e_node e))"
      using fill_spec [OF _ _ True, of n] assms(2) by (auto simp: env_inv_def)
    then have "take n (pending (e_node e)) @ pending s' = pending (e_node e)" by simp
    with f Uplink_fill st assms(2) show ?thesis by (simp add: env_inv_def header_bytes_def)
  qed
next
  case Uplink_finish
  with assms(2) finish_spec [of "e_node e"] show ?thesis by (simp add: env_inv_def)
next
  case (Stream_open path ct)
  with assms exec_stream_open show ?thesis by simp
next
  case (Stream_write i data)
  with assms exec_stream_write show ?thesis by simp
next
  case (Stream_close i)
  with assms exec_stream_close show ?thesis by simp
next
  case Processing_work
  with assms exec_work show ?thesis by simp
qed

lemma reachable_inv:
  assumes "encoder_bounded codec" "env_inv c cinv x e0"
  shows "reachable c codec ops e0 e \<Longrightarrow> env_inv c cinv x e"
proof (induction rule: reachable.induct)
  case init
  show ?case by (rule assms(2))
next
  case (call e k e')
  then show ?case using exec_call_inv [OF assms(1), of x e k] by auto
qed

lemma reachable_safe:
  assumes "encoder_bounded codec" "env_inv c cinv x e0" "reachable c codec ops e0 e" "call_ok c k e"
  shows "exec_call c codec ops k e \<noteq> None"
  using exec_call_inv [OF assms(1) reachable_inv [OF assms(1-3)] assms(4)] by auto

subsection \<open>Draining a closed session\<close>

lemma fill_times_drains:
  assumes "cinv (n_crypto s)" "node_inv c s" "session_is_active s" "\<not> pouch_is_open s" "0 < len"
    "length (pending s) \<le> Suc n * len"
  shows "\<exists>s'. fill_times c ops len (Suc n) s = Some (pending s, s') \<and> \<not> session_is_active s' \<and> pending s' = []
    \<and> node_inv c s' \<and> balance s' = balance s"
  using assms
proof (induction n arbitrary: s)
  case 0
  then show ?case using fill_spec [of s len] by auto
next
  case (Suc n)
  show ?case
  proof (cases "length (pending s) \<le> len")
    case True
    then show ?thesis using fill_spec [of s len] Suc.prems by auto
  next
    case False
    then obtain s1 where f: "pouch_uplink_fill c ops len s = Some (POUCH_MORE_DATA, min len (length (pending s)), take len (pending s), s1)"
      "node_inv c s1" "balance s1 = balance s" "cinv (n_crypto s1)" "pending s1 = drop len (pending s)"
      "session_is_active s1" "\<not> pouch_is_open s1"
      using fill_spec [of s len] Suc.prems by auto
    have "length (pending s1) \<le> Suc n * len" using Suc.prems(6) f(5) by simp
    then obtain s' where "fill_times c ops len (Suc n) s1 = Some (pending s1, s')" "\<not> session_is_active s'" "pending s' = []"
      "node_inv c s'" "balance s' = balance s1"
      using Suc.IH [OF f(4,2,6,7) Suc.prems(5)] by blast
    moreover have "fill_times c ops len (Suc (Suc n)) s =
        do { (ys, t) \<leftarrow> fill_times c ops len (Suc n) s1; Some (take len (pending s) @ ys, t) }"
      using f(1) by (subst fill_times.simps(2)) (simp del: fill_times.simps(2))
    ultimately show ?thesis using f(3,5) by (simp del: fill_times.simps(2))
  qed
qed

subsection \<open>A pouch that is closed before the session starts\<close>

lemma closed_session_empty:
  assumes "encoder_bounded codec" "cinv (n_crypto s)" "node_inv c s" "up_header (n_up s) = None" "\<not> session_is_active s"
    "\<not> pouch_is_open s" "pending s = []" "pouch_uplink_start c codec ops s = Some (True, s1)"
    "run_processing_work ops s1 = Some s2"
  shows "\<exists>s3. pouch_uplink_fill c ops len s2 = Some (POUCH_NO_MORE_DATA, 0, [], s3)
    \<and> up_processing_queue (n_up s3) = up_processing_queue (n_up s)"
proof -
  have s1: "node_inv c s1" "cinv (n_crypto s1)" "pending s1 = []" "session_is_active s1" "\<not> pouch_is_open s1"
    "up_processing_queue (n_up s1) = up_processing_queue (n_up s)"
    using start_spec [OF assms(1-5)] assms(6-8) by auto
  let ?t = "map_up (\<lambda>u. u\<lparr>up_processing_work := False\<rparr>) s1"
  have t: "cinv (n_crypto ?t)" "node_inv c ?t" "pending ?t = []" "session_is_active ?t" "\<not> pouch_is_open ?t"
    using s1 by (simp_all add: node_inv_def pending_def flag_tests)
  have "process_blocks ops ?t = Some (if pouch_is_closing ?t then set_flag POUCH_CLOSED ?t else ?t)"
    using t(5) by (simp add: process_blocks_def process_blocks_loop_idle)
  then have "s2 = s1 \<or> s2 = ?t \<or> s2 = set_flag POUCH_CLOSED ?t"
    using assms(9) by (auto simp: run_processing_work_def split: if_splits)
  then have "node_inv c s2" "cinv (n_crypto s2)" "pending s2 = []" "session_is_active s2" "\<not> pouch_is_open s2"
    "up_processing_queue (n_up s2) = up_processing_queue (n_up s)"
    using s1 t by (auto simp: flag_tests flag_numbers)
  then show ?thesis using fill_spec [of s2 len] by auto
qed

end

end
