(* ===== verification/Crypto_None.thy ===== *)
theory Crypto_None
  imports Uplink_Runs
begin

text \<open>
  The plaintext build of the crypto module, \<^verbatim>\<open>src/crypto_none.c\<close>: blocks pass through unchanged. It keeps
  the contract of \<^verbatim>\<open>crypto.h\<close> once it has been initialised.
\<close>

section \<open>State and operations\<close>

record crypto_none =
  device_id :: "cstr option"

definition none_crypto_init :: "pouch_config \<Rightarrow> crypto_none \<Rightarrow> ret \<times> crypto_none" where
  "none_crypto_init cfg cr =
     (case cfg_device_id cfg of
        None \<Rightarrow> (Err EINVAL, cr)
      | Some d \<Rightarrow> if length d > POUCH_DEVICE_ID_MAX_LEN then (Err EINVAL, cr) else (OK, cr\<lparr>device_id := Some d\<rparr>))"

definition none_session_start :: "crypto_none \<Rightarrow> (ret \<times> crypto_none) option" where
  "none_session_start cr = Some (OK, cr)"

definition none_session_end :: "crypto_none \<Rightarrow> crypto_none" where
  "none_session_end cr = cr"

definition none_downlink_start :: "encryption_info \<Rightarrow> crypto_none \<Rightarrow> (ret \<times> crypto_none) option" where
  "none_downlink_start info cr = Some (case info of Plaintext_info _ \<Rightarrow> (OK, cr) | Saead_info _ \<Rightarrow> (Err ENOTSUP, cr))"

definition none_pouch_start :: "crypto_none \<Rightarrow> ret \<times> crypto_none" where
  "none_pouch_start cr = (OK, cr)"

definition none_header_get :: "crypto_none \<Rightarrow> (errno + encryption_info) option" where
  "none_header_get cr = (case device_id cr of None \<Rightarrow> None | Some d \<Rightarrow> Some (Inr (Plaintext_info d)))"

definition none_decrypt_block ::
  "pouch_buf option \<Rightarrow> heap \<Rightarrow> crypto_none \<Rightarrow> (pouch_buf option \<times> heap \<times> crypto_none) option" where
  "none_decrypt_block block h cr = Some (block, h, cr)"

definition none_encrypt_block ::
  "pouch_buf \<Rightarrow> heap \<Rightarrow> crypto_none \<Rightarrow> (pouch_buf option \<times> heap \<times> crypto_none) option" where
  "none_encrypt_block block h cr = Some (Some block, h, cr)"

definition crypto_none_ops :: "crypto_none crypto_ops" where
  "crypto_none_ops = \<lparr>crypto_session_start = none_session_start, crypto_session_end = none_session_end,
     crypto_downlink_start = none_downlink_start, crypto_pouch_start = none_pouch_start,
     crypto_header_get = none_header_get, crypto_decrypt_block = none_decrypt_block,
     crypto_encrypt_block = none_encrypt_block\<rparr>"

lemmas none_defs = none_session_start_def none_session_end_def none_downlink_start_def none_pouch_start_def
  none_header_get_def none_decrypt_block_def none_encrypt_block_def crypto_none_ops_def

section \<open>The contract\<close>

definition none_inv :: "crypto_none \<Rightarrow> bool" where
  "none_inv cr = (case device_id cr of None \<Rightarrow> False | Some d \<Rightarrow> length d \<le> POUCH_DEVICE_ID_MAX_LEN)"

lemma none_crypto_init_inv: "fst (none_crypto_init cfg cr) = OK \<Longrightarrow> none_inv (snd (none_crypto_init cfg cr))"
  by (auto simp: none_crypto_init_def none_inv_def split: option.splits if_splits)

lemma crypto_none_provider:
  assumes "valid_config c"
  shows "crypto_provider c crypto_none_ops none_inv"
proof unfold_locales
  show "\<exists>r cr'. crypto_downlink_start crypto_none_ops info cr = Some (r, cr') \<and> none_inv cr'" if "none_inv cr" for info cr
    using that by (cases info) (auto simp: none_defs)
qed (use assms MAX_sizes [of c] in
    \<open>auto simp: none_defs none_inv_def sendable_def transportable_def split: option.splits\<close>)

lemma valid_plaintext_config [simp]: "valid_config plaintext_config"
  by (simp add: valid_config_def plaintext_config_def default_config_def MAX_BLOCK_SIZE_FIELD_VALUE_def
      MAX_BLOCK_PAYLOAD_SIZE_def MAX_BLOCK_PAYLOAD_SIZE_LOG_def MAX_CIPHERTEXT_BLOCK_SIZE_def
      MAX_PLAINTEXT_BLOCK_SIZE_def BLOCK_HEADER_SIZE_def)

interpretation plain: crypto_provider plaintext_config crypto_none_ops none_inv
  by (rule crypto_none_provider) simp

text \<open>Encryption is the identity.\<close>

lemma none_encrypt_all: "encrypt_all crypto_none_ops bs h cr = Some (bs, h, cr)"
  by (induction bs) (simp_all add: none_defs)

section \<open>The size of the header\<close>

text \<open>
  By \<^verbatim>\<open>header.cddl\<close> the header is an array of the version and an array of the encryption type and the device id. In the shortest CBOR an array of
  two takes one byte besides its items, the version and the type one each, and a string its length and a head of one, two or more bytes.
\<close>

definition cbor_tstr_size :: "nat \<Rightarrow> nat" where
  "cbor_tstr_size n = n + (if n < 24 then 1 else if n < 256 then 2 else 3)"

definition plaintext_header_size :: "cstr \<Rightarrow> nat" where
  "plaintext_header_size d = 1 + 1 + (1 + 1 + cbor_tstr_size (length d))"

definition encoder_cbor :: "header_codec \<Rightarrow> bool" where
  "encoder_cbor codec \<longleftrightarrow> (\<forall>n v d xs. cbor_encode_pouch_header codec n \<lparr>ph_version = v, ph_encryption_info = Plaintext_info d\<rparr> = Some xs
     \<longrightarrow> plaintext_header_size d \<le> length xs)"

lemma no_plaintext_header:
  assumes "\<not> config_saead c" "encoder_bounded codec" "encoder_cbor codec" "device_id cr = Some d" "POUCH_HEADER_MAX_LEN c < plaintext_header_size d"
  shows "\<exists>h'. pouch_header_create c codec crypto_none_ops cr h = Some (None, h') \<and> bufs h' = bufs h"
proof -
  have get: "crypto_header_get crypto_none_ops cr = Some (Inr (Plaintext_info d))" using assms(4) by (simp add: none_defs)
  have no: "cbor_encode_pouch_header codec (POUCH_HEADER_MAX_LEN c) \<lparr>ph_version = v, ph_encryption_info = Plaintext_info d\<rparr> \<noteq> Some xs" for v xs
    using assms(2,3,5) unfolding encoder_bounded_def encoder_cbor_def by (meson dual_order.strict_trans2 order_less_irrefl)
  show ?thesis
    by (rule pouch_header_create_cases [of codec crypto_none_ops cr c h]) (use assms(2) get no in auto)
qed

end
