(* ===== verification/Cert.thy ===== *)
theory Cert
  imports Node
begin

text \<open>
  Certificates, \<^verbatim>\<open>src/cert.c\<close>: the device certificate and its reference, and the public key and serial number
  of the server certificate.

  Mbed TLS and the PSA hash are the record \<open>tls_ops\<close> over the type \<^typ>\<open>'x\<close> of parsed certificates and
  \<^typ>\<open>'k\<close> of EC key pairs; a function that fills an output buffer is given its old contents and returns the
  new ones. The CA certificate is a file that the build generates, \<open>raw_ca_cert\<close>.

  Shown here: a server key is stored only from a certificate that parsed and, where the build asks for
  it, verified; the serial number stays inside its array; and the rejected serial number that is
  reported as success.
\<close>

section \<open>Data\<close>

definition CERT_REF_LEN :: nat where "CERT_REF_LEN = 32"
definition CERT_SERIAL_MAXLEN :: nat where "CERT_SERIAL_MAXLEN = 20"

record pubkey =
  pk_data :: "byte list"
  pk_len :: size_t

record ('x, 'k) tls_ops =
  raw_ca_cert :: "byte list"
  mbedtls_x509_crt_parse :: "byte list \<Rightarrow> 'x option"
  mbedtls_x509_crt_verify :: "'x \<Rightarrow> 'x \<Rightarrow> bool"
  crt_serial :: "'x \<Rightarrow> byte list"
  mbedtls_pk_ec :: "'x \<Rightarrow> 'k option"
  mbedtls_ecp_write_public_key :: "'k \<Rightarrow> pubkey \<Rightarrow> bool \<times> pubkey"
  psa_hash_compute :: "byte list \<Rightarrow> byte list \<Rightarrow> bool \<times> nat \<times> byte list"

text \<open>The static variables; \<open>ca_cert\<close> is there once it has been loaded.\<close>

record 'x cert_state =
  dev_certificate :: pouch_cert
  dev_ref :: "byte list"
  srv_pubkey :: pubkey
  srv_serial_data :: "byte list"
  srv_serial_len :: size_t
  ca_cert :: "'x option"

section \<open>Operations\<close>

definition cert_is_valid :: "pouch_cert option \<Rightarrow> bool" where
  "cert_is_valid cert = (case cert of None \<Rightarrow> False | Some ct \<Rightarrow> pc_buffer ct \<noteq> None \<and> pc_size ct > 0)"

text \<open>The bytes a library function reads from a certificate.\<close>

definition cert_bytes :: "pouch_cert \<Rightarrow> byte list option" where
  "cert_bytes ct = (case pc_buffer ct of None \<Rightarrow> None | Some xs \<Rightarrow> mem_read 0 (pc_size ct) xs)"

definition parse_x509_cert :: "('x, 'k) tls_ops \<Rightarrow> pouch_cert \<Rightarrow> (errno + 'x) option" where
  "parse_x509_cert tls ct =
     (if \<not> cert_is_valid (Some ct) then Some (Inl EINVAL)
      else do { xs \<leftarrow> cert_bytes ct;
                Some (case mbedtls_x509_crt_parse tls xs of None \<Rightarrow> Inl EIO | Some x \<Rightarrow> Inr x) })"

definition load_ca_cert :: "('x, 'k) tls_ops \<Rightarrow> 'x cert_state \<Rightarrow> ('x option \<times> 'x cert_state) option" where
  "load_ca_cert tls s =
     (case ca_cert s of
        Some x \<Rightarrow> Some (Some x, s)
      | None \<Rightarrow>
          do { r \<leftarrow> parse_x509_cert tls \<lparr>pc_buffer = Some (raw_ca_cert tls), pc_size = length (raw_ca_cert tls)\<rparr>;
               Some (case r of Inl _ \<Rightarrow> (None, s) | Inr x \<Rightarrow> (Some x, s\<lparr>ca_cert := Some x\<rparr>)) })"

definition generate_ref :: "('x, 'k) tls_ops \<Rightarrow> pouch_cert \<Rightarrow> byte list \<Rightarrow> (ret \<times> byte list) option" where
  "generate_ref tls ct cert_ref =
     do { xs \<leftarrow> cert_bytes ct;
          let (ok, hash_length, out) = psa_hash_compute tls xs cert_ref;
          Some (if \<not> ok \<or> hash_length \<noteq> CERT_REF_LEN then Err EIO else OK, out) }"

definition authenticate_server_cert :: "('x, 'k) tls_ops \<Rightarrow> 'x \<Rightarrow> 'x cert_state \<Rightarrow> (ret \<times> 'x cert_state) option" where
  "authenticate_server_cert tls x s =
     do { (ca, s) \<leftarrow> load_ca_cert tls s;
          Some (case ca of
                  None \<Rightarrow> (Err EIO, s)
                | Some ca \<Rightarrow> (if mbedtls_x509_crt_verify tls x ca then OK else Err EPERM, s)) }"

definition extract_pubkey :: "('x, 'k) tls_ops \<Rightarrow> 'x \<Rightarrow> pubkey \<Rightarrow> ret \<times> pubkey" where
  "extract_pubkey tls x out =
     (case mbedtls_pk_ec tls x of
        None \<Rightarrow> (Err EIO, out)
      | Some key \<Rightarrow>
          (case mbedtls_ecp_write_public_key tls key out of (ok, out) \<Rightarrow> (if ok then OK else Err EIO, out)))"

definition cert_device_set ::
  "('x, 'k) tls_ops \<Rightarrow> pouch_cert option \<Rightarrow> 'x cert_state \<Rightarrow> (ret \<times> 'x cert_state) option" where
  "cert_device_set tls ct s =
     (if \<not> cert_is_valid ct then Some (Err EINVAL, s)
      else do { (err, cert_ref) \<leftarrow> generate_ref tls (the ct) (dev_ref s);
                let s = s\<lparr>dev_ref := cert_ref\<rparr>;
                Some (if err \<noteq> OK then (err, s) else (OK, s\<lparr>dev_certificate := the ct\<rparr>)) })"

definition cert_server_set ::
  "config \<Rightarrow> ('x, 'k) tls_ops \<Rightarrow> pouch_cert option \<Rightarrow> 'x cert_state \<Rightarrow> (ret \<times> 'x cert_state) option" where
  "cert_server_set c tls ct s =
     (if \<not> cert_is_valid ct then Some (Err EINVAL, s)
      else do {
        chain \<leftarrow> parse_x509_cert tls (the ct);
        case chain of
          Inl e \<Rightarrow> Some (Err e, s)
        | Inr chain \<Rightarrow> do {
            (err, s) \<leftarrow> (if config_validate_server_cert c then authenticate_server_cert tls chain s else Some (OK, s));
            if err \<noteq> OK then Some (err, s)
            else if length (crt_serial tls chain) > CERT_SERIAL_MAXLEN then Some (err, s)
            else do {
              let (err, key) = extract_pubkey tls chain (srv_pubkey s);
              let s = s\<lparr>srv_pubkey := key\<rparr>;
              if err \<noteq> OK then Some (err, s)
              else do {
                serial \<leftarrow> mem_write 0 (crt_serial tls chain) (srv_serial_data s);
                Some (OK, s\<lparr>srv_serial_data := serial, srv_serial_len := length (crt_serial tls chain)\<rparr>) } } } })"

text \<open>The pointer to the reference: \<^const>\<open>None\<close> is \<^verbatim>\<open>NULL\<close>.\<close>

definition cert_ref_get :: "'x cert_state \<Rightarrow> byte list option" where
  "cert_ref_get s = (if \<not> cert_is_valid (Some (dev_certificate s)) then None else Some (dev_ref s))"

definition cert_server_key_get :: "'x cert_state \<Rightarrow> pubkey" where
  "cert_server_key_get s = srv_pubkey s"

definition cert_has_server_info :: "'x cert_state \<Rightarrow> bool" where
  "cert_has_server_info s = (pk_len (srv_pubkey s) \<noteq> 0)"

definition pouch_server_certificate_set ::
  "config \<Rightarrow> ('x, 'k) tls_ops \<Rightarrow> pouch_cert option \<Rightarrow> 'x cert_state \<Rightarrow> (ret \<times> 'x cert_state) option" where
  "pouch_server_certificate_set c tls ct s = cert_server_set c tls ct s"

text \<open>The getters return the bytes they copy out.\<close>

definition pouch_server_certificate_serial_get :: "size_t \<Rightarrow> 'x cert_state \<Rightarrow> (errno + byte list) option" where
  "pouch_server_certificate_serial_get len s =
     (if len < srv_serial_len s then Some (Inl EINVAL)
      else map_option Inr (mem_read 0 (srv_serial_len s) (srv_serial_data s)))"

definition pouch_device_certificate_ref_get :: "size_t \<Rightarrow> 'x cert_state \<Rightarrow> (errno + byte list) option" where
  "pouch_device_certificate_ref_get len s =
     (if \<not> cert_is_valid (Some (dev_certificate s)) \<or> len > CERT_REF_LEN then Some (Inl EINVAL)
      else map_option Inr (mem_read 0 len (dev_ref s)))"

definition pouch_device_certificate_get :: "'x cert_state \<Rightarrow> errno + pouch_cert" where
  "pouch_device_certificate_get s =
     (if \<not> cert_is_valid (Some (dev_certificate s)) then Inl ENOENT else Inr (dev_certificate s))"

section \<open>Invariant\<close>

text \<open>The arrays have their declared sizes, and the serial number its recorded length inside its array.\<close>

definition cert_inv :: "'x cert_state \<Rightarrow> bool" where
  "cert_inv s \<longleftrightarrow> length (dev_ref s) = CERT_REF_LEN \<and> length (srv_serial_data s) = CERT_SERIAL_MAXLEN
     \<and> srv_serial_len s \<le> CERT_SERIAL_MAXLEN"

text \<open>What is relied on from the hash: it fills the buffer it is given and does not change its size.\<close>

definition hash_sized :: "('x, 'k) tls_ops \<Rightarrow> bool" where
  "hash_sized tls \<longleftrightarrow> (\<forall>xs out ok n out'. psa_hash_compute tls xs out = (ok, n, out') \<longrightarrow> length out' = length out)"

text \<open>A certificate whose buffer holds as many bytes as it claims.\<close>

definition cert_ok :: "pouch_cert \<Rightarrow> bool" where
  "cert_ok ct = (case pc_buffer ct of None \<Rightarrow> True | Some xs \<Rightarrow> pc_size ct \<le> length xs \<and> length xs < SIZE_MOD)"

section \<open>Lemmas\<close>

lemma cert_bytes_ok: "cert_ok ct \<Longrightarrow> cert_is_valid (Some ct) \<Longrightarrow> \<exists>xs. cert_bytes ct = Some xs \<and> length xs = pc_size ct"
  by (auto simp: cert_ok_def cert_is_valid_def cert_bytes_def mem_read_def)

lemma load_ca_cert_spec:
  assumes "length (raw_ca_cert tls) < SIZE_MOD"
  shows "\<exists>r s'. load_ca_cert tls s = Some (r, s') \<and> s' = s\<lparr>ca_cert := ca_cert s'\<rparr>
    \<and> (\<forall>x. r = Some x \<longrightarrow> ca_cert s' = Some x \<and> (ca_cert s = Some x \<or> mbedtls_x509_crt_parse tls (raw_ca_cert tls) = Some x))"
proof (cases "ca_cert s")
  case (Some x)
  then show ?thesis by (simp add: load_ca_cert_def)
next
  case None
  have "cert_bytes \<lparr>pc_buffer = Some (raw_ca_cert tls), pc_size = length (raw_ca_cert tls)\<rparr> = Some (raw_ca_cert tls)"
    using assms by (simp add: cert_bytes_def mem_read_def)
  with None show ?thesis
    by (auto simp: load_ca_cert_def parse_x509_cert_def split: option.splits)
qed

text \<open>
  The server key after a call: it is the one of a certificate that parsed and passed the checks of the
  build, or it is what it was before, or it is what a failed export left behind.
\<close>

lemma cert_server_set_cases:
  assumes "cert_inv s" "length (raw_ca_cert tls) < SIZE_MOD" "\<forall>ct. cert = Some ct \<longrightarrow> cert_ok ct"
  obtains (reject) e s' where "cert_server_set c tls cert s = Some (Err e, s')" "cert_inv s'" "srv_pubkey s' = srv_pubkey s"
  | (serial) s' x where "cert_server_set c tls cert s = Some (OK, s')" "cert_inv s'" "srv_pubkey s' = srv_pubkey s"
      "CERT_SERIAL_MAXLEN < length (crt_serial tls x)"
  | (export) s' x where "cert_server_set c tls cert s = Some (Err EIO, s')" "cert_inv s'"
      "srv_pubkey s' = snd (extract_pubkey tls x (srv_pubkey s))"
  | (ok) s' x xs where "cert_server_set c tls cert s = Some (OK, s')" "cert_inv s'"
      "mbedtls_x509_crt_parse tls xs = Some x" "extract_pubkey tls x (srv_pubkey s) = (OK, srv_pubkey s')"
      "config_validate_server_cert c \<longrightarrow> (\<exists>ca. mbedtls_x509_crt_verify tls x ca
         \<and> (ca_cert s = Some ca \<or> mbedtls_x509_crt_parse tls (raw_ca_cert tls) = Some ca))"
      "srv_serial_len s' = length (crt_serial tls x)" "take (srv_serial_len s') (srv_serial_data s') = crt_serial tls x"
      "Option.bind cert cert_bytes = Some xs"
proof (cases "cert_is_valid cert")
  case False
  with assms(1) show thesis by (intro reject [of EINVAL s]) (simp_all add: cert_server_set_def)
next
  case True
  then obtain ct where ct: "cert = Some ct" by (cases cert) (auto simp: cert_is_valid_def)
  obtain xs where xs: "cert_bytes ct = Some xs" using cert_bytes_ok assms(3) True ct by blast
  show thesis
  proof (cases "mbedtls_x509_crt_parse tls xs")
    case None
    with True ct xs assms(1) show thesis
      by (intro reject [of EIO s]) (simp_all add: cert_server_set_def parse_x509_cert_def)
  next
    case (Some x)
    obtain r s1 where l: "load_ca_cert tls s = Some (r, s1)" "s1 = s\<lparr>ca_cert := ca_cert s1\<rparr>"
      "\<forall>x. r = Some x \<longrightarrow> ca_cert s1 = Some x \<and> (ca_cert s = Some x \<or> mbedtls_x509_crt_parse tls (raw_ca_cert tls) = Some x)"
      using load_ca_cert_spec [OF assms(2), of s] by blast
    define s2 where "s2 = (if config_validate_server_cert c then s1 else s)"
    have s2: "cert_inv s2" "srv_pubkey s2 = srv_pubkey s" "srv_serial_data s2 = srv_serial_data s"
      using assms(1) by (simp_all add: s2_def, subst l(2), simp add: cert_inv_def, (subst l(2), simp)+)
    define err where "err = (if config_validate_server_cert c
      then (case r of None \<Rightarrow> Err EIO | Some ca \<Rightarrow> if mbedtls_x509_crt_verify tls x ca then OK else Err EPERM) else OK)"
    have "(if config_validate_server_cert c then authenticate_server_cert tls x s else Some (OK, s)) = Some (err, s2)"
      using l(1) by (simp add: authenticate_server_cert_def err_def s2_def split: option.splits)
    then have eq: "cert_server_set c tls cert s =
      (if err \<noteq> OK then Some (err, s2)
       else if length (crt_serial tls x) > CERT_SERIAL_MAXLEN then Some (err, s2)
       else let (err, key) = extract_pubkey tls x (srv_pubkey s2); s = s2\<lparr>srv_pubkey := key\<rparr> in
         if err \<noteq> OK then Some (err, s)
         else do { serial \<leftarrow> mem_write 0 (crt_serial tls x) (srv_serial_data s);
                   Some (OK, s\<lparr>srv_serial_data := serial, srv_serial_len := length (crt_serial tls x)\<rparr>) })"
      using True ct xs Some by (simp add: cert_server_set_def parse_x509_cert_def Let_def case_prod_unfold)
    obtain e key where k: "extract_pubkey tls x (srv_pubkey s2) = (e, key)" by fastforce
    have e: "e = OK \<or> e = Err EIO" using k by (auto simp: extract_pubkey_def split: option.splits prod.splits if_splits)
    consider (auth) "err \<noteq> OK" | (ser) "err = OK" "CERT_SERIAL_MAXLEN < length (crt_serial tls x)"
      | (exp) "err = OK" "length (crt_serial tls x) \<le> CERT_SERIAL_MAXLEN" "e \<noteq> OK"
      | (fine) "err = OK" "length (crt_serial tls x) \<le> CERT_SERIAL_MAXLEN" "e = OK" by linarith
    then show thesis
    proof cases
      case auth
      with eq s2 show thesis by (cases err) (auto intro: reject)
    next
      case ser
      with eq s2 show thesis by (intro serial [of s2 x]) simp_all
    next
      case exp
      with eq s2 k e show thesis
        by (intro export [of "s2\<lparr>srv_pubkey := key\<rparr>" x]) (auto simp: cert_inv_def)
    next
      case fine
      have "length (srv_serial_data s2) = CERT_SERIAL_MAXLEN" using s2(1) by (simp add: cert_inv_def)
      moreover have "config_validate_server_cert c \<longrightarrow> (\<exists>ca. mbedtls_x509_crt_verify tls x ca
         \<and> (ca_cert s = Some ca \<or> mbedtls_x509_crt_parse tls (raw_ca_cert tls) = Some ca))"
        using fine(1) l(3) by (auto simp: err_def split: option.splits if_splits)
      ultimately show thesis
        using eq fine s2 k Some ct xs
        by (intro ok [of "s2\<lparr>srv_pubkey := key, srv_serial_data := crt_serial tls x @ drop (length (crt_serial tls x)) (srv_serial_data s2),
              srv_serial_len := length (crt_serial tls x)\<rparr>" xs x])
           (auto simp: cert_inv_def mem_write_def)
    qed
  qed
qed

lemma serial_get_after_set:
  assumes "cert_inv s"
  shows "pouch_server_certificate_serial_get CERT_SERIAL_MAXLEN s = Some (Inr (take (srv_serial_len s) (srv_serial_data s)))"
  using assms by (simp add: pouch_server_certificate_serial_get_def cert_inv_def mem_read_def CERT_SERIAL_MAXLEN_def SIZE_MOD_def)

lemma cert_device_set_inv:
  assumes "cert_inv s" "hash_sized tls" "\<forall>ct. cert = Some ct \<longrightarrow> cert_ok ct"
  shows "\<exists>r s'. cert_device_set tls cert s = Some (r, s') \<and> cert_inv s'
    \<and> (r = OK \<longrightarrow> cert_ref_get s' = Some (dev_ref s') \<and> pouch_device_certificate_get s' = Inr (the cert))"
proof (cases "cert_is_valid cert")
  case False
  with assms(1) show ?thesis by (simp add: cert_device_set_def)
next
  case True
  then obtain ct where ct: "cert = Some ct" by (cases cert) (auto simp: cert_is_valid_def)
  obtain xs where xs: "cert_bytes ct = Some xs" using cert_bytes_ok assms(3) True ct by blast
  obtain ok n out where h: "psa_hash_compute tls xs (dev_ref s) = (ok, n, out)" by (metis prod_cases3)
  then have "length out = CERT_REF_LEN" using assms(1,2) by (auto simp: hash_sized_def cert_inv_def)
  with True ct xs h assms(1) show ?thesis
    by (auto simp: cert_device_set_def generate_ref_def cert_inv_def cert_ref_get_def pouch_device_certificate_get_def)
qed

end
