(* ===== verification/Session.thy ===== *)
theory Session
  imports Cert
begin

text \<open>
  SAEAD sessions, \<^verbatim>\<open>src/saead/session.c\<close> and \<^verbatim>\<open>session.h\<close>: session identifiers, key derivation, nonces, and the
  encryption and decryption of a block with the tag of the previous block as additional data.

  The PSA crypto API is the record \<open>psa_ops\<close> over the state \<^typ>\<open>'p\<close> of the key store; a key derivation
  operation in progress is part of that state. The union in \<^verbatim>\<open>struct session_id\<close> is its 16 bytes, with the
  sequence number in the little-endian layout of the supported targets.

  Shown here: encryption and decryption stay inside their buffers and give framed blocks; nonces do
  not repeat for 65536 blocks of a pouch, and do after that; the key derivation input fits its array.
\<close>

section \<open>Data\<close>

datatype pouch_role = POUCH_ROLE_DEVICE | POUCH_ROLE_SERVER

datatype session_id_type = SESSION_ID_TYPE_SEQUENTIAL | SESSION_ID_TYPE_RANDOM

datatype psa_algorithm = PSA_ALG_CHACHA20_POLY1305 | PSA_ALG_GCM

datatype psa_key_usage = PSA_KEY_USAGE_ENCRYPT | DOWNLINK_KEY_USAGE

datatype psa_key_type = PSA_KEY_TYPE_CHACHA20 | PSA_KEY_TYPE_AES

type_synonym psa_key_id = u32

definition PSA_KEY_ID_NULL :: psa_key_id where "PSA_KEY_ID_NULL = 0"
definition SESSION_ID_TAG_LEN :: nat where "SESSION_ID_TAG_LEN = SESSION_ID_LEN - 8"
definition AUTH_TAG_LEN :: nat where "AUTH_TAG_LEN = 16"
definition NONCE_LEN :: nat where "NONCE_LEN = 12"

definition BASE64_STRLEN :: "nat \<Rightarrow> nat" where
  "BASE64_STRLEN n = 4 * ((n + 2) div 3)"

definition INFO_MAX_LEN :: nat where
  "INFO_MAX_LEN = 12 + BASE64_STRLEN SESSION_ID_LEN + 1"

record session_id =
  sid_type :: session_id_type
  sid_initiator :: pouch_role
  sid_value :: "byte list"

definition SESSION_VALID_FLAG :: nat where "SESSION_VALID_FLAG = 0"
definition SESSION_ACTIVE_FLAG :: nat where "SESSION_ACTIVE_FLAG = 1"
definition SESSION_HAS_POUCH_FLAG :: nat where "SESSION_HAS_POUCH_FLAG = 2"

record session =
  ss_id :: session_id
  ss_flags :: u32
  ss_algorithm :: psa_algorithm
  ss_key :: psa_key_id
  ss_pouch_id :: u16
  ss_block_index :: u32
  ss_ad :: "byte list"

record key_attributes =
  ka_type :: psa_key_type
  ka_bits :: nat
  ka_algorithm :: psa_algorithm
  ka_usage :: psa_key_usage

record 'p psa_ops =
  psa_generate_random :: "nat \<Rightarrow> 'p \<Rightarrow> byte list option \<times> 'p"
  psa_destroy_key :: "psa_key_id \<Rightarrow> 'p \<Rightarrow> 'p"
  psa_copy_key :: "psa_key_id \<Rightarrow> psa_key_usage \<Rightarrow> 'p \<Rightarrow> psa_key_id option \<times> 'p"
  psa_key_derivation_setup :: "'p \<Rightarrow> bool \<times> 'p"
  psa_key_derivation_key_agreement :: "psa_key_id \<Rightarrow> byte list \<Rightarrow> 'p \<Rightarrow> bool \<times> 'p"
  psa_key_derivation_input_bytes :: "byte list \<Rightarrow> 'p \<Rightarrow> bool \<times> 'p"
  psa_key_derivation_output_key :: "key_attributes \<Rightarrow> 'p \<Rightarrow> psa_key_id option \<times> 'p"
  psa_key_derivation_abort :: "'p \<Rightarrow> 'p"
  psa_aead_encrypt :: "'p \<Rightarrow> psa_key_id \<Rightarrow> psa_algorithm \<Rightarrow> byte list \<Rightarrow> byte list \<Rightarrow> byte list \<Rightarrow> nat \<Rightarrow> byte list option"
  psa_aead_decrypt :: "'p \<Rightarrow> psa_key_id \<Rightarrow> psa_algorithm \<Rightarrow> byte list \<Rightarrow> byte list \<Rightarrow> byte list \<Rightarrow> nat \<Rightarrow> byte list option"
  base64_encode :: "byte list \<Rightarrow> nat \<Rightarrow> byte list option"

section \<open>Session identifiers\<close>

definition session_id_is_equal :: "session_id \<Rightarrow> session_id \<Rightarrow> bool" where
  "session_id_is_equal a b =
     (sid_type a = sid_type b \<and> sid_initiator a = sid_initiator b \<and> sid_value a = sid_value b)"

text \<open>The sequence number in the second half of the union.\<close>

definition sid_seqnum :: "session_id \<Rightarrow> u64" where
  "sid_seqnum i = sys_get_be64 (rev (drop SESSION_ID_TAG_LEN (sid_value i)))"

definition put_le64 :: "u64 \<Rightarrow> byte list" where
  "put_le64 v = map (\<lambda>k. ucast (drop_bit (8 * k) v)) [0..<8]"

definition set_seqnum :: "u64 \<Rightarrow> session_id \<Rightarrow> session_id" where
  "set_seqnum v i = i\<lparr>sid_value := take SESSION_ID_TAG_LEN (sid_value i) @ put_le64 v\<rparr>"

definition set_tag :: "byte list \<Rightarrow> session_id \<Rightarrow> session_id" where
  "set_tag xs i = i\<lparr>sid_value := xs @ drop SESSION_ID_TAG_LEN (sid_value i)\<rparr>"

definition session_id_generate :: "'p psa_ops \<Rightarrow> session_id \<Rightarrow> 'p \<Rightarrow> ret \<times> session_id \<times> 'p" where
  "session_id_generate psa i p =
     (let i = i\<lparr>sid_initiator := POUCH_ROLE_DEVICE\<rparr> in
      if sid_type i = SESSION_ID_TYPE_RANDOM
      then (case psa_generate_random psa SESSION_ID_LEN p of
              (None, p) \<Rightarrow> (Err EIO, i, p)
            | (Some xs, p) \<Rightarrow> (OK, i\<lparr>sid_value := xs\<rparr>, p))
      else (case psa_generate_random psa SESSION_ID_TAG_LEN p of
              (None, p) \<Rightarrow> (Err EIO, i, p)
            | (Some xs, p) \<Rightarrow> let i = set_tag xs i in (OK, set_seqnum (sid_seqnum i + 1) i, p)))"

section \<open>Keys\<close>

definition session_end :: "'p psa_ops \<Rightarrow> session \<Rightarrow> 'p \<Rightarrow> session \<times> 'p" where
  "session_end psa ss p =
     (if \<not> bit (ss_flags ss) SESSION_ACTIVE_FLAG then (ss, p)
      else (ss\<lparr>ss_flags := unset_bit SESSION_ACTIVE_FLAG (ss_flags ss), ss_key := PSA_KEY_ID_NULL\<rparr>,
            psa_destroy_key psa (ss_key ss) p))"

definition hex_digit :: "nat \<Rightarrow> byte" where
  "hex_digit n = of_nat (if n < 10 then 48 + n else 87 + n)"

text \<open>The format string of \<^verbatim>\<open>sprintf\<close>; the terminator is not part of the result.\<close>

definition key_info_string :: "session_id \<Rightarrow> psa_algorithm \<Rightarrow> byte \<Rightarrow> byte list \<Rightarrow> byte list" where
  "key_info_string i alg max_block_size_log encoded_id =
     cstr ''E0:'' @ cstr (if sid_initiator i = POUCH_ROLE_DEVICE then ''D'' else ''S'') @ cstr '':''
     @ encoded_id @ cstr '':C'' @ cstr (if alg = PSA_ALG_CHACHA20_POLY1305 then ''C'' else ''A'')
     @ cstr (if sid_type i = SESSION_ID_TYPE_SEQUENTIAL then ''S'' else ''R'') @ cstr '':''
     @ [hex_digit (unat max_block_size_log div 16), hex_digit (unat max_block_size_log mod 16)]"

text \<open>\<^verbatim>\<open>%s\<close> prints the encoded identifier up to its terminator; both arrays are checked for their sizes.\<close>

definition session_key_info_build ::
  "'p psa_ops \<Rightarrow> session_id \<Rightarrow> psa_algorithm \<Rightarrow> byte \<Rightarrow> (errno + byte list) option" where
  "session_key_info_build psa i alg max_block_size_log =
     (case base64_encode psa (sid_value i) (BASE64_STRLEN SESSION_ID_LEN + 1) of
        None \<Rightarrow> Some (Inl EIO)
      | Some xs \<Rightarrow>
          if BASE64_STRLEN SESSION_ID_LEN + 1 \<le> length xs then None
          else let info = key_info_string i alg max_block_size_log (takeWhile (\<lambda>x. x \<noteq> 0) xs) in
            if INFO_MAX_LEN < length info + 1 then None else Some (Inr info))"

definition SAEAD_KEY_SIZE :: "psa_algorithm \<Rightarrow> nat" where
  "SAEAD_KEY_SIZE alg = (if alg = PSA_ALG_CHACHA20_POLY1305 then 32 else 16)"

definition SESSION_KEY_TYPE :: "psa_algorithm \<Rightarrow> psa_key_type" where
  "SESSION_KEY_TYPE alg = (if alg = PSA_ALG_CHACHA20_POLY1305 then PSA_KEY_TYPE_CHACHA20 else PSA_KEY_TYPE_AES)"

definition session_key_generate ::
  "'p psa_ops \<Rightarrow> session_id \<Rightarrow> psa_algorithm \<Rightarrow> byte \<Rightarrow> psa_key_id \<Rightarrow> pubkey \<Rightarrow> psa_key_usage \<Rightarrow> 'p
     \<Rightarrow> (psa_key_id \<times> 'p) option" where
  "session_key_generate psa i alg max_block_size_log private_key pk usage p =
     (if pk_len pk = 0 then Some (PSA_KEY_ID_NULL, p)
      else let exit = (\<lambda>key p. Some (key, psa_key_derivation_abort psa p)) in
        case psa_key_derivation_setup psa p of (ok, p) \<Rightarrow>
        if \<not> ok then exit PSA_KEY_ID_NULL p
        else do {
          peer \<leftarrow> mem_read 0 (pk_len pk) (pk_data pk);
          case psa_key_derivation_key_agreement psa private_key peer p of (ok, p) \<Rightarrow>
          if \<not> ok then exit PSA_KEY_ID_NULL p
          else do {
            info \<leftarrow> session_key_info_build psa i alg max_block_size_log;
            case info of
              Inl e \<Rightarrow> exit PSA_KEY_ID_NULL p
            | Inr info \<Rightarrow>
                (case psa_key_derivation_input_bytes psa info p of (ok, p) \<Rightarrow>
                 if \<not> ok then exit PSA_KEY_ID_NULL p
                 else case psa_key_derivation_output_key psa
                        \<lparr>ka_type = SESSION_KEY_TYPE alg, ka_bits = SAEAD_KEY_SIZE alg * 8, ka_algorithm = alg, ka_usage = usage\<rparr> p of
                        (key, p) \<Rightarrow> exit (case key of None \<Rightarrow> PSA_KEY_ID_NULL | Some k \<Rightarrow> k) p) } })"

section \<open>Pouches and blocks\<close>

definition session_pouch_start :: "session \<Rightarrow> u16 \<Rightarrow> ret \<times> session" where
  "session_pouch_start ss pouch_id =
     (if \<not> bit (ss_flags ss) SESSION_ACTIVE_FLAG then (Err EBUSY, ss)
      else (OK, ss\<lparr>ss_pouch_id := pouch_id, ss_block_index := 0\<rparr>))"

definition role_byte :: "pouch_role \<Rightarrow> byte" where
  "role_byte r = (case r of POUCH_ROLE_DEVICE \<Rightarrow> 0 | POUCH_ROLE_SERVER \<Rightarrow> 1)"

definition nonce_generate :: "session \<Rightarrow> pouch_role \<Rightarrow> byte list" where
  "nonce_generate ss sender =
     sys_put_be16 (ss_pouch_id ss) @ sys_put_be16 (ucast (ss_block_index ss)) @ [role_byte sender]
     @ replicate (NONCE_LEN - 5) 0"

text \<open>The additional data: nothing for the first block of a pouch, then the previous tag.\<close>

definition block_ad :: "session \<Rightarrow> byte list" where
  "block_ad ss = (if ss_block_index ss > 0 then ss_ad ss else [])"

definition session_encrypt_block ::
  "config \<Rightarrow> 'p psa_ops \<Rightarrow> 'p \<Rightarrow> session \<Rightarrow> pouch_buf \<Rightarrow> heap \<Rightarrow> (pouch_buf option \<times> session \<times> heap) option" where
  "session_encrypt_block c psa p ss block h =
     (case buf_alloc (MAX_CIPHERTEXT_BLOCK_SIZE c) h of
        (None, h) \<Rightarrow> Some (None, ss, h)
      | (Some encrypted, h) \<Rightarrow>
          do { let nonce = nonce_generate ss POUCH_ROLE_DEVICE;
               (len, v) \<leftarrow> pouch_bufview_read_be16 (pouch_bufview_init (Some block));
               let plaintext_len = unat len;
               if plaintext_len \<noteq> pouch_bufview_available v then Some (None, ss, buf_free (Some encrypted) h)
               else do {
                 let encrypted_len = plaintext_len + AUTH_TAG_LEN;
                 encrypted \<leftarrow> block_size_write encrypted (word_of_nat encrypted_len);
                 let (ciphertext, encrypted) = buf_claim encrypted encrypted_len;
                 (ptr, v) \<leftarrow> pouch_bufview_read plaintext_len v;
                 ptr \<leftarrow> ptr;
                 plaintext \<leftarrow> bufview_deref ptr plaintext_len v;
                 case psa_aead_encrypt psa p (ss_key ss) (ss_algorithm ss) nonce (block_ad ss) plaintext encrypted_len of
                   None \<Rightarrow> Some (None, ss, buf_free (Some encrypted) h)
                 | Some xs \<Rightarrow>
                     do { encrypted \<leftarrow> buf_poke ciphertext xs encrypted;
                          if length xs \<noteq> encrypted_len then Some (None, ss, buf_free (Some encrypted) h)
                          else do {
                            tag \<leftarrow> buf_peek (ciphertext + plaintext_len) AUTH_TAG_LEN encrypted;
                            Some (Some encrypted, ss\<lparr>ss_ad := tag, ss_block_index := ss_block_index ss + 1\<rparr>, h) } } } })"

definition session_decrypt_block ::
  "config \<Rightarrow> 'p psa_ops \<Rightarrow> 'p \<Rightarrow> session \<Rightarrow> pouch_buf option \<Rightarrow> heap \<Rightarrow> (pouch_buf option \<times> session \<times> heap) option" where
  "session_decrypt_block c psa p ss block h =
     (case buf_alloc (MAX_PLAINTEXT_BLOCK_SIZE c) h of
        (None, h) \<Rightarrow> Some (None, ss, h)
      | (Some decrypted, h) \<Rightarrow>
          do { let nonce = nonce_generate ss POUCH_ROLE_SERVER;
               (len, v) \<leftarrow> pouch_bufview_read_be16 (pouch_bufview_init block);
               let ciphertext_len = unat len;
               if ciphertext_len \<le> AUTH_TAG_LEN \<or> ciphertext_len \<noteq> pouch_bufview_available v
               then Some (None, ss, buf_free (Some decrypted) h)
               else do {
                 let payload_len = ciphertext_len - AUTH_TAG_LEN;
                 decrypted \<leftarrow> block_size_write decrypted (word_of_nat payload_len);
                 (ptr, v) \<leftarrow> pouch_bufview_read payload_len v;
                 ptr \<leftarrow> ptr;
                 ciphertext \<leftarrow> bufview_deref ptr ciphertext_len v;
                 let (out, decrypted) = buf_claim decrypted payload_len;
                 case psa_aead_decrypt psa p (ss_key ss) (ss_algorithm ss) nonce (block_ad ss) ciphertext payload_len of
                   None \<Rightarrow> Some (None, ss, buf_free (Some decrypted) h)
                 | Some xs \<Rightarrow>
                     do { decrypted \<leftarrow> buf_poke out xs decrypted;
                          if length xs \<noteq> payload_len then Some (None, ss, buf_free (Some decrypted) h)
                          else do {
                            (tag, v) \<leftarrow> pouch_bufview_memcpy AUTH_TAG_LEN v;
                            Some (Some decrypted,
                                  ss\<lparr>ss_ad := tag @ drop (length tag) (ss_ad ss), ss_block_index := ss_block_index ss + 1,
                                     ss_flags := set_bit SESSION_VALID_FLAG (ss_flags ss)\<rparr>, h) } } } })"

section \<open>What is relied on from PSA\<close>

text \<open>
  No function writes more than the size it is given, \<^verbatim>\<open>psa_generate_random\<close> fills the buffer, and the base64
  text leaves room for the terminator.
\<close>

definition psa_sized :: "'p psa_ops \<Rightarrow> bool" where
  "psa_sized psa \<longleftrightarrow>
     (\<forall>p k a n ad xs m ys. psa_aead_encrypt psa p k a n ad xs m = Some ys \<longrightarrow> length ys \<le> m)
     \<and> (\<forall>p k a n ad xs m ys. psa_aead_decrypt psa p k a n ad xs m = Some ys \<longrightarrow> length ys \<le> m)
     \<and> (\<forall>n p xs p'. psa_generate_random psa n p = (Some xs, p') \<longrightarrow> length xs = n)
     \<and> (\<forall>xs m ys. base64_encode psa xs m = Some ys \<longrightarrow> length ys < m)"

lemma psa_sizedD:
  assumes "psa_sized psa"
  shows "psa_aead_encrypt psa p k a n ad xs m = Some ys \<Longrightarrow> length ys \<le> m"
    "psa_aead_decrypt psa p k a n ad xs m = Some ys \<Longrightarrow> length ys \<le> m"
    "psa_generate_random psa i p = (Some xs, p') \<Longrightarrow> length xs = i"
    "base64_encode psa xs m = Some ys \<Longrightarrow> length ys < m"
  using assms [unfolded psa_sized_def] by - (elim conjE, metis)+

definition saead_config :: "config \<Rightarrow> bool" where
  "saead_config c \<longleftrightarrow> valid_config c \<and> config_auth_tag_len c = AUTH_TAG_LEN \<and> config_saead c"

section \<open>Lemmas\<close>

lemma saead_config_default [simp]: "saead_config default_config"
  unfolding saead_config_def by (simp, simp add: default_config_def AUTH_TAG_LEN_def)

lemma saead_sizes:
  "saead_config c \<Longrightarrow> MAX_CIPHERTEXT_BLOCK_SIZE c = MAX_PLAINTEXT_BLOCK_SIZE c + AUTH_TAG_LEN"
  by (simp add: saead_config_def MAX_CIPHERTEXT_BLOCK_SIZE_def)

subsection \<open>Key derivation input\<close>

lemma length_key_info_string: "length (key_info_string i alg l xs) = length xs + 12"
  by (simp add: key_info_string_def cstr_def)

lemma session_key_info_build_fits:
  assumes "psa_sized psa"
  shows "\<exists>r. session_key_info_build psa i alg l = Some r \<and> (\<forall>xs. r = Inr xs \<longrightarrow> length xs < INFO_MAX_LEN)"
proof (cases "base64_encode psa (sid_value i) (BASE64_STRLEN SESSION_ID_LEN + 1)")
  case None
  then show ?thesis by (simp add: session_key_info_build_def)
next
  case (Some xs)
  have "length xs < BASE64_STRLEN SESSION_ID_LEN + 1" using assms Some by (rule psa_sizedD)
  moreover have "length (takeWhile (\<lambda>x. x \<noteq> 0) xs) \<le> length xs" by (rule length_takeWhile_le)
  ultimately show ?thesis
    using Some by (simp add: session_key_info_build_def Let_def length_key_info_string INFO_MAX_LEN_def)
qed

lemma session_key_generate_total:
  assumes "psa_sized psa" "pk_len pk \<le> length (pk_data pk)" "length (pk_data pk) < SIZE_MOD"
  shows "\<exists>k p'. session_key_generate psa i alg l private_key pk usage p = Some (k, p')"
proof -
  obtain r where "session_key_info_build psa i alg l = Some r" using session_key_info_build_fits [OF assms(1)] by blast
  moreover have "mem_read 0 (pk_len pk) (pk_data pk) = Some (take (pk_len pk) (pk_data pk))"
    using assms(2,3) by (simp add: mem_read_def)
  ultimately show ?thesis
    by (auto simp: session_key_generate_def Let_def case_prod_unfold split: sum.splits)
qed

subsection \<open>Nonces\<close>

lemma length_nonce: "length (nonce_generate ss sender) = NONCE_LEN"
  by (simp add: nonce_generate_def NONCE_LEN_def)

lemma nonce_eq_iff:
  "nonce_generate ss r = nonce_generate ss' r' \<longleftrightarrow>
     ss_pouch_id ss = ss_pouch_id ss' \<and> unat (ss_block_index ss) mod 65536 = unat (ss_block_index ss') mod 65536 \<and> r = r'"
proof -
  have be: "sys_put_be16 a = sys_put_be16 b \<longleftrightarrow> a = b" for a b by (metis sys_get_put_be16_Nil)
  have uc: "(ucast x :: u16) = ucast y \<longleftrightarrow> unat x mod 65536 = unat y mod 65536" for x y :: u32
    by (simp add: word_unat_eq_iff unsigned_ucast_eq take_bit_eq_mod)
  have rb: "role_byte r = role_byte r' \<longleftrightarrow> r = r'" by (cases r; cases r') (simp_all add: role_byte_def)
  show ?thesis
    using uc [of "ss_block_index ss" "ss_block_index ss'"] by (auto simp: nonce_generate_def be rb)
qed

subsection \<open>Encrypting\<close>

lemma block_size_write_eq: "fits [0, 0] b \<Longrightarrow> block_size_write b n = Some (buf_append (sys_put_be16 n) b)"
  using buf_write_eq [of "sys_put_be16 n" b]
  by (auto simp: block_size_write_def buf_write_def fits_def case_prod_unfold)

text \<open>Claiming a range and filling it afterwards is a write.\<close>

lemma claim_poke:
  assumes "fits xs b"
  shows "buf_claim b (length xs) = (pb_bytes b, b\<lparr>pb_bytes := pb_bytes b + length xs\<rparr>)"
    "buf_poke (pb_bytes b) xs (b\<lparr>pb_bytes := pb_bytes b + length xs\<rparr>) = Some (buf_append xs b)"
  using assms by (auto simp: buf_claim_def buf_poke_def mem_write_def buf_append_def fits_def wf_buf_def size_simps)

lemma framed_view:
  assumes "wf_buf b" "2 \<le> pb_bytes b"
  defines "v \<equiv> view_advance 2 (pouch_bufview_init (Some b))"
  shows "pouch_bufview_read_be16 (pouch_bufview_init (Some b)) = Some (sys_get_be16 (contents b), v)"
    "view_ok v" "view_rest v = drop 2 (contents b)" "pouch_bufview_available v = pb_bytes b - 2"
  using assms by (simp_all add: v_def view_reads)

lemma session_encrypt_cases:
  assumes "saead_config c" "psa_sized psa" "sendable c b"
  obtains (fail) h' where "session_encrypt_block c psa p ss b h = Some (None, ss, h')" "bufs h' = bufs h"
      "malloc_ok h' = malloc_ok h"
      "malloc_ok h (mallocs h) \<longrightarrow>
         (\<forall>xs. psa_aead_encrypt psa p (ss_key ss) (ss_algorithm ss) (nonce_generate ss POUCH_ROLE_DEVICE) (block_ad ss)
           (drop 2 (contents b)) (pb_bytes b - 2 + AUTH_TAG_LEN) = Some xs \<longrightarrow> length xs \<noteq> pb_bytes b - 2 + AUTH_TAG_LEN)"
  | (ok) e h' xs where
      "session_encrypt_block c psa p ss b h =
         Some (Some e, ss\<lparr>ss_ad := drop (pb_bytes b - 2) xs, ss_block_index := ss_block_index ss + 1\<rparr>, h')"
      "bufs h' = bufs h + 1" "malloc_ok h' = malloc_ok h" "wf_buf e"
      "psa_aead_encrypt psa p (ss_key ss) (ss_algorithm ss) (nonce_generate ss POUCH_ROLE_DEVICE) (block_ad ss)
         (drop 2 (contents b)) (pb_bytes b - 2 + AUTH_TAG_LEN) = Some xs"
      "length xs = pb_bytes b - 2 + AUTH_TAG_LEN" "contents e = sys_put_be16 (word_of_nat (length xs)) @ xs"
proof -
  have b: "wf_buf b" "2 \<le> pb_bytes b" "pb_bytes b \<le> MAX_PLAINTEXT_BLOCK_SIZE c"
    "unat (sys_get_be16 (contents b)) = pb_bytes b - 2"
    using assms(3) by (auto simp: sendable_def framed_def)
  let ?v = "view_advance 2 (pouch_bufview_init (Some b))" and ?n = "pb_bytes b - 2"
  note fv = framed_view [OF b(1,2)]
  have rd: "pouch_bufview_read ?n ?v = Some (Some (bv_offset ?v), view_advance ?n ?v)"
    "bufview_deref (bv_offset ?v) ?n (view_advance ?n ?v) = Some (drop 2 (contents b))"
    using fv b by (simp_all add: pouch_bufview_read_eq bufview_read_eq(2))
  obtain ob h' where a: "buf_alloc (MAX_CIPHERTEXT_BLOCK_SIZE c) h = (ob, h')" by fastforce
  have h': "bufs h' = bufs h + own ob" "malloc_ok h' = malloc_ok h"
    using bufs_buf_alloc [OF a] a by (auto simp: buf_alloc_def malloc_def split: if_splits)
  show thesis
  proof (cases ob)
    case None
    then have "\<not> malloc_ok h (mallocs h)" using a by (auto simp: buf_alloc_def malloc_def split: if_splits)
    with None a h' show thesis by (intro fail [of h']) (simp_all add: session_encrypt_block_def)
  next
    case (Some e0)
    let ?sz = "sys_put_be16 (word_of_nat (?n + AUTH_TAG_LEN))"
    have e0: "wf_buf e0" "capacity e0 = MAX_CIPHERTEXT_BLOCK_SIZE c" "contents e0 = []" "pb_bytes e0 = 0"
      using buf_alloc_Some [OF a [unfolded Some]] valid_config_sizes assms(1) by (auto simp: saead_config_def)
    have room: "2 + (?n + AUTH_TAG_LEN) \<le> MAX_CIPHERTEXT_BLOCK_SIZE c"
      using b saead_sizes [OF assms(1)] by simp
    define e1 where "e1 = buf_append ?sz e0"
    have f1: "fits ?sz e0" "fits [0, 0] e0" using e0 room by (simp_all add: fits_def)
    then have e1: "pb_bytes e1 = 2" "capacity e1 = MAX_CIPHERTEXT_BLOCK_SIZE c" "contents e1 = ?sz" "wf_buf e1"
      using e0 by (simp_all add: e1_def buf_append_fields)
    let ?aead = "psa_aead_encrypt psa p (ss_key ss) (ss_algorithm ss) (nonce_generate ss POUCH_ROLE_DEVICE) (block_ad ss)
         (drop 2 (contents b)) (?n + AUTH_TAG_LEN)"
    have cl: "buf_claim e1 (?n + AUTH_TAG_LEN) = (2, e1\<lparr>pb_bytes := 2 + (?n + AUTH_TAG_LEN)\<rparr>)"
      using e1 room by (simp add: buf_claim_def wf_buf_def size_simps)
    let ?e2 = "e1\<lparr>pb_bytes := 2 + (?n + AUTH_TAG_LEN)\<rparr>"
    have eq: "session_encrypt_block c psa p ss b h =
      (case ?aead of
         None \<Rightarrow> Some (None, ss, buf_free (Some ?e2) h')
       | Some xs \<Rightarrow>
           do { encrypted \<leftarrow> buf_poke 2 xs ?e2;
                if length xs \<noteq> ?n + AUTH_TAG_LEN then Some (None, ss, buf_free (Some encrypted) h')
                else do {
                  tag \<leftarrow> buf_peek (2 + ?n) AUTH_TAG_LEN encrypted;
                  Some (Some encrypted, ss\<lparr>ss_ad := tag, ss_block_index := ss_block_index ss + 1\<rparr>, h') } })"
      using a Some fv rd b(4) block_size_write_eq [OF f1(2), of "word_of_nat (?n + AUTH_TAG_LEN)", folded e1_def] cl
      by (simp add: session_encrypt_block_def Let_def del: of_nat_add of_nat_diff cong: option.case_cong if_cong)
    show thesis
    proof (cases ?aead)
      case None
      with eq h' Some show thesis by (intro fail [of "buf_free (Some ?e2) h'"]) (simp_all add: buf_free_def)
    next
      case xs: (Some xs)
      have le: "length xs \<le> ?n + AUTH_TAG_LEN" using assms(2) xs by (rule psa_sizedD)
      show thesis
      proof (cases "length xs = ?n + AUTH_TAG_LEN")
        case False
        have "2 + length xs \<le> capacity e1" using le room e1 by simp
        then obtain e3 where "buf_poke 2 xs ?e2 = Some e3" by (simp add: buf_poke_def mem_write_def)
        with False eq xs h' Some show thesis
          by (intro fail [of "buf_free (Some e3) h'"]) (simp_all add: buf_free_def)
      next
        case len: True
        have fx: "fits xs e1" using e1 room len by (simp add: fits_def)
        have pk: "buf_poke 2 xs ?e2 = Some (buf_append xs e1)" using claim_poke(2) [OF fx] e1 len by simp
        have "pb_data (buf_append xs e1) = (contents e1 @ xs) @ drop (2 + length xs) (pb_data e1)"
          using buf_append_data [OF fx] e1(1) by simp
        then have "buf_peek (2 + ?n) AUTH_TAG_LEN (buf_append xs e1) = Some (drop ?n xs)"
          using e1 room len buf_append_fields(2,3) [OF fx]
          by (simp add: buf_peek_def mem_read_def wf_buf_def)
        with eq xs len pk h' Some e1 fx show thesis
          by (intro ok [of "buf_append xs e1" xs h']) (simp_all add: buf_append_fields del: of_nat_add of_nat_diff)
      qed
    qed
  qed
qed

subsection \<open>Decrypting\<close>

text \<open>A block of any shape that has its size field: a block that is not framed, or has no payload, is refused.\<close>

lemma session_decrypt_cases:
  assumes "saead_config c" "psa_sized psa" "wf_buf b" "2 \<le> pb_bytes b" "pb_bytes b \<le> MAX_CIPHERTEXT_BLOCK_SIZE c"
    "length (ss_ad ss) = AUTH_TAG_LEN"
  obtains (fail) h' where "session_decrypt_block c psa p ss (Some b) h = Some (None, ss, h')" "bufs h' = bufs h"
      "malloc_ok h' = malloc_ok h"
      "malloc_ok h (mallocs h) \<longrightarrow> framed (contents b) \<longrightarrow> AUTH_TAG_LEN + 2 < pb_bytes b \<longrightarrow>
         (\<forall>xs. psa_aead_decrypt psa p (ss_key ss) (ss_algorithm ss) (nonce_generate ss POUCH_ROLE_SERVER) (block_ad ss)
           (drop 2 (contents b)) (pb_bytes b - 2 - AUTH_TAG_LEN) = Some xs \<longrightarrow> length xs \<noteq> pb_bytes b - 2 - AUTH_TAG_LEN)"
  | (ok) d h' xs where
      "session_decrypt_block c psa p ss (Some b) h =
         Some (Some d, ss\<lparr>ss_ad := drop (pb_bytes b - AUTH_TAG_LEN) (contents b), ss_block_index := ss_block_index ss + 1,
           ss_flags := set_bit SESSION_VALID_FLAG (ss_flags ss)\<rparr>, h')"
      "bufs h' = bufs h + 1" "malloc_ok h' = malloc_ok h" "wf_buf d" "framed (contents b)" "AUTH_TAG_LEN + 2 < pb_bytes b"
      "psa_aead_decrypt psa p (ss_key ss) (ss_algorithm ss) (nonce_generate ss POUCH_ROLE_SERVER) (block_ad ss)
         (drop 2 (contents b)) (pb_bytes b - 2 - AUTH_TAG_LEN) = Some xs"
      "length xs = pb_bytes b - 2 - AUTH_TAG_LEN" "contents d = sys_put_be16 (word_of_nat (length xs)) @ xs"
proof -
  let ?v = "view_advance 2 (pouch_bufview_init (Some b))" and ?n = "pb_bytes b - 2"
  let ?m = "pb_bytes b - 2 - AUTH_TAG_LEN"
  note fv = framed_view [OF assms(3,4)]
  obtain ob h' where a: "buf_alloc (MAX_PLAINTEXT_BLOCK_SIZE c) h = (ob, h')" by fastforce
  have h': "bufs h' = bufs h + own ob" "malloc_ok h' = malloc_ok h"
    using bufs_buf_alloc [OF a] a by (auto simp: buf_alloc_def malloc_def split: if_splits)
  consider (nomem) "ob = None"
    | (bad) d0 where "ob = Some d0" "unat (sys_get_be16 (contents b)) \<le> AUTH_TAG_LEN \<or> unat (sys_get_be16 (contents b)) \<noteq> ?n"
    | (go) d0 where "ob = Some d0" "AUTH_TAG_LEN < ?n" "unat (sys_get_be16 (contents b)) = ?n" by (cases ob) force+
  then show thesis
  proof cases
    case nomem
    then have "\<not> malloc_ok h (mallocs h)" using a by (auto simp: buf_alloc_def malloc_def split: if_splits)
    with a h' nomem show thesis by (intro fail [of h']) (simp_all add: session_decrypt_block_def)
  next
    case (bad d0)
    then have "session_decrypt_block c psa p ss (Some b) h = Some (None, ss, buf_free (Some d0) h')"
      using a fv by (simp add: session_decrypt_block_def Let_def)
    with h' bad assms(3) show thesis by (intro fail [of "buf_free (Some d0) h'"]) (auto simp: buf_free_def framed_def)
  next
    case (go d0)
    let ?sz = "sys_put_be16 (word_of_nat ?m)"
    have d0: "wf_buf d0" "capacity d0 = MAX_PLAINTEXT_BLOCK_SIZE c" "contents d0 = []" "pb_bytes d0 = 0"
      using buf_alloc_Some [OF a [unfolded go]] valid_config_sizes assms(1) by (auto simp: saead_config_def)
    have room: "2 + ?m \<le> MAX_PLAINTEXT_BLOCK_SIZE c"
      using assms(5) go(2) saead_sizes [OF assms(1)] by simp
    define d1 where "d1 = buf_append ?sz d0"
    have f1: "fits ?sz d0" "fits [0, 0] d0" using d0 room by (simp_all add: fits_def)
    then have d1: "pb_bytes d1 = 2" "capacity d1 = MAX_PLAINTEXT_BLOCK_SIZE c" "contents d1 = ?sz" "wf_buf d1"
      using d0 by (simp_all add: d1_def buf_append_fields)
    have rd: "pouch_bufview_read ?m ?v = Some (Some (bv_offset ?v), view_advance ?m ?v)"
      "bufview_deref (bv_offset ?v) ?n (view_advance ?m ?v) = Some (drop 2 (contents b))"
      using fv assms(3) by (simp_all add: pouch_bufview_read_eq bufview_read_eq(2))
    have tag: "pouch_bufview_memcpy AUTH_TAG_LEN (view_advance ?m ?v)
        = Some (drop (pb_bytes b - AUTH_TAG_LEN) (contents b), view_advance AUTH_TAG_LEN (view_advance ?m ?v))"
    proof -
      have "?m + 2 = pb_bytes b - AUTH_TAG_LEN" using go(2) by linarith
      then show ?thesis using fv assms(3,4) go(2) by (simp add: pouch_bufview_memcpy_eq)
    qed
    have cl: "buf_claim d1 ?m = (2, d1\<lparr>pb_bytes := 2 + ?m\<rparr>)"
      using d1 room by (simp add: buf_claim_def wf_buf_def size_simps)
    let ?d2 = "d1\<lparr>pb_bytes := 2 + ?m\<rparr>"
    let ?aead = "psa_aead_decrypt psa p (ss_key ss) (ss_algorithm ss) (nonce_generate ss POUCH_ROLE_SERVER) (block_ad ss)
         (drop 2 (contents b)) ?m"
    have eq: "session_decrypt_block c psa p ss (Some b) h =
      (case ?aead of
         None \<Rightarrow> Some (None, ss, buf_free (Some ?d2) h')
       | Some xs \<Rightarrow>
           do { decrypted \<leftarrow> buf_poke 2 xs ?d2;
                if length xs \<noteq> ?m then Some (None, ss, buf_free (Some decrypted) h')
                else Some (Some decrypted, ss\<lparr>ss_ad := drop (pb_bytes b - AUTH_TAG_LEN) (contents b),
                  ss_block_index := ss_block_index ss + 1, ss_flags := set_bit SESSION_VALID_FLAG (ss_flags ss)\<rparr>, h') })"
      using a go fv rd tag cl assms(3,4,6) block_size_write_eq [OF f1(2), of "word_of_nat ?m", folded d1_def]
      by (simp add: session_decrypt_block_def Let_def del: of_nat_add of_nat_diff cong: option.case_cong if_cong)
    show thesis
    proof (cases ?aead)
      case None
      with eq h' go show thesis by (intro fail [of "buf_free (Some ?d2) h'"]) (simp_all add: buf_free_def)
    next
      case xs: (Some xs)
      have le: "length xs \<le> ?m" using assms(2) xs by (rule psa_sizedD)
      show thesis
      proof (cases "length xs = ?m")
        case False
        have "2 + length xs \<le> capacity d1" using le room d1 by simp
        then obtain d3 where "buf_poke 2 xs ?d2 = Some d3" by (simp add: buf_poke_def mem_write_def)
        with False eq xs h' go show thesis
          by (intro fail [of "buf_free (Some d3) h'"]) (simp_all add: buf_free_def)
      next
        case len: True
        have fx: "fits xs d1" using d1 room len by (simp add: fits_def)
        have pk: "buf_poke 2 xs ?d2 = Some (buf_append xs d1)" using claim_poke(2) [OF fx] d1 len by simp
        have "framed (contents b)" "AUTH_TAG_LEN + 2 < pb_bytes b" using assms(3,4) go(2,3) by (simp_all add: framed_def)
        with eq xs len pk h' go d1 fx show thesis
          by (intro ok [of "buf_append xs d1" h' xs]) (simp_all add: buf_append_fields del: of_nat_add of_nat_diff)
      qed
    qed
  qed
qed

text \<open>A decrypted block is framed, whatever the plaintext.\<close>

lemma framed_sized: "length xs < 65536 \<Longrightarrow> framed (sys_put_be16 (word_of_nat (length xs)) @ xs)"
  by (simp add: framed_def)

subsection \<open>Runs of encryption\<close>

text \<open>Encrypting a list of blocks in one session, with the nonces of the blocks that were produced.\<close>

fun encrypt_run ::
  "config \<Rightarrow> 'p psa_ops \<Rightarrow> 'p \<Rightarrow> pouch_buf list \<Rightarrow> session \<Rightarrow> heap \<Rightarrow> (byte list list \<times> session \<times> heap) option" where
  "encrypt_run c psa p [] ss h = Some ([], ss, h)"
| "encrypt_run c psa p (b # bs) ss h =
     do { (r, ss', h) \<leftarrow> session_encrypt_block c psa p ss b h;
          (ns, ss'', h) \<leftarrow> encrypt_run c psa p bs ss' h;
          Some (if r = None then ns else nonce_generate ss POUCH_ROLE_DEVICE # ns, ss'', h) }"

lemma unat_index_add: "unat (i :: u32) + n < 2 ^ 32 \<Longrightarrow> unat (i + word_of_nat n) = unat i + n"
  by (simp add: unat_word_ariths unat_of_nat)

lemma encrypt_run_nonces:
  assumes "saead_config c" "psa_sized psa" "list_all (sendable c) bs" "unat (ss_block_index ss) + length bs < 2 ^ 32"
  shows "\<exists>ns ss' h'. encrypt_run c psa p bs ss h = Some (ns, ss', h') \<and> length ns \<le> length bs
    \<and> ns = map (\<lambda>k. nonce_generate (ss\<lparr>ss_block_index := ss_block_index ss + word_of_nat k\<rparr>) POUCH_ROLE_DEVICE) [0..<length ns]
    \<and> ss_pouch_id ss' = ss_pouch_id ss \<and> ss_block_index ss' = ss_block_index ss + word_of_nat (length ns)"
  using assms(3,4)
proof (induction bs arbitrary: ss h)
  case Nil
  then show ?case by simp
next
  case (Cons b bs)
  have "sendable c b" using Cons.prems by simp
  with assms(1,2) show ?case
  proof (cases rule: session_encrypt_cases [where p = p and ss = ss and h = h])
    case (fail h')
    with Cons.prems Cons.IH [of ss h'] show ?thesis by fastforce
  next
    case (ok e h' xs)
    let ?ss = "ss\<lparr>ss_ad := drop (pb_bytes b - 2) xs, ss_block_index := ss_block_index ss + 1\<rparr>"
    have "unat (ss_block_index ?ss) = unat (ss_block_index ss) + 1"
      using unat_index_add [of "ss_block_index ss" 1] Cons.prems(2) by simp
    then obtain ns ss' h2 where r: "encrypt_run c psa p bs ?ss h' = Some (ns, ss', h2)" "length ns \<le> length bs"
      "ns = map (\<lambda>k. nonce_generate (?ss\<lparr>ss_block_index := ss_block_index ?ss + word_of_nat k\<rparr>) POUCH_ROLE_DEVICE) [0..<length ns]"
      "ss_pouch_id ss' = ss_pouch_id ss" "ss_block_index ss' = ss_block_index ss + 1 + word_of_nat (length ns)"
      using Cons.IH [of ?ss h'] Cons.prems by fastforce
    have nn: "nonce_generate (?ss\<lparr>ss_block_index := i\<rparr>) x = nonce_generate (ss\<lparr>ss_block_index := i\<rparr>) x" for i x
      by (simp add: nonce_generate_def)
    have "nonce_generate ss POUCH_ROLE_DEVICE # ns =
        map (\<lambda>k. nonce_generate (ss\<lparr>ss_block_index := ss_block_index ss + word_of_nat k\<rparr>) POUCH_ROLE_DEVICE) [0..<Suc (length ns)]"
      by (subst r(3)) (simp add: nonce_generate_def map_upt_Suc add.assoc add.commute add.left_commute del: upt_Suc)
    with ok(1) r show ?thesis by (simp add: add.assoc add.commute)
  qed
qed

end
