(* ===== verification/Downlink.thy ===== *)
theory Downlink
  imports Streams
begin

text \<open>
  The downlink, \<^verbatim>\<open>src/downlink.c\<close>: the transport pushes bytes in pieces of any size, the header is parsed as
  soon as it decodes, the rest is cut into blocks that two work items decrypt and hand to the entry
  and stream handlers. The local view aliases the static buffer; where the code moves the bytes of the
  buffer under the view, the model lets the view continue on the moved buffer.

  Shown here: no byte is lost or reordered between what is pushed and what is queued, every queued
  block is framed, and the block that stays behind when two of them arrive in one push.
\<close>

section \<open>State\<close>

record 'c downlink =
  dl_buf :: "pouch_buf option"
  dl_header :: bool
  dl_decrypt_queue :: pouch_buf_queue
  dl_decrypt_work :: bool
  dl_consume_queue :: pouch_buf_queue
  dl_consume_work :: bool
  dl_heap :: heap
  dl_crypto :: 'c

section \<open>Operations\<close>

definition downlink_init :: "'c downlink \<Rightarrow> 'c downlink" where
  "downlink_init d = d\<lparr>dl_decrypt_queue := buf_queue_init, dl_decrypt_work := False,
     dl_consume_queue := buf_queue_init, dl_consume_work := False\<rparr>"

definition consume_blocks ::
  "'a pouch_downlink_handler list \<Rightarrow> 'c downlink \<Rightarrow> 'a \<Rightarrow> ('c downlink \<times> 'a) option" where
  "consume_blocks hs d a =
     (case buf_queue_get (dl_consume_queue d) of
        (None, q) \<Rightarrow> Some (d, a)
      | (Some b, q) \<Rightarrow>
          do { let d = d\<lparr>dl_consume_queue := q\<rparr>;
               a \<leftarrow> pouch_downlink_block_push hs b a;
               let d = d\<lparr>dl_heap := buf_free (Some b) (dl_heap d)\<rparr>;
               Some (if \<not> buf_queue_is_empty (dl_consume_queue d) then d\<lparr>dl_consume_work := True\<rparr> else d, a) })"

definition decrypt_blocks :: "'c crypto_ops \<Rightarrow> 'c downlink \<Rightarrow> 'c downlink option" where
  "decrypt_blocks ops d =
     (case buf_queue_get (dl_decrypt_queue d) of (b, q) \<Rightarrow>
        do { let d = d\<lparr>dl_decrypt_queue := q\<rparr>;
             (decrypted, h, cr) \<leftarrow> crypto_decrypt_block ops b (dl_heap d) (dl_crypto d);
             let d = d\<lparr>dl_heap := h, dl_crypto := cr\<rparr>;
             case decrypted of
               None \<Rightarrow> Some d
             | Some x \<Rightarrow>
                 do { let d = d\<lparr>dl_consume_queue := buf_queue_submit (dl_consume_queue d) x, dl_consume_work := True\<rparr>;
                      Some (if \<not> buf_queue_is_empty (dl_decrypt_queue d) then d\<lparr>dl_decrypt_work := True\<rparr> else d) } })"

text \<open>The work queues run an item that has been submitted.\<close>

definition run_decrypt_work :: "'c crypto_ops \<Rightarrow> 'c downlink \<Rightarrow> 'c downlink option" where
  "run_decrypt_work ops d =
     (if dl_decrypt_work d then decrypt_blocks ops (d\<lparr>dl_decrypt_work := False\<rparr>) else Some d)"

definition run_consume_work ::
  "'a pouch_downlink_handler list \<Rightarrow> 'c downlink \<Rightarrow> 'a \<Rightarrow> ('c downlink \<times> 'a) option" where
  "run_consume_work hs d a =
     (if dl_consume_work d then consume_blocks hs (d\<lparr>dl_consume_work := False\<rparr>) a else Some (d, a))"

text \<open>The two statements of \<^verbatim>\<open>block_downlink_push\<close>.\<close>

definition decrypt_submit :: "pouch_buf \<Rightarrow> 'c downlink \<Rightarrow> 'c downlink" where
  "decrypt_submit b d = d\<lparr>dl_decrypt_queue := buf_queue_submit (dl_decrypt_queue d) b\<rparr>"

definition decrypt_work_submit :: "'c downlink \<Rightarrow> 'c downlink" where
  "decrypt_work_submit d = d\<lparr>dl_decrypt_work := True\<rparr>"

definition block_downlink_push :: "pouch_buf \<Rightarrow> 'c downlink \<Rightarrow> 'c downlink" where
  "block_downlink_push b d = decrypt_work_submit (decrypt_submit b d)"

definition pouch_downlink_start :: "config \<Rightarrow> 'c downlink \<Rightarrow> 'c downlink" where
  "pouch_downlink_start c d =
     (case buf_alloc (MAX_CIPHERTEXT_BLOCK_SIZE c) (dl_heap d) of (b, h) \<Rightarrow>
        d\<lparr>dl_header := False, dl_buf := b, dl_heap := h\<rparr>)"

text \<open>The result code, the length of the header, and the crypto module after it.\<close>

definition pouch_downlink_parse_header ::
  "header_codec \<Rightarrow> 'c crypto_ops \<Rightarrow> pouch_bufview \<Rightarrow> 'c \<Rightarrow> (ret \<times> nat \<times> 'c) option" where
  "pouch_downlink_parse_header codec ops v cr =
     do { (header_raw, v) \<leftarrow> pouch_bufview_read 0 v;
          raw \<leftarrow> view_bytes header_raw (pouch_bufview_available v) v;
          raw \<leftarrow> raw;
          case cbor_decode_pouch_header codec raw of
            None \<Rightarrow> Some (Err EIO, 0, cr)
          | Some (header, header_len) \<Rightarrow>
              do { (err, cr) \<leftarrow> crypto_downlink_start ops (ph_encryption_info header) cr;
                   Some (err, header_len, cr) } }"

text \<open>The first half of the loop body: the header, if it has not been seen. False is a return.\<close>

definition push_header ::
  "header_codec \<Rightarrow> 'c crypto_ops \<Rightarrow> pouch_buf \<Rightarrow> 'c downlink \<Rightarrow> (bool \<times> pouch_buf \<times> 'c downlink) option" where
  "push_header codec ops b d =
     (if dl_header d then Some (True, b, d)
      else do { (err, header_len, cr) \<leftarrow> pouch_downlink_parse_header codec ops (pouch_bufview_init (Some b)) (dl_crypto d);
                let d = d\<lparr>dl_crypto := cr\<rparr>;
                if err \<noteq> OK then Some (False, b, d)
                else do { (_, b) \<leftarrow> buf_trim_start header_len b;
                          Some (True, b, d\<lparr>dl_header := True, dl_buf := Some b\<rparr>) } })"

text \<open>The second half: a block, if the buffer holds a whole one.\<close>

definition push_block :: "config \<Rightarrow> pouch_buf \<Rightarrow> 'c downlink \<Rightarrow> (bool \<times> 'c downlink) option" where
  "push_block c b d =
     do { let v = pouch_bufview_init (Some b);
          if pouch_bufview_available v > 2
          then do {
            (block_size, v) \<leftarrow> pouch_bufview_read_be16 v;
            let n = unat block_size;
            if n > MAX_BLOCK_SIZE_FIELD_VALUE c then Some (False, d)
            else if pouch_bufview_available v \<ge> n
            then (case buf_alloc (MAX_CIPHERTEXT_BLOCK_SIZE c) (dl_heap d) of (fresh, h) \<Rightarrow>
              do { let d = d\<lparr>dl_heap := h\<rparr>;
                   (fresh, to_send) \<leftarrow>
                     (case fresh of
                        None \<Rightarrow> Some (None, b)
                      | Some f \<Rightarrow>
                          if pouch_bufview_available v > n
                          then do { (remaining, v) \<leftarrow> pouch_bufview_read 0 v;
                                    remaining \<leftarrow> remaining;
                                    let remaining_len = pouch_bufview_available v - n;
                                    xs \<leftarrow> bufview_deref (remaining + n) remaining_len v;
                                    f \<leftarrow> buf_write xs f;
                                    Some (Some f, snd (buf_trim_end remaining_len b)) }
                          else Some (Some f, b));
                   Some (True, block_downlink_push to_send (d\<lparr>dl_buf := fresh\<rparr>)) })
            else Some (True, d) }
          else Some (True, d) }"

function pouch_downlink_push ::
  "config \<Rightarrow> header_codec \<Rightarrow> 'c crypto_ops \<Rightarrow> byte list \<Rightarrow> 'c downlink \<Rightarrow> 'c downlink option" where
  "pouch_downlink_push c codec ops buf d =
     (if buf = [] then Some d
      else case dl_buf d of
        None \<Rightarrow> Some d
      | Some b \<Rightarrow>
          if buf_size_get b \<ge> MAX_CIPHERTEXT_BLOCK_SIZE c then Some d
          else let n = min (length buf) (MAX_CIPHERTEXT_BLOCK_SIZE c - buf_size_get b) in
            (case buf_write (take n buf) b of
               None \<Rightarrow> None
             | Some b \<Rightarrow>
                 (case push_header codec ops b (d\<lparr>dl_buf := Some b\<rparr>) of
                    None \<Rightarrow> None
                  | Some (go, b, d) \<Rightarrow>
                      if \<not> go then Some d
                      else (case push_block c b d of
                              None \<Rightarrow> None
                            | Some (go, d) \<Rightarrow>
                                if \<not> go then Some d else pouch_downlink_push c codec ops (drop n buf) d))))"
  by pat_completeness auto
termination
  by (relation "measure (\<lambda>(c, codec, ops, buf, d). length buf)") auto

declare pouch_downlink_push.simps [simp del]

definition pouch_downlink_finish :: "'c downlink \<Rightarrow> 'c downlink" where
  "pouch_downlink_finish d = d"

section \<open>Invariant and accounting\<close>

text \<open>A block as received: at least its size field is there, and it fits into a receive buffer.\<close>

definition received :: "config \<Rightarrow> pouch_buf \<Rightarrow> bool" where
  "received c b \<longleftrightarrow> wf_buf b \<and> 2 \<le> pb_bytes b \<and> pb_bytes b \<le> MAX_CIPHERTEXT_BLOCK_SIZE c"

definition rx_buf_ok :: "config \<Rightarrow> pouch_buf option \<Rightarrow> bool" where
  "rx_buf_ok c ob = (case ob of None \<Rightarrow> True | Some b \<Rightarrow> wf_buf b \<and> capacity b = MAX_CIPHERTEXT_BLOCK_SIZE c)"

text \<open>The size field at the front announces more than is supported.\<close>

definition oversize :: "config \<Rightarrow> byte list \<Rightarrow> bool" where
  "oversize c xs \<longleftrightarrow> 2 < length xs \<and> MAX_BLOCK_SIZE_FIELD_VALUE c < unat (sys_get_be16 xs)"

text \<open>Behind the header the buffer never fills up, unless the stream has gone wrong.\<close>

definition rx_room :: "config \<Rightarrow> 'c downlink \<Rightarrow> bool" where
  "rx_room c d = (dl_header d \<longrightarrow>
     (case dl_buf d of None \<Rightarrow> True | Some b \<Rightarrow> pb_bytes b < MAX_CIPHERTEXT_BLOCK_SIZE c \<or> oversize c (contents b)))"

definition downlink_core :: "config \<Rightarrow> ('c \<Rightarrow> bool) \<Rightarrow> 'c downlink \<Rightarrow> bool" where
  "downlink_core c cinv d \<longleftrightarrow>
     cinv (dl_crypto d) \<and> rx_buf_ok c (dl_buf d)
     \<and> list_all (received c) (dl_decrypt_queue d) \<and> list_all wf_buf (dl_consume_queue d)
     \<and> (dl_decrypt_work d \<longrightarrow> dl_decrypt_queue d \<noteq> [])
     \<and> (dl_consume_queue d \<noteq> [] \<longrightarrow> dl_consume_work d)"

definition downlink_inv :: "config \<Rightarrow> ('c \<Rightarrow> bool) \<Rightarrow> 'c downlink \<Rightarrow> bool" where
  "downlink_inv c cinv d \<longleftrightarrow> downlink_core c cinv d \<and> rx_room c d"

definition dl_balance :: "'c downlink \<Rightarrow> int" where
  "dl_balance d = bufs (dl_heap d) - own (dl_buf d) - int (length (dl_decrypt_queue d)) - int (length (dl_consume_queue d))"

text \<open>The bytes received behind the header that are not yet part of a queued block.\<close>

definition rx_bytes :: "'c downlink \<Rightarrow> byte list" where
  "rx_bytes d = (case dl_buf d of None \<Rightarrow> [] | Some b \<Rightarrow> contents b)"

section \<open>Lemmas\<close>

lemma push_header_cases:
  fixes d :: "'c downlink"
  assumes "wf_buf b" "\<forall>info. crypto_downlink_start ops info (dl_crypto d) \<noteq> None"
  obtains (seen) "dl_header d" "push_header codec ops b d = Some (True, b, d)"
  | (fail) cr where "\<not> dl_header d" "push_header codec ops b d = Some (False, b, d\<lparr>dl_crypto := cr\<rparr>)"
      "cr = dl_crypto d \<or> (\<exists>info r. crypto_downlink_start ops info (dl_crypto d) = Some (r, cr))"
  | (ok) b' hdr len cr where "\<not> dl_header d" "cbor_decode_pouch_header codec (contents b) = Some (hdr, len)"
      "crypto_downlink_start ops (ph_encryption_info hdr) (dl_crypto d) = Some (OK, cr)"
      "push_header codec ops b d = Some (True, b', d\<lparr>dl_crypto := cr, dl_header := True, dl_buf := Some b'\<rparr>)"
      "wf_buf b'" "capacity b' = capacity b" "contents b' = drop len (contents b)"
proof (cases "dl_header d")
  case True
  then show thesis by (intro seen) (simp_all add: push_header_def)
next
  case False
  let ?v = "pouch_bufview_init (Some b)"
  have v: "view_ok ?v" using assms(1) by simp
  have "bufview_deref 0 (pb_bytes b) ?v = Some (contents b)"
    using bufview_read_eq(2) [OF v, of "pb_bytes b" 0] assms(1)
    by simp (simp add: pouch_bufview_init_def)
  then have p: "pouch_downlink_parse_header codec ops ?v (dl_crypto d) =
      (case cbor_decode_pouch_header codec (contents b) of
         None \<Rightarrow> Some (Err EIO, 0, dl_crypto d)
       | Some (header, header_len) \<Rightarrow>
           do { (err, cr) \<leftarrow> crypto_downlink_start ops (ph_encryption_info header) (dl_crypto d);
                Some (err, header_len, cr) })"
    using v assms(1) by (simp add: pouch_downlink_parse_header_def pouch_bufview_read_eq view_bytes_def view_available)
       (simp add: pouch_bufview_init_def)
  show thesis
  proof (cases "cbor_decode_pouch_header codec (contents b)")
    case None
    with False p show thesis by (intro fail [of "dl_crypto d"]) (simp_all add: push_header_def)
  next
    case (Some r)
    obtain hdr len where r: "r = (hdr, len)" by (cases r)
    obtain err cr where e: "crypto_downlink_start ops (ph_encryption_info hdr) (dl_crypto d) = Some (err, cr)"
      using assms(2) by fastforce
    obtain b' where t: "buf_trim_start len b = Some (min len (pb_bytes b), b')" "wf_buf b'"
      "contents b' = drop len (contents b)" "capacity b' = capacity b"
      using buf_trim_start_eq [OF assms(1), of len] by auto
    show thesis
    proof (cases "err = OK")
      case True
      with False Some r e t p show thesis
        by (intro ok [of hdr len cr b']) (simp_all add: push_header_def Let_def)
    next
      case err: False
      from err False Some r e p have "push_header codec ops b d = Some (False, b, d\<lparr>dl_crypto := cr\<rparr>)"
        by (simp add: push_header_def Let_def)
      moreover have "\<exists>info r. crypto_downlink_start ops info (dl_crypto d) = Some (r, cr)"
        using e by blast
      ultimately show thesis using False by (intro fail [of cr]) simp_all
    qed
  qed
qed

lemma push_block_cases:
  fixes d :: "'c downlink"
  assumes "valid_config c" "wf_buf b" "capacity b = MAX_CIPHERTEXT_BLOCK_SIZE c" "dl_buf d = Some b"
  obtains (wait) "push_block c b d = Some (True, d)" "\<not> oversize c (contents b)"
      "pb_bytes b \<le> 2 \<or> pb_bytes b < unat (sys_get_be16 (contents b)) + 2"
  | (over) "push_block c b d = Some (False, d)" "oversize c (contents b)"
  | (nomem) h where "push_block c b d = Some (True, block_downlink_push b (d\<lparr>dl_heap := h, dl_buf := None\<rparr>))"
      "bufs h = bufs (dl_heap d)" "malloc_ok h = malloc_ok (dl_heap d)" "\<not> (\<forall>n. malloc_ok (dl_heap d) n)" "2 < pb_bytes b"
  | (block) h b' f where "push_block c b d = Some (True, block_downlink_push b' (d\<lparr>dl_heap := h, dl_buf := Some f\<rparr>))"
      "bufs h = bufs (dl_heap d) + 1" "malloc_ok h = malloc_ok (dl_heap d)" "received c b'" "framed (contents b')"
      "wf_buf f" "capacity f = MAX_CIPHERTEXT_BLOCK_SIZE c" "contents b = contents b' @ contents f"
proof -
  let ?v = "pouch_bufview_init (Some b)"
  define n where "n = unat (sys_get_be16 (contents b))"
  have v: "view_ok ?v" "view_rest ?v = contents b" "length (contents b) = pb_bytes b" using assms(2) by simp_all
  have le: "pb_bytes b \<le> MAX_CIPHERTEXT_BLOCK_SIZE c" using assms(2,3) by (simp add: wf_buf_def)
  consider (w1) "pb_bytes b \<le> 2" | (o) "2 < pb_bytes b" "MAX_BLOCK_SIZE_FIELD_VALUE c < n"
    | (w2) "2 < pb_bytes b" "n \<le> MAX_BLOCK_SIZE_FIELD_VALUE c" "pb_bytes b < n + 2"
    | (b) "2 < pb_bytes b" "n \<le> MAX_BLOCK_SIZE_FIELD_VALUE c" "n + 2 \<le> pb_bytes b" by linarith
  then show thesis
  proof cases
    case w1
    with v show thesis by (intro wait) (simp_all add: push_block_def view_available oversize_def)
  next
    case o
    with v show thesis
      by (intro over) (simp_all add: push_block_def view_reads oversize_def n_def [symmetric])
  next
    case w2
    then have "\<not> n \<le> pb_bytes b - 2" by linarith
    with w2 v show thesis
      by (intro wait) (simp_all add: push_block_def view_reads oversize_def n_def [symmetric])
  next
    case b
    let ?w = "view_advance 2 ?v"
    have w: "view_ok ?w" "view_rest ?w = drop 2 (contents b)" using v b by simp_all
    obtain ob h where a: "buf_alloc (MAX_CIPHERTEXT_BLOCK_SIZE c) (dl_heap d) = (ob, h)" by fastforce
    have h: "bufs h = bufs (dl_heap d) + own ob" "malloc_ok h = malloc_ok (dl_heap d)"
      "ob = None \<Longrightarrow> \<not> malloc_ok (dl_heap d) (mallocs (dl_heap d))"
      using bufs_buf_alloc [OF a] a by (auto simp: buf_alloc_def malloc_def split: if_splits)
    have nle: "n \<le> pb_bytes b - 2" using b by linarith
    show thesis
    proof (cases ob)
      case None
      with a b nle v show thesis
        by (intro nomem [of h]) (use h None in \<open>auto simp: push_block_def view_reads Let_def n_def [symmetric]\<close>)
    next
      case (Some f)
      have f: "wf_buf f" "capacity f = MAX_CIPHERTEXT_BLOCK_SIZE c" "contents f = []" "pb_bytes f = 0"
        using buf_alloc_Some [OF a [unfolded Some]] valid_config_sizes [OF assms(1)] by auto
      show thesis
      proof (cases "n < pb_bytes b - 2")
        case False
        then have e: "pb_bytes b = n + 2" using nle b by linarith
        have "push_block c b d = Some (True, block_downlink_push b (d\<lparr>dl_heap := h, dl_buf := Some f\<rparr>))"
          using a b nle v Some e by (simp add: push_block_def view_reads Let_def n_def [symmetric])
        moreover have "framed (contents b)" "received c b"
          using e b le v assms(2) by (simp_all add: framed_def received_def n_def)
        ultimately show thesis using h Some f by (intro block [of b f h]) simp_all
      next
        case True
        let ?m = "pb_bytes b - 2 - n" and ?xs = "drop (n + 2) (contents b)"
        obtain m b' where t: "buf_trim_end ?m b = (m, b')" by fastforce
        have b': "wf_buf b'" "contents b' = take (n + 2) (contents b)" "pb_bytes b' = n + 2"
          using buf_trim_end_eq [OF assms(2) _ t] True b by (simp_all add: Suc_diff_Suc)
        have bo: "bv_offset ?v = 0" by (simp add: pouch_bufview_init_def)
        have xs: "bufview_deref (2 + n) ?m ?w = Some ?xs"
          using assms(2) b True by (auto simp: view_advance_def pouch_bufview_init_def bufview_deref_def buf_peek_def
              mem_read_def contents_def drop_take wf_buf_def)
        have fx: "fits ?xs f" using f le v by (simp add: fits_def)
        have "push_block c b d = Some (True, block_downlink_push b' (d\<lparr>dl_heap := h, dl_buf := Some (buf_append ?xs f)\<rparr>))"
          using a b nle v Some True w xs t fx bo
          by (simp add: push_block_def view_reads Let_def n_def [symmetric] view_advance_def buf_write_eq)
        moreover have "framed (contents b')" "received c b'" "contents b = contents b' @ contents (buf_append ?xs f)"
          using b' b le v f fx by (simp_all add: framed_def received_def n_def buf_append_fields sys_get_be16_def)
        ultimately show thesis
          using h Some f fx by (intro block [of b' "buf_append ?xs f" h]) (simp_all add: buf_append_fields)
      qed
    qed
  qed
qed

text \<open>One call of push: the blocks \<open>bs\<close> it queues, with the bytes of the header \<open>pre\<close> and those it did not take \<open>rest\<close>.\<close>

definition push_post ::
  "config \<Rightarrow> ('c \<Rightarrow> bool) \<Rightarrow> byte list \<Rightarrow> 'c downlink \<Rightarrow> pouch_buf list \<Rightarrow> 'c downlink \<Rightarrow> bool" where
  "push_post c cinv buf d bs d' \<longleftrightarrow>
     downlink_inv c cinv d' \<and> dl_balance d' = dl_balance d \<and> dl_decrypt_queue d' = dl_decrypt_queue d @ bs
     \<and> dl_consume_queue d' = dl_consume_queue d \<and> malloc_ok (dl_heap d') = malloc_ok (dl_heap d)
     \<and> (dl_header d \<longrightarrow> dl_header d')
     \<and> ((\<forall>n. malloc_ok (dl_heap d) n) \<and> dl_buf d \<noteq> None \<longrightarrow>
         dl_buf d' \<noteq> None \<and> list_all (\<lambda>b. framed (contents b)) bs
         \<and> (\<exists>pre rest. rx_bytes d @ buf = pre @ concat (map contents bs) @ rx_bytes d' @ rest
              \<and> (dl_header d \<longrightarrow> pre = []) \<and> (\<not> dl_header d' \<longrightarrow> pre = [] \<and> bs = [])
              \<and> (dl_header d' \<longrightarrow> rest = [] \<or> oversize c (rx_bytes d'))))"

lemma push_post_headerD:
  assumes "push_post c cinv buf d bs d'" "dl_header d" "\<forall>n. malloc_ok (dl_heap d) n" "dl_buf d \<noteq> None"
  shows "\<exists>rest. rx_bytes d @ buf = concat (map contents bs) @ rx_bytes d' @ rest \<and> (rest = [] \<or> oversize c (rx_bytes d'))
    \<and> list_all (\<lambda>b. framed (contents b)) bs \<and> dl_buf d' \<noteq> None \<and> dl_header d'"
proof -
  have h: "dl_header d'" using assms(1,2) by (simp add: push_post_def)
  obtain pre rest where "rx_bytes d @ buf = pre @ concat (map contents bs) @ rx_bytes d' @ rest" "pre = []"
    "rest = [] \<or> oversize c (rx_bytes d')" "list_all (\<lambda>b. framed (contents b)) bs" "dl_buf d' \<noteq> None"
    using assms h unfolding push_post_def by blast
  with h show ?thesis by (intro exI [of _ rest]) simp
qed

lemma push_post_append:
  assumes "push_post c cinv xs d bs1 d1" and h: "dl_header d1"
    and "push_post c cinv ys d1 bs2 d2"
    and "(\<forall>n. malloc_ok (dl_heap d) n) \<and> dl_buf d \<noteq> None \<longrightarrow>
       (\<exists>pre. rx_bytes d @ xs = pre @ concat (map contents bs1) @ rx_bytes d1 \<and> (dl_header d \<longrightarrow> pre = []))"
  shows "push_post c cinv (xs @ ys) d (bs1 @ bs2) d2"
  unfolding push_post_def
proof (intro conjI impI)
  assume g: "(\<forall>n. malloc_ok (dl_heap d) n) \<and> dl_buf d \<noteq> None"
    then have g1: "(\<forall>n. malloc_ok (dl_heap d1) n) \<and> dl_buf d1 \<noteq> None" using assms(1) by (simp add: push_post_def)
    obtain pre where a: "rx_bytes d @ xs = pre @ concat (map contents bs1) @ rx_bytes d1" "dl_header d \<longrightarrow> pre = []"
      using assms(4) g by blast
    obtain pre' rest where b: "rx_bytes d1 @ ys = pre' @ concat (map contents bs2) @ rx_bytes d2 @ rest" "pre' = []"
      "rest = [] \<or> oversize c (rx_bytes d2)"
      using assms(3) g1 h unfolding push_post_def by blast
    have "rx_bytes d @ xs @ ys = pre @ concat (map contents (bs1 @ bs2)) @ rx_bytes d2 @ rest"
      using a(1) b(1,2) by (simp flip: append_assoc) (simp add: append_assoc)
    with a(2) b(3) assms(3) h show "\<exists>pre rest. rx_bytes d @ xs @ ys = pre @ concat (map contents (bs1 @ bs2)) @ rx_bytes d2 @ rest
              \<and> (dl_header d \<longrightarrow> pre = []) \<and> (\<not> dl_header d2 \<longrightarrow> pre = [] \<and> bs1 @ bs2 = [])
              \<and> (dl_header d2 \<longrightarrow> rest = [] \<or> oversize c (rx_bytes d2))"
      by (intro exI [of _ pre] exI [of _ rest]) (simp add: push_post_def)
    show "dl_buf d2 \<noteq> None" "list_all (\<lambda>b. framed (contents b)) (bs1 @ bs2)"
      using assms(1,3) g g1 by (simp_all add: push_post_def)
qed (use assms(1,3) h in \<open>auto simp: push_post_def\<close>)

lemma push_block_step:
  fixes d :: "'c downlink"
  assumes "valid_config c" "downlink_core c cinv d" "dl_buf d = Some b" "dl_header d"
  shows "\<exists>go bs d'. push_block c b d = Some (go, d') \<and> push_post c cinv [] d bs d' \<and> dl_header d'
    \<and> ((\<forall>n. malloc_ok (dl_heap d) n) \<longrightarrow> rx_bytes d = concat (map contents bs) @ rx_bytes d')
    \<and> (\<not> go \<longrightarrow> d' = d \<and> bs = [] \<and> oversize c (rx_bytes d))"
proof -
  have b: "wf_buf b" "capacity b = MAX_CIPHERTEXT_BLOCK_SIZE c" using assms(2,3) by (simp_all add: downlink_core_def rx_buf_ok_def)
  have le: "pb_bytes b \<le> MAX_CIPHERTEXT_BLOCK_SIZE c" using b by (simp add: wf_buf_def)
  note defs = push_post_def downlink_inv_def downlink_core_def rx_room_def rx_bytes_def dl_balance_def rx_buf_ok_def
    block_downlink_push_def decrypt_work_submit_def decrypt_submit_def buf_queue_submit_def
  from assms(1) b assms(3) show ?thesis
  proof (cases rule: push_block_cases)
    case wait
    have "pb_bytes b < MAX_CIPHERTEXT_BLOCK_SIZE c"
      using wait(2,3) MAX_sizes [of c] contents_length [OF b(1)] by (auto simp: oversize_def)
    with wait(1) assms show ?thesis
      by (intro exI [of _ True] exI [of _ "[]"] exI [of _ d]) (simp add: defs)
  next
    case over
    with assms show ?thesis
      by (intro exI [of _ False] exI [of _ "[]"] exI [of _ d]) (simp add: defs)
  next
    case (nomem h)
    have "received c b" using b nomem(5) le by (simp add: received_def)
    with nomem assms show ?thesis
      by (intro exI [of _ True] exI [of _ "[b]"] exI [of _ "block_downlink_push b (d\<lparr>dl_heap := h, dl_buf := None\<rparr>)"])
         (auto simp: defs)
  next
    case (block h b' f)
    have "length (contents b) = length (contents b') + length (contents f)" by (simp add: block(8))
    then have "pb_bytes f < MAX_CIPHERTEXT_BLOCK_SIZE c"
      using block(4,6) b le by (simp add: received_def)
    with block assms show ?thesis
      by (intro exI [of _ True] exI [of _ "[b']"] exI [of _ "block_downlink_push b' (d\<lparr>dl_heap := h, dl_buf := Some f\<rparr>)"])
         (auto simp: defs)
  qed
qed

text \<open>What the write and the header leave behind, as a step of its own before the block is cut off.\<close>

lemma push_block_from:
  fixes d :: "'c downlink"
  assumes "valid_config c" "downlink_core c cinv d1" "dl_buf d1 = Some b1" "dl_header d1"
    "d1 = d\<lparr>dl_crypto := cr, dl_header := True, dl_buf := Some b1\<rparr>" "dl_buf d \<noteq> None"
    "rx_bytes d @ xs = pre @ rx_bytes d1" "dl_header d \<longrightarrow> pre = []"
  shows "\<exists>go bs d'. push_block c b1 d1 = Some (go, d') \<and> push_post c cinv xs d bs d' \<and> dl_header d'
    \<and> ((\<forall>n. malloc_ok (dl_heap d) n) \<longrightarrow> rx_bytes d @ xs = pre @ concat (map contents bs) @ rx_bytes d')
    \<and> (\<not> go \<longrightarrow> bs = [] \<and> oversize c (rx_bytes d'))"
proof -
  obtain go bs d' where s: "push_block c b1 d1 = Some (go, d')" "push_post c cinv [] d1 bs d'" "dl_header d'"
    "(\<forall>n. malloc_ok (dl_heap d1) n) \<longrightarrow> rx_bytes d1 = concat (map contents bs) @ rx_bytes d'"
    "\<not> go \<longrightarrow> d' = d1 \<and> bs = [] \<and> oversize c (rx_bytes d1)"
    using push_block_step [OF assms(1-4)] by blast
  have f: "dl_heap d1 = dl_heap d" "dl_decrypt_queue d1 = dl_decrypt_queue d" "dl_consume_queue d1 = dl_consume_queue d"
    "dl_balance d1 = dl_balance d"
    using assms(5,6) by (auto simp: dl_balance_def)
  have eq: "(\<forall>n. malloc_ok (dl_heap d) n) \<longrightarrow> rx_bytes d @ xs = pre @ concat (map contents bs) @ rx_bytes d'"
    using s(4) f assms(7) by simp
  have "push_post c cinv xs d bs d'"
    unfolding push_post_def
  proof (intro conjI impI)
    assume g: "(\<forall>n. malloc_ok (dl_heap d) n) \<and> dl_buf d \<noteq> None"
    with eq assms(8) s(3) show "\<exists>pre rest. rx_bytes d @ xs = pre @ concat (map contents bs) @ rx_bytes d' @ rest
              \<and> (dl_header d \<longrightarrow> pre = []) \<and> (\<not> dl_header d' \<longrightarrow> pre = [] \<and> bs = [])
              \<and> (dl_header d' \<longrightarrow> rest = [] \<or> oversize c (rx_bytes d'))"
      by (intro exI [of _ pre] exI [of _ "[]"]) simp
    show "dl_buf d' \<noteq> None" "list_all (\<lambda>b. framed (contents b)) bs"
      using s(2) g f(1) assms(3) by (simp_all add: push_post_def)
  qed (use s(2,3) f in \<open>simp_all add: push_post_def\<close>)
  with s eq show ?thesis by blast
qed

text \<open>A call that takes nothing more: the buffer is gone, or full, or the stream has gone wrong.\<close>

lemma push_post_stop:
  assumes "downlink_inv c cinv d" "dl_buf d = None \<or> (dl_header d \<longrightarrow> oversize c (rx_bytes d)) \<or> buf = []"
  shows "push_post c cinv buf d [] d"
  unfolding push_post_def
  by (intro conjI impI exI [of _ "[]"] exI [of _ buf]) (use assms in \<open>auto\<close>)

lemma push_post_rest:
  assumes "push_post c cinv xs d bs d'" "oversize c (rx_bytes d')"
    "(\<forall>n. malloc_ok (dl_heap d) n) \<longrightarrow> rx_bytes d @ xs = pre @ concat (map contents bs) @ rx_bytes d'"
    "dl_header d \<longrightarrow> pre = []" "dl_header d'"
  shows "push_post c cinv (xs @ ys) d bs d'"
proof -
  have "(\<forall>n. malloc_ok (dl_heap d) n) \<longrightarrow> rx_bytes d @ xs @ ys = pre @ concat (map contents bs) @ rx_bytes d' @ ys"
    using assms(3) by (metis append_assoc)
  with assms show ?thesis unfolding push_post_def by blast
qed

context crypto_provider
begin

lemma downlink_start_inv: "cinv cr \<Longrightarrow> crypto_downlink_start ops info cr = Some (r, cr') \<Longrightarrow> cinv cr'"
  using downlink_start_law [of cr info] by auto

text \<open>From the header on: a block, if there is one, and then the bytes \<open>ys\<close> that are left of the call.\<close>

lemma push_continue:
  assumes "downlink_core c cinv d2" "d2 = d\<lparr>dl_crypto := cr, dl_header := True, dl_buf := Some b2\<rparr>" "dl_buf d \<noteq> None"
    "rx_bytes d @ xs = pre @ rx_bytes d2" "dl_header d \<longrightarrow> pre = []"
    and rest: "\<And>d'. downlink_inv c cinv d' \<Longrightarrow>
      \<exists>bs d''. pouch_downlink_push c codec ops ys d' = Some d'' \<and> push_post c cinv ys d' bs d''"
  shows "\<exists>bs d''. (case push_block c b2 d2 of
                None \<Rightarrow> None
              | Some (go, d) \<Rightarrow> if \<not> go then Some d else pouch_downlink_push c codec ops ys d) = Some d''
            \<and> push_post c cinv (xs @ ys) d bs d''"
proof -
  have d2: "dl_buf d2 = Some b2" "dl_header d2" using assms(2) by simp_all
  obtain g bs d' where p: "push_block c b2 d2 = Some (g, d')" "push_post c cinv xs d bs d'" "dl_header d'"
    "(\<forall>n. malloc_ok (dl_heap d) n) \<longrightarrow> rx_bytes d @ xs = pre @ concat (map contents bs) @ rx_bytes d'"
    "\<not> g \<longrightarrow> bs = [] \<and> oversize c (rx_bytes d')"
    using push_block_from [OF config_ok assms(1) d2 assms(2-5)] by blast
  show ?thesis
  proof (cases g)
    case True
    have "downlink_inv c cinv d'" using p(2) by (simp add: push_post_def)
    then obtain bs2 d'' where r: "pouch_downlink_push c codec ops ys d' = Some d''" "push_post c cinv ys d' bs2 d''"
      using rest by blast
    have "push_post c cinv (xs @ ys) d (bs @ bs2) d''"
      using p(4) assms(5) by (intro push_post_append [OF p(2,3) r(2)]) blast
    with p(1) True r(1) show ?thesis by auto
  next
    case False
    then have "push_post c cinv (xs @ ys) d bs d'" using p assms(5) by (intro push_post_rest) auto
    with p(1) False show ?thesis by auto
  qed
qed

lemma push_spec:
  assumes "downlink_inv c cinv d"
  shows "\<exists>bs d'. pouch_downlink_push c codec ops buf d = Some d' \<and> push_post c cinv buf d bs d'"
  using assms
proof (induction "length buf" arbitrary: buf d rule: less_induct)
  case less
  note inv = less.prems
  consider (stop) "buf = [] \<or> dl_buf d = None"
    | (full) b where "buf \<noteq> []" "dl_buf d = Some b" "MAX_CIPHERTEXT_BLOCK_SIZE c \<le> pb_bytes b"
    | (go) b where "buf \<noteq> []" "dl_buf d = Some b" "pb_bytes b < MAX_CIPHERTEXT_BLOCK_SIZE c"
    by (metis not_le option.exhaust)
  then show ?case
  proof cases
    case stop
    then have "pouch_downlink_push c codec ops buf d = Some d" by (auto simp: pouch_downlink_push.simps)
    with stop push_post_stop [OF inv, of buf] show ?thesis by auto
  next
    case (full b)
    then have "pouch_downlink_push c codec ops buf d = Some d"
      by (simp add: pouch_downlink_push.simps [of c codec ops buf d] buf_size_get_def)
    moreover have "dl_header d \<longrightarrow> oversize c (rx_bytes d)"
      using full inv by (auto simp: downlink_inv_def rx_room_def rx_bytes_def)
    ultimately show ?thesis using push_post_stop [OF inv, of buf] by auto
  next
    case (go b)
    define n where "n = min (length buf) (MAX_CIPHERTEXT_BLOCK_SIZE c - pb_bytes b)"
    have n: "0 < n" "length (drop n buf) < length buf" using go by (auto simp: n_def)
    have b: "wf_buf b" "capacity b = MAX_CIPHERTEXT_BLOCK_SIZE c"
      using inv go by (simp_all add: downlink_inv_def downlink_core_def rx_buf_ok_def)
    then have f: "fits (take n buf) b" by (auto simp: fits_def n_def wf_buf_def)
    let ?b = "buf_append (take n buf) b" and ?xs = "take n buf"
    let ?d = "d\<lparr>dl_buf := Some ?b\<rparr>"
    have b1: "wf_buf ?b" "capacity ?b = MAX_CIPHERTEXT_BLOCK_SIZE c" "contents ?b = contents b @ ?xs"
      using f b by (simp_all add: buf_append_fields)
    have core: "downlink_core c cinv ?d" using inv b1 by (simp add: downlink_inv_def downlink_core_def rx_buf_ok_def)
    have unf: "pouch_downlink_push c codec ops buf d =
        (case push_header codec ops ?b ?d of
           None \<Rightarrow> None
         | Some (go, b, d) \<Rightarrow>
             if \<not> go then Some d
             else (case push_block c b d of
                     None \<Rightarrow> None
                   | Some (go, d) \<Rightarrow>
                       if \<not> go then Some d else pouch_downlink_push c codec ops (drop n buf) d))"
      using go f by (simp add: pouch_downlink_push.simps [of c codec ops buf d] buf_size_get_def buf_write_eq
          n_def [symmetric])
    have cont: ?thesis
      if "push_header codec ops ?b ?d = Some (True, b2, d2)"
        "d2 = d\<lparr>dl_crypto := cr, dl_header := True, dl_buf := Some b2\<rparr>" "downlink_core c cinv d2"
        "rx_bytes d @ ?xs = pre @ rx_bytes d2" "dl_header d \<longrightarrow> pre = []" for b2 d2 cr pre
      using push_continue [OF that(3,2) _ that(4,5) less.hyps [OF n(2)]] go that(1) unf by auto
    have "\<forall>info. crypto_downlink_start ops info (dl_crypto ?d) \<noteq> None"
      using downlink_start_law [of "dl_crypto d"] core by (fastforce simp: downlink_core_def)
    with b1(1) show ?thesis
    proof (cases rule: push_header_cases [where codec = codec])
      case seen
      show ?thesis
        by (rule cont [of ?b ?d "dl_crypto d" "[]"])
           (use seen core go b1(3) in \<open>auto simp: rx_bytes_def downlink_core_def\<close>)
    next
      case (ok b' hdr len cr)
      have "cinv cr" using downlink_start_law [of "dl_crypto d" "ph_encryption_info hdr"] ok(3) core
        by (auto simp: downlink_core_def)
      moreover have "take len (contents ?b) @ contents b' = rx_bytes d @ ?xs"
        unfolding ok(7) append_take_drop_id b1(3) using go by (simp add: rx_bytes_def)
      ultimately show ?thesis
        using ok(1,4-6) core b1(2)
        by (intro cont [of b' "d\<lparr>dl_crypto := cr, dl_header := True, dl_buf := Some b'\<rparr>" cr "take len (contents ?b)"])
           (auto simp: rx_bytes_def downlink_core_def rx_buf_ok_def)
    next
      case (fail cr)
      have "cinv (dl_crypto d)" using core by (simp add: downlink_core_def)
      then have "cinv cr" using fail(3) by (auto dest: downlink_start_inv)
      moreover have "pouch_downlink_push c codec ops buf d = Some (?d\<lparr>dl_crypto := cr\<rparr>)" using unf fail(2) by simp
      moreover have tk: "\<exists>rest. buf = take n buf @ rest" by (rule exI [of _ "drop n buf"]) simp
      have "push_post c cinv buf d [] (?d\<lparr>dl_crypto := cr\<rparr>)"
        using core calculation(1) fail(1) go b1(3) tk
        by (auto simp: push_post_def downlink_inv_def downlink_core_def rx_room_def dl_balance_def rx_bytes_def)
      ultimately show ?thesis by blast
    qed
  qed
qed

lemma run_decrypt_spec:
  assumes "downlink_inv c cinv d"
  shows "\<exists>d'. run_decrypt_work ops d = Some d' \<and> downlink_inv c cinv d' \<and> dl_balance d' = dl_balance d
    \<and> dl_buf d' = dl_buf d \<and> dl_header d' = dl_header d
    \<and> dl_decrypt_queue d' = (if dl_decrypt_work d then tl (dl_decrypt_queue d) else dl_decrypt_queue d)"
proof (cases "dl_decrypt_work d")
  case False
  with assms show ?thesis by (simp add: run_decrypt_work_def)
next
  case True
  then obtain b q where q: "dl_decrypt_queue d = b # q"
    using assms by (cases "dl_decrypt_queue d") (auto simp: downlink_inv_def downlink_core_def)
  have b: "wf_buf b" "2 \<le> pb_bytes b" "pb_bytes b \<le> MAX_CIPHERTEXT_BLOCK_SIZE c" "cinv (dl_crypto d)"
    using assms q by (simp_all add: downlink_inv_def downlink_core_def received_def)
  obtain r h cr where r: "crypto_decrypt_block ops (Some b) (dl_heap d) (dl_crypto d) = Some (r, h, cr)" "cinv cr"
    "bufs h = bufs (dl_heap d) - 1 + own r" "\<forall>x. r = Some x \<longrightarrow> wf_buf x"
    using decrypt_law [OF b(4,1-3), of "dl_heap d"] by blast
  with True q assms show ?thesis
    by (cases r) (auto simp: run_decrypt_work_def decrypt_blocks_def Let_def downlink_inv_def downlink_core_def
        rx_room_def dl_balance_def buf_queue_submit_def buf_queue_is_empty_def split: list.splits)
qed

lemma run_consume_spec:
  assumes "downlink_inv c cinv d"
  shows "run_consume_work hs d a =
    (if dl_consume_work d \<and> dl_consume_queue d \<noteq> []
     then map_option (Pair (d\<lparr>dl_consume_work := tl (dl_consume_queue d) \<noteq> [], dl_consume_queue := tl (dl_consume_queue d),
              dl_heap := buf_free (Some (hd (dl_consume_queue d))) (dl_heap d)\<rparr>))
            (pouch_downlink_block_push hs (hd (dl_consume_queue d)) a)
     else Some (d\<lparr>dl_consume_work := False\<rparr>, a))"
proof (cases "dl_consume_queue d")
  case Nil
  then show ?thesis by (simp add: run_consume_work_def consume_blocks_def)
next
  case (Cons b q)
  then have "dl_consume_work d" using assms by (simp add: downlink_inv_def downlink_core_def)
  with Cons show ?thesis
    by (cases "pouch_downlink_block_push hs b a"; cases q)
       (simp_all add: run_consume_work_def consume_blocks_def Let_def buf_queue_is_empty_def)
qed

lemma run_consume_inv:
  assumes "downlink_inv c cinv d" "run_consume_work hs d a = Some (d', a')"
  shows "downlink_inv c cinv d'" "dl_balance d' = dl_balance d"
  using assms(1) assms(2) [unfolded run_consume_spec [OF assms(1)]]
  by (cases "dl_consume_queue d";
      auto simp: downlink_inv_def downlink_core_def rx_room_def dl_balance_def split: if_splits)+

end

subsection \<open>Framing\<close>

lemma framed_prefix_unique:
  assumes "framed x" "framed y" "x @ r = y @ s"
  shows "x = y"
proof -
  have "sys_get_be16 x = sys_get_be16 (x @ r)" "sys_get_be16 y = sys_get_be16 (y @ s)"
    using assms(1,2) by (auto intro!: sys_get_be16_cong simp: framed_def)
  then have "length x - 2 = length y - 2" "2 \<le> length x" "2 \<le> length y" using assms by (simp_all add: framed_def)
  then have "length x = length y" by linarith
  with assms(3) show ?thesis by simp
qed

lemma framed_split_unique:
  assumes "list_all framed xs" "list_all framed ys" "concat xs @ r = concat ys"
  shows "\<exists>k. xs = take k ys \<and> r = concat (drop k ys)"
  using assms
proof (induction xs arbitrary: ys)
  case Nil
  then show ?case by (intro exI [of _ 0]) simp
next
  case (Cons x xs)
  have "x \<noteq> []" using Cons.prems(1) by (auto simp: framed_def)
  then obtain y ys' where ys: "ys = y # ys'" using Cons.prems(3) by (cases ys) auto
  have "x = y" using Cons.prems ys framed_prefix_unique [of x y "concat xs @ r" "concat ys'"] by simp
  with Cons.prems ys Cons.IH [of ys'] obtain k where "xs = take k ys' \<and> r = concat (drop k ys')" by auto
  with ys \<open>x = y\<close> show ?case by (intro exI [of _ "Suc k"]) simp
qed

text \<open>
  A push that ends with a whole block at the front of the empty receive buffer: the block is queued
  and what follows it stays in the buffer, be it a block or not.
\<close>

lemma push_front_block:
  fixes d :: "'c downlink"
  assumes "valid_config c" "downlink_inv c cinv d" "dl_header d" "dl_buf d = Some b" "contents b = []"
    "\<forall>n. malloc_ok (dl_heap d) n" "framed x" "3 \<le> length x" "length x + length y \<le> MAX_CIPHERTEXT_BLOCK_SIZE c"
  shows "\<exists>b' d'. pouch_downlink_push c codec ops (x @ y) d = Some d' \<and> contents b' = x
    \<and> dl_decrypt_queue d' = dl_decrypt_queue d @ [b'] \<and> dl_decrypt_work d' \<and> rx_bytes d' = y \<and> dl_buf d' \<noteq> None"
proof -
  have b: "wf_buf b" "capacity b = MAX_CIPHERTEXT_BLOCK_SIZE c" "pb_bytes b = 0"
    using assms(2,4,5) contents_length [of b] by (auto simp: downlink_inv_def downlink_core_def rx_buf_ok_def)
  then have f: "fits (x @ y) b" using assms(9) by (simp add: fits_def)
  let ?b = "buf_append (x @ y) b"
  let ?d = "d\<lparr>dl_buf := Some ?b\<rparr>"
  have b1: "wf_buf ?b" "capacity ?b = MAX_CIPHERTEXT_BLOCK_SIZE c" "contents ?b = x @ y" "pb_bytes ?b = length x + length y"
    using f b assms(5) by (simp_all add: buf_append_fields)
  have sz: "sys_get_be16 (x @ y) = sys_get_be16 x" using assms(7) by (intro sys_get_be16_cong) (auto simp: framed_def)
  have "x @ y \<noteq> []" using assms(8) by auto
  then have unf: "pouch_downlink_push c codec ops (x @ y) d =
      (case push_block c ?b ?d of None \<Rightarrow> None
       | Some (go, d) \<Rightarrow> if \<not> go then Some d else pouch_downlink_push c codec ops [] d)"
    using assms(3,4,8,9) f b MAX_sizes [of c]
    by (cases "push_block c ?b ?d")
       (simp_all add: pouch_downlink_push.simps [of c codec ops "x @ y" d] buf_size_get_def buf_write_eq
         push_header_def min_def case_prod_unfold del: append_is_Nil_conv)
  have "dl_buf ?d = Some ?b" by simp
  with assms(1) b1(1,2) show ?thesis
  proof (cases rule: push_block_cases)
    case wait
    then show ?thesis using b1 sz assms(7,8) by (auto simp: framed_def)
  next
    case over
    then show ?thesis using b1 sz assms(7,9) MAX_sizes [of c] by (auto simp: oversize_def framed_def)
  next
    case (nomem h)
    then show ?thesis using assms(6) by simp
  next
    case (block h b' f)
    have c: "contents b' = x" "contents f = y"
      using framed_prefix_unique [OF block(5) assms(7), of "contents f" y] block(8) b1(3) by auto
    show ?thesis
      by (intro exI [of _ b'] exI [of _ "block_downlink_push b' (?d\<lparr>dl_heap := h, dl_buf := Some f\<rparr>)"])
         (use unf block(1) c in \<open>simp add: pouch_downlink_push.simps [of c codec ops "[]"] block_downlink_push_def
            decrypt_submit_def decrypt_work_submit_def buf_queue_submit_def rx_bytes_def\<close>)
  qed
qed

subsection \<open>A stream of blocks in any pieces\<close>

fun push_all ::
  "config \<Rightarrow> header_codec \<Rightarrow> 'c crypto_ops \<Rightarrow> byte list list \<Rightarrow> 'c downlink \<Rightarrow> 'c downlink option" where
  "push_all c codec ops [] d = Some d"
| "push_all c codec ops (buf # pieces) d = do { d \<leftarrow> pouch_downlink_push c codec ops buf d; push_all c codec ops pieces d }"

text \<open>A block that a conforming sender produces.\<close>

definition valid_block :: "config \<Rightarrow> byte list \<Rightarrow> bool" where
  "valid_block c x \<longleftrightarrow> framed x \<and> 3 \<le> length x \<and> length x \<le> MAX_CIPHERTEXT_BLOCK_SIZE c"

lemma valid_stream_not_oversize:
  assumes "list_all (valid_block c) xs" "ys @ rest = concat xs"
  shows "\<not> oversize c ys"
proof
  assume o: "oversize c ys"
  then have "xs \<noteq> []" using assms(2) by (auto simp: oversize_def)
  then obtain x xs' where xs: "xs = x # xs'" by (cases xs) auto
  have "sys_get_be16 (ys @ rest) = sys_get_be16 ys" using o by (intro sys_get_be16_cong) (auto simp: oversize_def)
  moreover have "sys_get_be16 (x @ concat xs') = sys_get_be16 x"
    using assms(1) xs by (intro sys_get_be16_cong) (auto simp: valid_block_def)
  ultimately have "sys_get_be16 ys = sys_get_be16 x" using assms(2) xs by simp
  then show False
    using o assms(1) xs MAX_sizes(3) [of c] by (auto simp: oversize_def valid_block_def framed_def)
qed

context crypto_provider
begin

lemma push_all_spec:
  assumes "downlink_inv c cinv d" "dl_header d" "dl_buf d \<noteq> None" "\<forall>n. malloc_ok (dl_heap d) n"
    "list_all (valid_block c) xs" "rx_bytes d @ concat pieces = concat xs"
  shows "\<exists>k bs d'. push_all c codec ops pieces d = Some d' \<and> dl_decrypt_queue d' = dl_decrypt_queue d @ bs
    \<and> map contents bs = take k xs \<and> rx_bytes d' = concat (drop k xs)
    \<and> downlink_inv c cinv d' \<and> dl_balance d' = dl_balance d"
  using assms
proof (induction pieces arbitrary: d xs)
  case Nil
  then show ?case by (intro exI [of _ 0] exI [of _ "[]"] exI [of _ d]) simp
next
  case (Cons buf pieces)
  obtain bs d1 where p: "pouch_downlink_push c codec ops buf d = Some d1" "push_post c cinv buf d bs d1"
    using push_spec [OF Cons.prems(1)] by blast
  then obtain rest where r: "rx_bytes d @ buf = concat (map contents bs) @ rx_bytes d1 @ rest"
    "rest = [] \<or> oversize c (rx_bytes d1)" "list_all (\<lambda>b. framed (contents b)) bs" "dl_buf d1 \<noteq> None"
    using push_post_headerD [OF p(2) Cons.prems(2,4,3)] by blast
  have d1: "downlink_inv c cinv d1" "dl_header d1" "\<forall>n. malloc_ok (dl_heap d1) n" "dl_balance d1 = dl_balance d"
    "dl_decrypt_queue d1 = dl_decrypt_queue d @ bs"
    using p(2) Cons.prems(2,4) by (simp_all add: push_post_def)
  have cat: "concat (map contents bs) @ (rx_bytes d1 @ rest @ concat pieces) = concat xs"
    using r(1) Cons.prems(6) by (metis append_assoc concat.simps(2))
  have fr: "list_all framed xs" "list_all framed (map contents bs)"
    using Cons.prems(5) r(3) by (auto simp: list_all_iff valid_block_def)
  obtain k where k: "map contents bs = take k xs" "rx_bytes d1 @ rest @ concat pieces = concat (drop k xs)"
    using framed_split_unique [OF fr(2,1) cat] by blast
  have vd: "list_all (valid_block c) (drop k xs)" using Cons.prems(5) by (auto simp: list_all_iff dest: in_set_dropD)
  have "rest = []" using r(2) valid_stream_not_oversize [OF vd k(2)] by blast
  then obtain k' bs' d' where q: "push_all c codec ops pieces d1 = Some d'" "dl_decrypt_queue d' = dl_decrypt_queue d1 @ bs'"
    "map contents bs' = take k' (drop k xs)" "rx_bytes d' = concat (drop k' (drop k xs))" "downlink_inv c cinv d'"
    "dl_balance d' = dl_balance d1"
    using Cons.IH [OF d1(1,2) r(4) d1(3) vd] k(2) by auto
  have "map contents (bs @ bs') = take (k + k') xs" using k(1) q(3) by (simp add: take_add)
  then show ?case
    using p(1) q d1 by (intro exI [of _ "k + k'"] exI [of _ "bs @ bs'"] exI [of _ d']) (simp add: add.commute)
qed

end

end
