(* ===== verification/Saead.thy ===== *)
theory Saead
  imports Session Uplink_Runs Downlink
begin

text \<open>
  The SAEAD build of the crypto module: \<^verbatim>\<open>src/saead/uplink.c\<close>, \<^verbatim>\<open>src/saead/downlink.c\<close> and \<^verbatim>\<open>src/crypto_saead.c\<close>, the two
  sessions, the replay checks of the downlink, and the functions behind \<^verbatim>\<open>crypto.h\<close>. The algorithm that
  the build selects is the argument \<open>alg\<close>.

  Shown here: the module keeps the contract of \<^verbatim>\<open>crypto.h\<close>; the downlink refuses an old sequence number
  while its session is valid; the checks that starting a session switches off.
\<close>

section \<open>State\<close>

record ('x, 'p) saead =
  sa_uplink :: session
  sa_downlink :: session
  server_seqnum :: u64
  server_pouch_id :: u16
  sa_pkey :: psa_key_id
  sa_cert :: "'x cert_state"
  sa_psa :: 'p

section \<open>Uplink\<close>

definition saead_uplink_session_start ::
  "config \<Rightarrow> 'p psa_ops \<Rightarrow> psa_algorithm \<Rightarrow> psa_key_id \<Rightarrow> ('x, 'p) saead \<Rightarrow> (ret \<times> ('x, 'p) saead) option" where
  "saead_uplink_session_start c psa alg private_key s =
     (let up = (sa_uplink s)\<lparr>ss_flags := 0, ss_id := (ss_id (sa_uplink s))\<lparr>sid_type := SESSION_ID_TYPE_RANDOM\<rparr>\<rparr> in
      case session_id_generate psa (ss_id up) (sa_psa s) of (err, i, p) \<Rightarrow>
      let up = up\<lparr>ss_id := i\<rparr> in
      if err \<noteq> OK then Some (err, s\<lparr>sa_uplink := up, sa_psa := p\<rparr>)
      else do {
        (key, p) \<leftarrow> session_key_generate psa i alg (word_of_nat (MAX_BLOCK_PAYLOAD_SIZE_LOG c)) private_key
                     (cert_server_key_get (sa_cert s)) PSA_KEY_USAGE_ENCRYPT p;
        let up = up\<lparr>ss_key := key\<rparr>;
        if err \<noteq> OK then Some (err, s\<lparr>sa_uplink := up, sa_psa := p\<rparr>)
        else do {
          let up = up\<lparr>ss_algorithm := alg, ss_pouch_id := 0,
                      ss_flags := set_bit SESSION_ACTIVE_FLAG (set_bit SESSION_VALID_FLAG (ss_flags up))\<rparr>;
          Some (OK, s\<lparr>sa_uplink := up, sa_psa := p\<rparr>) } })"

definition saead_uplink_pouch_start :: "('x, 'p) saead \<Rightarrow> ret \<times> ('x, 'p) saead" where
  "saead_uplink_pouch_start s =
     (case session_pouch_start (sa_uplink s) (ss_pouch_id (sa_uplink s) + 1) of (r, up) \<Rightarrow> (r, s\<lparr>sa_uplink := up\<rparr>))"

definition saead_uplink_header_get :: "config \<Rightarrow> ('x, 'p) saead \<Rightarrow> errno + saead_info" where
  "saead_uplink_header_get c s =
     (let up = sa_uplink s in
      if \<not> bit (ss_flags up) SESSION_ACTIVE_FLAG then Inl ENOTCONN
      else case cert_ref_get (sa_cert s) of
        None \<Rightarrow> Inl EBUSY
      | Some cert_ref \<Rightarrow>
          Inr \<lparr>sa_session =
                 \<lparr>si_id = (if sid_type (ss_id up) = SESSION_ID_TYPE_SEQUENTIAL
                           then Session_id_sequential (take SESSION_ID_TAG_LEN (sid_value (ss_id up))) (sid_seqnum (ss_id up))
                           else Session_id_random (sid_value (ss_id up))),
                  si_initiator = Choice_device,
                  si_algorithm = (if ss_algorithm up = PSA_ALG_CHACHA20_POLY1305 then Choice_chacha20_poly1305 else Choice_aes_gcm),
                  si_max_block_size_log = word_of_nat (MAX_BLOCK_PAYLOAD_SIZE_LOG c),
                  si_cert_ref = take CERT_REF_SHORT_LEN cert_ref\<rparr>,
               sa_pouch_id = ss_pouch_id up\<rparr>)"

definition saead_uplink_encrypt_block ::
  "config \<Rightarrow> 'p psa_ops \<Rightarrow> pouch_buf \<Rightarrow> heap \<Rightarrow> ('x, 'p) saead \<Rightarrow> (pouch_buf option \<times> heap \<times> ('x, 'p) saead) option" where
  "saead_uplink_encrypt_block c psa block h s =
     (if \<not> bit (ss_flags (sa_uplink s)) SESSION_ACTIVE_FLAG then Some (None, buf_free (Some block) h, s)
      else do { (encrypted, up, h) \<leftarrow> session_encrypt_block c psa (sa_psa s) (sa_uplink s) block h;
                Some (encrypted, buf_free (Some block) h, s\<lparr>sa_uplink := up\<rparr>) })"

definition saead_uplink_session_end :: "'p psa_ops \<Rightarrow> ('x, 'p) saead \<Rightarrow> ('x, 'p) saead" where
  "saead_uplink_session_end psa s =
     (case session_end psa (sa_uplink s) (sa_psa s) of (up, p) \<Rightarrow> s\<lparr>sa_uplink := up, sa_psa := p\<rparr>)"

definition saead_uplink_session_matches :: "config \<Rightarrow> session_id \<Rightarrow> byte \<Rightarrow> psa_algorithm \<Rightarrow> ('x, 'p) saead \<Rightarrow> bool" where
  "saead_uplink_session_matches c i max_block_size_log alg s =
     (bit (ss_flags (sa_uplink s)) SESSION_VALID_FLAG \<and> session_id_is_equal i (ss_id (sa_uplink s))
      \<and> unat max_block_size_log = MAX_BLOCK_PAYLOAD_SIZE_LOG c \<and> ss_algorithm (sa_uplink s) = alg)"

definition saead_uplink_session_key_copy ::
  "'p psa_ops \<Rightarrow> psa_key_usage \<Rightarrow> ('x, 'p) saead \<Rightarrow> psa_key_id \<times> ('x, 'p) saead" where
  "saead_uplink_session_key_copy psa usage s =
     (if \<not> bit (ss_flags (sa_uplink s)) SESSION_VALID_FLAG then (PSA_KEY_ID_NULL, s)
      else case psa_copy_key psa (ss_key (sa_uplink s)) usage (sa_psa s) of (k, p) \<Rightarrow>
        (case k of None \<Rightarrow> PSA_KEY_ID_NULL | Some k \<Rightarrow> k, s\<lparr>sa_psa := p\<rparr>))"

section \<open>Downlink\<close>

definition is_valid_downlink :: "session_id \<Rightarrow> psa_algorithm \<Rightarrow> ('x, 'p) saead \<Rightarrow> bool" where
  "is_valid_downlink i alg s =
     (let dn = sa_downlink s in
      if \<not> bit (ss_flags dn) SESSION_VALID_FLAG then True
      else if session_id_is_equal (ss_id dn) i \<and> ss_algorithm dn \<noteq> alg then False
      else if sid_initiator i = POUCH_ROLE_SERVER \<and> sid_type i = SESSION_ID_TYPE_SEQUENTIAL \<and> sid_seqnum i \<le> server_seqnum s
      then False
      else True)"

definition saead_downlink_session_start ::
  "config \<Rightarrow> 'p psa_ops \<Rightarrow> session_id \<Rightarrow> psa_algorithm \<Rightarrow> byte \<Rightarrow> psa_key_id \<Rightarrow> ('x, 'p) saead
     \<Rightarrow> (ret \<times> ('x, 'p) saead) option" where
  "saead_downlink_session_start c psa i alg max_block_size_log private_key s =
     (if \<not> is_valid_downlink i alg s then Some (Err EBADMSG, s)
      else if sid_initiator i = POUCH_ROLE_DEVICE \<and> sid_type i \<noteq> SESSION_ID_TYPE_SEQUENTIAL then Some (Err EBADMSG, s)
      else if sid_initiator i = POUCH_ROLE_DEVICE \<and> \<not> saead_uplink_session_matches c i max_block_size_log alg s
      then Some (Err EBADMSG, s)
      else do {
        (session_key, s) \<leftarrow>
          (if sid_initiator i = POUCH_ROLE_DEVICE then Some (saead_uplink_session_key_copy psa DOWNLINK_KEY_USAGE s)
           else do { (k, p) \<leftarrow> session_key_generate psa i alg max_block_size_log private_key
                                 (cert_server_key_get (sa_cert s)) DOWNLINK_KEY_USAGE (sa_psa s);
                     Some (k, s\<lparr>sa_psa := p\<rparr>) });
        if session_key = PSA_KEY_ID_NULL then Some (Err EIO, s)
        else do {
          let dn = (sa_downlink s)\<lparr>ss_flags := 0, ss_pouch_id := 0, ss_algorithm := alg, ss_key := session_key, ss_id := i\<rparr>;
          Some (OK, s\<lparr>sa_downlink := dn\<lparr>ss_flags := set_bit SESSION_ACTIVE_FLAG (ss_flags dn)\<rparr>\<rparr>) } })"

definition saead_downlink_session_end :: "'p psa_ops \<Rightarrow> ('x, 'p) saead \<Rightarrow> ('x, 'p) saead" where
  "saead_downlink_session_end psa s =
     (case session_end psa (sa_downlink s) (sa_psa s) of (dn, p) \<Rightarrow> s\<lparr>sa_downlink := dn, sa_psa := p\<rparr>)"

definition saead_downlink_pouch_start :: "u16 \<Rightarrow> ('x, 'p) saead \<Rightarrow> ret \<times> ('x, 'p) saead" where
  "saead_downlink_pouch_start i s =
     (if bit (ss_flags (sa_downlink s)) SESSION_HAS_POUCH_FLAG \<and> i \<le> server_pouch_id s then (Err EBADMSG, s)
      else case session_pouch_start (sa_downlink s) i of (r, dn) \<Rightarrow> (r, s\<lparr>sa_downlink := dn\<rparr>))"

definition saead_downlink_block_decrypt ::
  "config \<Rightarrow> 'p psa_ops \<Rightarrow> pouch_buf option \<Rightarrow> heap \<Rightarrow> ('x, 'p) saead \<Rightarrow> (pouch_buf option \<times> heap \<times> ('x, 'p) saead) option" where
  "saead_downlink_block_decrypt c psa block h s =
     do { (decrypted, dn, h) \<leftarrow> session_decrypt_block c psa (sa_psa s) (sa_downlink s) block h;
          let s = s\<lparr>sa_downlink := dn\<rparr>;
          let h = buf_free block h;
          if decrypted = None then Some (None, h, s)
          else do {
            let dn = dn\<lparr>ss_flags := set_bit SESSION_HAS_POUCH_FLAG (set_bit SESSION_VALID_FLAG (ss_flags dn))\<rparr>;
            let s = s\<lparr>sa_downlink := dn, server_pouch_id := ss_pouch_id dn\<rparr>;
            let s = (if sid_initiator (ss_id dn) = POUCH_ROLE_SERVER \<and> sid_type (ss_id dn) = SESSION_ID_TYPE_SEQUENTIAL
                     then s\<lparr>server_seqnum := sid_seqnum (ss_id dn)\<rparr> else s);
            Some (decrypted, h, s) } }"

section \<open>The module behind crypto.h\<close>

definition saead_crypto_init ::
  "('x, 'k) tls_ops \<Rightarrow> pouch_config \<Rightarrow> ('x, 'p) saead \<Rightarrow> (ret \<times> ('x, 'p) saead) option" where
  "saead_crypto_init tls cfg s =
     (if cfg_private_key cfg = PSA_KEY_ID_NULL then Some (Err EINVAL, s)
      else do { (err, ct) \<leftarrow> cert_device_set tls (Some (cfg_certificate cfg)) (sa_cert s);
                let s = s\<lparr>sa_cert := ct\<rparr>;
                Some (if err \<noteq> OK then (err, s) else (OK, s\<lparr>sa_pkey := cfg_private_key cfg\<rparr>)) })"

text \<open>The session identifier of a header, if its parts have the right lengths.\<close>

definition header_session_id :: "session_info \<Rightarrow> session_id option" where
  "header_session_id si =
     (let i = \<lparr>sid_type = SESSION_ID_TYPE_RANDOM,
               sid_initiator = (if si_initiator si = Choice_device then POUCH_ROLE_DEVICE else POUCH_ROLE_SERVER),
               sid_value = replicate SESSION_ID_LEN 0\<rparr> in
      case si_id si of
        Session_id_random xs \<Rightarrow> if length xs \<noteq> SESSION_ID_LEN then None else Some (i\<lparr>sid_value := xs\<rparr>)
      | Session_id_sequential tag n \<Rightarrow>
          if length tag \<noteq> SESSION_ID_TAG_LEN then None
          else Some (set_seqnum n (set_tag tag (i\<lparr>sid_type := SESSION_ID_TYPE_SEQUENTIAL\<rparr>))))"

definition saead_crypto_downlink_start ::
  "config \<Rightarrow> 'p psa_ops \<Rightarrow> encryption_info \<Rightarrow> ('x, 'p) saead \<Rightarrow> (ret \<times> ('x, 'p) saead) option" where
  "saead_crypto_downlink_start c psa info s =
     (case info of
        Plaintext_info _ \<Rightarrow> Some (Err ENOTSUP, s)
      | Saead_info sa \<Rightarrow>
          (case header_session_id (sa_session sa) of
             None \<Rightarrow> Some (Err EINVAL, s)
           | Some i \<Rightarrow>
               do { (err, s) \<leftarrow> saead_downlink_session_start c psa i
                        (if si_algorithm (sa_session sa) = Choice_aes_gcm then PSA_ALG_GCM else PSA_ALG_CHACHA20_POLY1305)
                        (si_max_block_size_log (sa_session sa)) (sa_pkey s) s;
                    Some (if err \<noteq> OK then (err, s) else saead_downlink_pouch_start (sa_pouch_id sa) s) }))"

definition saead_crypto_session_start ::
  "config \<Rightarrow> 'p psa_ops \<Rightarrow> psa_algorithm \<Rightarrow> ('x, 'p) saead \<Rightarrow> (ret \<times> ('x, 'p) saead) option" where
  "saead_crypto_session_start c psa alg s = saead_uplink_session_start c psa alg (sa_pkey s) s"

definition saead_crypto_session_end :: "'p psa_ops \<Rightarrow> ('x, 'p) saead \<Rightarrow> ('x, 'p) saead" where
  "saead_crypto_session_end psa s = saead_downlink_session_end psa (saead_uplink_session_end psa s)"

definition saead_crypto_header_get :: "config \<Rightarrow> ('x, 'p) saead \<Rightarrow> (errno + encryption_info) option" where
  "saead_crypto_header_get c s =
     Some (case saead_uplink_header_get c s of Inl e \<Rightarrow> Inl e | Inr info \<Rightarrow> Inr (Saead_info info))"

definition saead_ops :: "config \<Rightarrow> 'p psa_ops \<Rightarrow> psa_algorithm \<Rightarrow> ('x, 'p) saead crypto_ops" where
  "saead_ops c psa alg = \<lparr>crypto_session_start = saead_crypto_session_start c psa alg,
     crypto_session_end = saead_crypto_session_end psa, crypto_downlink_start = saead_crypto_downlink_start c psa,
     crypto_pouch_start = saead_uplink_pouch_start, crypto_header_get = saead_crypto_header_get c,
     crypto_decrypt_block = saead_downlink_block_decrypt c psa, crypto_encrypt_block = saead_uplink_encrypt_block c psa\<rparr>"

section \<open>The contract\<close>

text \<open>The arrays have their sizes, and the server's key lies inside its array.\<close>

definition saead_inv :: "('x, 'p) saead \<Rightarrow> bool" where
  "saead_inv s \<longleftrightarrow> length (ss_ad (sa_uplink s)) = AUTH_TAG_LEN \<and> length (ss_ad (sa_downlink s)) = AUTH_TAG_LEN
     \<and> pk_len (srv_pubkey (sa_cert s)) \<le> length (pk_data (srv_pubkey (sa_cert s)))
     \<and> length (pk_data (srv_pubkey (sa_cert s))) < SIZE_MOD"

lemma session_end_ad [simp]: "ss_ad (fst (session_end psa ss p)) = ss_ad ss"
  by (simp add: session_end_def)

lemma session_pouch_start_ad [simp]: "ss_ad (snd (session_pouch_start ss i)) = ss_ad ss"
  by (simp add: session_pouch_start_def)

lemma saead_uplink_session_start_inv:
  assumes "psa_sized psa" "saead_inv s"
  shows "\<exists>r s'. saead_uplink_session_start c psa alg pkey s = Some (r, s') \<and> saead_inv s'"
proof -
  obtain err i p where g: "session_id_generate psa ((ss_id (sa_uplink s))\<lparr>sid_type := SESSION_ID_TYPE_RANDOM\<rparr>) (sa_psa s) = (err, i, p)"
    by (metis prod_cases3)
  obtain k p' where "session_key_generate psa i alg (word_of_nat (MAX_BLOCK_PAYLOAD_SIZE_LOG c)) pkey
      (cert_server_key_get (sa_cert s)) PSA_KEY_USAGE_ENCRYPT p = Some (k, p')"
    using session_key_generate_total [OF assms(1)] assms(2) by (fastforce simp: saead_inv_def cert_server_key_get_def)
  with g assms(2) show ?thesis
    by (auto simp: saead_uplink_session_start_def Let_def saead_inv_def)
qed

lemma saead_downlink_session_start_inv:
  assumes "psa_sized psa" "saead_inv s"
  shows "\<exists>r s'. saead_downlink_session_start c psa i alg l pkey s = Some (r, s') \<and> saead_inv s'"
proof -
  obtain k p where "session_key_generate psa i alg l pkey (cert_server_key_get (sa_cert s)) DOWNLINK_KEY_USAGE (sa_psa s) = Some (k, p)"
    using session_key_generate_total [OF assms(1)] assms(2) by (fastforce simp: saead_inv_def cert_server_key_get_def)
  with assms(2) show ?thesis
    by (auto simp: saead_downlink_session_start_def Let_def saead_inv_def saead_uplink_session_key_copy_def case_prod_unfold)
qed

lemma saead_crypto_downlink_start_inv:
  assumes "psa_sized psa" "saead_inv s"
  shows "\<exists>r s'. saead_crypto_downlink_start c psa info s = Some (r, s') \<and> saead_inv s'"
proof (cases info)
  case (Saead_info sa)
  show ?thesis
  proof (cases "header_session_id (sa_session sa)")
    case None
    with Saead_info assms(2) show ?thesis by (simp add: saead_crypto_downlink_start_def)
  next
    case (Some i)
    obtain r s' where "saead_downlink_session_start c psa i
        (if si_algorithm (sa_session sa) = Choice_aes_gcm then PSA_ALG_GCM else PSA_ALG_CHACHA20_POLY1305)
        (si_max_block_size_log (sa_session sa)) (sa_pkey s) s = Some (r, s')" "saead_inv s'"
      using saead_downlink_session_start_inv [OF assms] by blast
    with Saead_info Some show ?thesis
      by (auto simp: saead_crypto_downlink_start_def saead_downlink_pouch_start_def saead_inv_def case_prod_unfold)
  qed
qed (use assms(2) in \<open>simp add: saead_crypto_downlink_start_def\<close>)

lemma saead_encrypt_law:
  assumes "saead_config c" "psa_sized psa" "saead_inv s" "sendable c b"
  shows "\<exists>r h' s'. saead_uplink_encrypt_block c psa b h s = Some (r, h', s') \<and> saead_inv s'
    \<and> bufs h' = bufs h - 1 + own r \<and> malloc_ok h' = malloc_ok h
    \<and> (\<forall>e. r = Some e \<longrightarrow> transportable e \<and> framed (contents e) \<and> pb_bytes e \<le> MAX_CIPHERTEXT_BLOCK_SIZE c)"
proof (cases "bit (ss_flags (sa_uplink s)) SESSION_ACTIVE_FLAG")
  case False
  with assms(3) show ?thesis by (simp add: saead_uplink_encrypt_block_def buf_free_def)
next
  case True
  from assms(1,2,4) show ?thesis
  proof (cases rule: session_encrypt_cases [where p = "sa_psa s" and ss = "sa_uplink s" and h = h])
    case (fail h')
    with True assms(3) show ?thesis by (auto simp: saead_uplink_encrypt_block_def buf_free_def saead_inv_def)
  next
    case (ok e h' xs)
    have b: "2 \<le> pb_bytes b" "pb_bytes b \<le> MAX_PLAINTEXT_BLOCK_SIZE c" using assms(4) by (auto simp: sendable_def)
    then have x: "length xs + 2 \<le> MAX_CIPHERTEXT_BLOCK_SIZE c" using ok(6) saead_sizes [OF assms(1)] by simp
    moreover have "MAX_CIPHERTEXT_BLOCK_SIZE c \<le> 65537" using assms(1) valid_config_sizes(1) by (simp add: saead_config_def)
    ultimately have "framed (contents e)" using framed_sized [of xs] ok(7) by simp
    moreover have "pb_bytes e = length xs + 2" using contents_length [OF ok(4)] ok(7) by simp
    ultimately show ?thesis
      using True ok assms(3) b x
      by (auto simp: saead_uplink_encrypt_block_def buf_free_def saead_inv_def transportable_def)
  qed
qed

lemma saead_decrypt_law:
  assumes "saead_config c" "psa_sized psa" "saead_inv s" "wf_buf b" "2 \<le> pb_bytes b" "pb_bytes b \<le> MAX_CIPHERTEXT_BLOCK_SIZE c"
  shows "\<exists>r h' s'. saead_downlink_block_decrypt c psa (Some b) h s = Some (r, h', s') \<and> saead_inv s'
    \<and> bufs h' = bufs h - 1 + own r \<and> malloc_ok h' = malloc_ok h
    \<and> (\<forall>d. r = Some d \<longrightarrow> wf_buf d \<and> framed (contents d) \<and> 3 \<le> pb_bytes d)"
proof -
  have ad: "length (ss_ad (sa_downlink s)) = AUTH_TAG_LEN" using assms(3) by (simp add: saead_inv_def)
  from assms(1,2,4-6) ad show ?thesis
  proof (cases rule: session_decrypt_cases [where p = "sa_psa s" and h = h])
    case (fail h')
    with assms(3) show ?thesis by (auto simp: saead_downlink_block_decrypt_def buf_free_def saead_inv_def)
  next
    case (ok d h' xs)
    have "length xs < 65536"
      using ok(8) assms(1,6) valid_config_sizes(1) [of c] by (auto simp: saead_config_def AUTH_TAG_LEN_def)
    then have "framed (contents d)" using framed_sized [of xs] ok(9) by simp
    moreover have "pb_bytes d = length xs + 2" using contents_length [OF ok(4)] ok(9) by simp
    ultimately show ?thesis
      using ok assms(3-5) by (auto simp: saead_downlink_block_decrypt_def buf_free_def saead_inv_def Let_def AUTH_TAG_LEN_def)
  qed
qed

lemma saead_crypto_init_inv:
  "saead_crypto_init tls cfg s = Some (r, s') \<Longrightarrow> saead_inv s \<Longrightarrow> saead_inv s'"
  by (auto simp: saead_crypto_init_def cert_device_set_def saead_inv_def Let_def split: if_splits bind_splits)

lemma saead_provider:
  assumes "saead_config c" "psa_sized psa"
  shows "crypto_provider c (saead_ops c psa alg) saead_inv"
proof unfold_locales
  show "valid_config c" using assms(1) by (simp add: saead_config_def)
qed (use assms saead_uplink_session_start_inv saead_crypto_downlink_start_inv saead_encrypt_law saead_decrypt_law in
    \<open>fastforce simp: saead_ops_def saead_crypto_session_start_def saead_crypto_session_end_def saead_uplink_session_end_def
      saead_downlink_session_end_def saead_uplink_pouch_start_def saead_crypto_header_get_def saead_inv_def case_prod_unfold\<close>)+

section \<open>Session identifiers on the wire\<close>

lemma length_put_le64 [simp]: "length (put_le64 v) = 8"
  by (simp add: put_le64_def)

lemma put_le64_list:
  "put_le64 v = [ucast v, ucast (drop_bit 8 v), ucast (drop_bit 16 v), ucast (drop_bit 24 v),
     ucast (drop_bit 32 v), ucast (drop_bit 40 v), ucast (drop_bit 48 v), ucast (drop_bit 56 v)]"
  by (simp add: put_le64_def upt_rec)

lemma get_be16_ucast: "sys_get_be16 (ucast (drop_bit 8 v) # ucast v # xs) = ucast (v :: u64)"
  unfolding sys_get_be16_def by (rule bit_word_eqI) (auto simp: bit_simps)

lemma join_16: "push_bit 16 (ucast (ucast (drop_bit 16 v) :: u16)) OR ucast (ucast v :: u16) = (ucast (v :: u64) :: u32)"
  by (rule bit_word_eqI) (auto simp: bit_simps)

lemma join_32: "push_bit 32 (ucast (ucast (drop_bit 32 v) :: u32)) OR ucast (ucast v :: u32) = (v :: u64)"
  by (rule bit_word_eqI) (auto simp: bit_simps)

lemma get_put_le64: "sys_get_be64 (rev (put_le64 v)) = v"
  using get_be16_ucast [of v] get_be16_ucast [of "drop_bit 16 v"] get_be16_ucast [of "drop_bit 32 v"]
    get_be16_ucast [of "drop_bit 48 v"] join_16 [of v] join_16 [of "drop_bit 32 v"] join_32 [of v]
  by (simp add: put_le64_list sys_get_be64_def sys_get_be32_def drop_bit_drop_bit)

lemma seqnum_set: "length (sid_value i) = SESSION_ID_LEN \<Longrightarrow> sid_seqnum (set_seqnum n i) = n"
  by (simp add: sid_seqnum_def set_seqnum_def get_put_le64 SESSION_ID_LEN_def SESSION_ID_TAG_LEN_def)

text \<open>The identifier that an uplink header carries is the identifier of the session.\<close>

lemma header_session_id_roundtrip:
  assumes "saead_uplink_header_get c s = Inr info" "sid_type (ss_id (sa_uplink s)) = SESSION_ID_TYPE_RANDOM"
    "sid_initiator (ss_id (sa_uplink s)) = POUCH_ROLE_DEVICE" "length (sid_value (ss_id (sa_uplink s))) = SESSION_ID_LEN"
  shows "header_session_id (sa_session info) = Some (ss_id (sa_uplink s))"
  using assms by (cases "ss_id (sa_uplink s)")
    (auto simp: saead_uplink_header_get_def header_session_id_def Let_def split: if_splits option.splits)

lemma session_start_random_id:
  assumes "saead_uplink_session_start c psa alg pkey s = Some (OK, s')" "psa_sized psa"
  shows "sid_type (ss_id (sa_uplink s')) = SESSION_ID_TYPE_RANDOM \<and> sid_initiator (ss_id (sa_uplink s')) = POUCH_ROLE_DEVICE
    \<and> length (sid_value (ss_id (sa_uplink s'))) = SESSION_ID_LEN \<and> bit (ss_flags (sa_uplink s')) SESSION_ACTIVE_FLAG
    \<and> ss_pouch_id (sa_uplink s') = 0 \<and> sa_cert s' = sa_cert s"
  using assms(1) psa_sizedD(3) [OF assms(2)]
  by (auto simp: saead_uplink_session_start_def session_id_generate_def Let_def SESSION_ACTIVE_FLAG_def SESSION_VALID_FLAG_def
      split: prod.splits option.splits if_splits bind_splits)

section \<open>Replay\<close>

lemma downlink_refuses_old_seqnum:
  assumes "bit (ss_flags (sa_downlink s)) SESSION_VALID_FLAG" "sid_initiator i = POUCH_ROLE_SERVER"
    "sid_type i = SESSION_ID_TYPE_SEQUENTIAL" "sid_seqnum i \<le> server_seqnum s"
  shows "saead_downlink_session_start c psa i alg l pkey s = Some (Err EBADMSG, s)"
  using assms by (simp add: saead_downlink_session_start_def is_valid_downlink_def Let_def)

text \<open>Starting any session clears the flags that both replay checks depend on.\<close>

lemma session_start_forgets:
  assumes "saead_downlink_session_start c psa i alg l pkey s = Some (OK, s')"
  shows "is_valid_downlink i' alg' s'" "fst (saead_downlink_pouch_start n s') = OK"
proof -
  have f: "ss_flags (sa_downlink s') = set_bit SESSION_ACTIVE_FLAG 0"
    using assms by (auto simp: saead_downlink_session_start_def Let_def simp del: set_bit_0
        split: if_splits bind_splits prod.splits)
  then show "is_valid_downlink i' alg' s'"
    by (simp add: is_valid_downlink_def SESSION_ACTIVE_FLAG_def SESSION_VALID_FLAG_def)
  show "fst (saead_downlink_pouch_start n s') = OK"
    using f by (simp add: saead_downlink_pouch_start_def session_pouch_start_def SESSION_ACTIVE_FLAG_def SESSION_HAS_POUCH_FLAG_def)
qed

text \<open>Without a server key the uplink session starts all the same, with the null key.\<close>

lemma uplink_starts_without_key:
  assumes "pk_len (srv_pubkey (sa_cert s)) = 0" "psa_generate_random psa SESSION_ID_LEN (sa_psa s) = (Some xs, p)"
  shows "\<exists>s'. saead_uplink_session_start c psa alg pkey s = Some (OK, s') \<and> ss_key (sa_uplink s') = PSA_KEY_ID_NULL
    \<and> bit (ss_flags (sa_uplink s')) SESSION_ACTIVE_FLAG"
  using assms by (auto simp: saead_uplink_session_start_def session_id_generate_def session_key_generate_def
      cert_server_key_get_def Let_def SESSION_ACTIVE_FLAG_def SESSION_VALID_FLAG_def)

section \<open>The decrypt work item of this build\<close>

lemma saead_run_decrypt_frame:
  assumes "saead_config c" "psa_sized psa" "downlink_inv c saead_inv d" "dl_decrypt_work d"
  shows "\<exists>d'. run_decrypt_work (saead_ops c psa alg) d = Some d' \<and> dl_decrypt_queue d' = tl (dl_decrypt_queue d)
    \<and> malloc_ok (dl_heap d') = malloc_ok (dl_heap d)"
proof -
  obtain b q where q: "dl_decrypt_queue d = b # q"
    using assms(3,4) by (cases "dl_decrypt_queue d") (auto simp: downlink_inv_def downlink_core_def)
  have b: "wf_buf b" "2 \<le> pb_bytes b" "pb_bytes b \<le> MAX_CIPHERTEXT_BLOCK_SIZE c" "saead_inv (dl_crypto d)"
    using assms(3) q by (simp_all add: downlink_inv_def downlink_core_def received_def)
  obtain r h cr where "saead_downlink_block_decrypt c psa (Some b) (dl_heap d) (dl_crypto d) = Some (r, h, cr)"
    "malloc_ok h = malloc_ok (dl_heap d)"
    using saead_decrypt_law [OF assms(1,2) b(4,1-3), of "dl_heap d"] by blast
  with assms(4) q show ?thesis
    by (cases r) (auto simp: run_decrypt_work_def decrypt_blocks_def saead_ops_def Let_def)
qed

end
