(* ===== verification/Packetizer.thy ===== *)
theory Packetizer
  imports Prelude
begin

text \<open>
  The packetizer of the BLE GATT transport, \<^verbatim>\<open>src/lib/pouch_ble_gatt_common/packetizer.c\<close>: it cuts a sequence
  of bytes, from a buffer or from a callback, into packets with a flag byte, and decodes such packets.

  A callback is a function from the space at the destination and the state it reads from to its result,
  the length it reports, the bytes it stores and the state after it. What the packetizer relies on from a
  callback is the locale \<open>packet_source\<close>; the characteristics of the transport interpret it.

  Shown here: the packets carry the source's bytes in order, the first and only the first is marked as
  first, the last and only the last as last; a source of known length is finished after enough packets;
  decoding inverts the packet format.
\<close>

section \<open>Data\<close>

datatype golioth_ble_gatt_packetizer_result =
    GOLIOTH_BLE_GATT_PACKETIZER_MORE_DATA
  | GOLIOTH_BLE_GATT_PACKETIZER_NO_MORE_DATA
  | GOLIOTH_BLE_GATT_PACKETIZER_EMPTY_PAYLOAD
  | GOLIOTH_BLE_GATT_PACKETIZER_ERROR

type_synonym 'u fill_cb = "nat \<Rightarrow> 'u \<Rightarrow> (golioth_ble_gatt_packetizer_result \<times> size_t \<times> byte list \<times> 'u) option"

definition GOLIOTH_BLE_GATT_PACKET_FIRST :: byte where
  "GOLIOTH_BLE_GATT_PACKET_FIRST = 1"

definition GOLIOTH_BLE_GATT_PACKET_LAST :: byte where
  "GOLIOTH_BLE_GATT_PACKET_LAST = 2"

text \<open>The union and its tag; the source pointer is the bytes from it on.\<close>

datatype 'u golioth_ble_gatt_packetizer_fill =
    GOLIOTH_BLE_GATT_PACKETIZER_FILL_BUFFER "byte list" size_t
  | GOLIOTH_BLE_GATT_PACKETIZER_FILL_CALLBACK "'u fill_cb"

text \<open>\<open>pk_error\<close> is \<^const>\<open>OK\<close> for 0.\<close>

record 'u golioth_ble_gatt_packetizer =
  pk_fill :: "'u golioth_ble_gatt_packetizer_fill"
  pk_is_first :: bool
  pk_error :: ret

section \<open>Operations\<close>

text \<open>The argument \<open>ok\<close> is whether \<^verbatim>\<open>malloc\<close> returns memory.\<close>

definition golioth_ble_gatt_packetizer_start_buffer ::
  "bool \<Rightarrow> byte list \<Rightarrow> size_t \<Rightarrow> 'u golioth_ble_gatt_packetizer option" where
  "golioth_ble_gatt_packetizer_start_buffer ok src src_len =
     (if ok then Some \<lparr>pk_fill = GOLIOTH_BLE_GATT_PACKETIZER_FILL_BUFFER src src_len, pk_is_first = True, pk_error = OK\<rparr>
      else None)"

definition golioth_ble_gatt_packetizer_start_callback ::
  "bool \<Rightarrow> 'u fill_cb \<Rightarrow> 'u golioth_ble_gatt_packetizer option" where
  "golioth_ble_gatt_packetizer_start_callback ok func =
     (if ok then Some \<lparr>pk_fill = GOLIOTH_BLE_GATT_PACKETIZER_FILL_CALLBACK func, pk_is_first = True, pk_error = OK\<rparr>
      else None)"

text \<open>
  The result, \<^verbatim>\<open>*dst_len\<close> after the call, the bytes stored at the destination, and the states. The flag byte
  is stored before the size of the destination is looked at.
\<close>

definition golioth_ble_gatt_packetizer_get ::
  "size_t \<Rightarrow> 'u golioth_ble_gatt_packetizer \<Rightarrow> 'u
     \<Rightarrow> (golioth_ble_gatt_packetizer_result \<times> size_t \<times> byte list \<times> 'u golioth_ble_gatt_packetizer \<times> 'u) option" where
  "golioth_ble_gatt_packetizer_get dst_len pk u =
     (if dst_len = 0 then None
      else if dst_len \<le> 1 then Some (GOLIOTH_BLE_GATT_PACKETIZER_ERROR, dst_len, [0], pk\<lparr>pk_error := Err ENOMEM\<rparr>, u)
      else
        let flags = (if pk_is_first pk then GOLIOTH_BLE_GATT_PACKET_FIRST else 0);
            pk = pk\<lparr>pk_is_first := False\<rparr> in
        case pk_fill pk of
          GOLIOTH_BLE_GATT_PACKETIZER_FILL_BUFFER src len \<Rightarrow>
            (let fits = (dst_len - 1 \<ge> len);
                 bytes_to_copy = (if fits then len else dst_len - 1);
                 flags = (if fits then flags OR GOLIOTH_BLE_GATT_PACKET_LAST else flags);
                 r = (if fits then GOLIOTH_BLE_GATT_PACKETIZER_NO_MORE_DATA else GOLIOTH_BLE_GATT_PACKETIZER_MORE_DATA) in
             do { xs \<leftarrow> mem_read 0 bytes_to_copy src;
                  Some (r, 1 + bytes_to_copy, flags # xs,
                        pk\<lparr>pk_fill := GOLIOTH_BLE_GATT_PACKETIZER_FILL_BUFFER (drop bytes_to_copy src) (len - bytes_to_copy)\<rparr>, u) })
        | GOLIOTH_BLE_GATT_PACKETIZER_FILL_CALLBACK func \<Rightarrow>
            do { (cb_result, bytes_to_fill, xs, u) \<leftarrow> func (dst_len - 1) u;
                 if cb_result = GOLIOTH_BLE_GATT_PACKETIZER_ERROR
                 then Some (GOLIOTH_BLE_GATT_PACKETIZER_ERROR, 0, flags # xs, pk\<lparr>pk_error := Err ENODATA\<rparr>, u)
                 else
                   let r = (if bytes_to_fill = 0 then GOLIOTH_BLE_GATT_PACKETIZER_EMPTY_PAYLOAD
                            else GOLIOTH_BLE_GATT_PACKETIZER_MORE_DATA) in
                   if cb_result = GOLIOTH_BLE_GATT_PACKETIZER_NO_MORE_DATA
                   then Some (GOLIOTH_BLE_GATT_PACKETIZER_NO_MORE_DATA, 1 + bytes_to_fill,
                              (flags OR GOLIOTH_BLE_GATT_PACKET_LAST) # xs, pk, u)
                   else Some (r, 1 + bytes_to_fill, flags # xs, pk, u) })"

definition golioth_ble_gatt_packetizer_error :: "'u golioth_ble_gatt_packetizer \<Rightarrow> ret" where
  "golioth_ble_gatt_packetizer_error pk = pk_error pk"

text \<open>
  The payload, and whether it is the first and the last of its sequence. \<open>outs\<close> is whether the pointers for
  the results are given.
\<close>

definition golioth_ble_gatt_packetizer_decode ::
  "bool \<Rightarrow> byte list option \<Rightarrow> size_t \<Rightarrow> (errno + byte list \<times> bool \<times> bool) option" where
  "golioth_ble_gatt_packetizer_decode outs buf buf_len =
     (case buf of
        None \<Rightarrow> Some (Inl EINVAL)
      | Some buf \<Rightarrow>
          if \<not> outs \<or> buf_len < 1 then Some (Inl EINVAL)
          else do { flags \<leftarrow> mem_read 0 1 buf;
                    payload \<leftarrow> mem_read 1 (buf_len - 1) buf;
                    Some (Inr (payload, flags ! 0 AND GOLIOTH_BLE_GATT_PACKET_FIRST \<noteq> 0,
                               flags ! 0 AND GOLIOTH_BLE_GATT_PACKET_LAST \<noteq> 0)) })"

section \<open>Packets of a sequence of chunks\<close>

definition packet_image :: "bool \<Rightarrow> bool \<Rightarrow> byte list \<Rightarrow> byte list" where
  "packet_image is_first is_last xs =
     ((if is_first then GOLIOTH_BLE_GATT_PACKET_FIRST else 0) OR (if is_last then GOLIOTH_BLE_GATT_PACKET_LAST else 0)) # xs"

text \<open>The packets of chunks: \<open>start\<close> is whether they begin a sequence, \<open>fin\<close> whether they end it.\<close>

fun packet_images :: "bool \<Rightarrow> bool \<Rightarrow> byte list list \<Rightarrow> byte list list" where
  "packet_images start fin [] = []"
| "packet_images start fin (xs # chunks) = packet_image start (fin \<and> chunks = []) xs # packet_images False fin chunks"

text \<open>Getting one packet for each destination size, until the last one.\<close>

fun get_packets ::
  "nat list \<Rightarrow> 'u golioth_ble_gatt_packetizer \<Rightarrow> 'u
     \<Rightarrow> (bool \<times> byte list list \<times> 'u golioth_ble_gatt_packetizer \<times> 'u) option" where
  "get_packets [] pk u = Some (False, [], pk, u)"
| "get_packets (len # lens) pk u =
     do { (r, n, pkt, pk, u) \<leftarrow> golioth_ble_gatt_packetizer_get len pk u;
          if r = GOLIOTH_BLE_GATT_PACKETIZER_ERROR then Some (False, [], pk, u)
          else if r = GOLIOTH_BLE_GATT_PACKETIZER_NO_MORE_DATA then Some (True, [take n pkt], pk, u)
          else do { (fin, pkts, pk, u) \<leftarrow> get_packets lens pk u; Some (fin, take n pkt # pkts, pk, u) } }"

section \<open>Lemmas\<close>

lemma decode_image [simp]:
  assumes "length xs + 1 < SIZE_MOD"
  shows "golioth_ble_gatt_packetizer_decode True (Some (packet_image f l xs)) (length xs + 1) = Some (Inr (xs, f, l))"
  using assms by (cases f; cases l)
    (simp_all add: golioth_ble_gatt_packetizer_decode_def packet_image_def mem_read_def GOLIOTH_BLE_GATT_PACKET_FIRST_def
      GOLIOTH_BLE_GATT_PACKET_LAST_def)

lemma length_packet_image [simp]: "length (packet_image f l xs) = length xs + 1"
  by (simp add: packet_image_def)

lemma length_packet_images [simp]: "length (packet_images start fin chunks) = length chunks"
  by (induction chunks arbitrary: start) simp_all

text \<open>One packet from the source behind a packetizer, by what the source did.\<close>

lemma get_buffer_packet:
  assumes "pk_fill pk = GOLIOTH_BLE_GATT_PACKETIZER_FILL_BUFFER src n" "n \<le> length src" "2 \<le> len" "length src < SIZE_MOD"
  shows "golioth_ble_gatt_packetizer_get len pk u =
    Some (if n < len then GOLIOTH_BLE_GATT_PACKETIZER_NO_MORE_DATA else GOLIOTH_BLE_GATT_PACKETIZER_MORE_DATA,
          1 + min (len - 1) n, packet_image (pk_is_first pk) (n < len) (take (len - 1) (take n src)),
          pk\<lparr>pk_is_first := False,
             pk_fill := GOLIOTH_BLE_GATT_PACKETIZER_FILL_BUFFER (drop (min (len - 1) n) src) (n - min (len - 1) n)\<rparr>, u)"
  using assms by (auto simp: golioth_ble_gatt_packetizer_get_def mem_read_def packet_image_def Let_def min_def)

lemma get_callback_packet:
  assumes "pk_fill pk = GOLIOTH_BLE_GATT_PACKETIZER_FILL_CALLBACK func" "2 \<le> len"
    "func (len - 1) u = Some (r, length xs, xs, u')" "r = GOLIOTH_BLE_GATT_PACKETIZER_MORE_DATA \<or> r = GOLIOTH_BLE_GATT_PACKETIZER_NO_MORE_DATA"
  shows "golioth_ble_gatt_packetizer_get len pk u =
    Some (if r = GOLIOTH_BLE_GATT_PACKETIZER_NO_MORE_DATA then r
          else if xs = [] then GOLIOTH_BLE_GATT_PACKETIZER_EMPTY_PAYLOAD else GOLIOTH_BLE_GATT_PACKETIZER_MORE_DATA,
          1 + length xs, packet_image (pk_is_first pk) (r = GOLIOTH_BLE_GATT_PACKETIZER_NO_MORE_DATA) xs,
          pk\<lparr>pk_is_first := False\<rparr>, u')"
  using assms by (auto simp: golioth_ble_gatt_packetizer_get_def packet_image_def Let_def)

lemma get_packets_buffer:
  assumes "pk_fill pk = GOLIOTH_BLE_GATT_PACKETIZER_FILL_BUFFER src n" "n \<le> length src" "length src < SIZE_MOD"
    "list_all (\<lambda>len. 2 \<le> len) lens" "n < length lens"
  shows "\<exists>chunks pk'. get_packets lens pk u = Some (True, packet_images (pk_is_first pk) True chunks, pk', u)
    \<and> chunks \<noteq> [] \<and> concat chunks = take n src"
  using assms
proof (induction lens arbitrary: pk src n)
  case Nil
  then show ?case by simp
next
  case (Cons len lens)
  then have len: "2 \<le> len" by simp
  note g = get_buffer_packet [OF Cons.prems(1,2) len Cons.prems(3), of u]
  show ?case
  proof (cases "n < len")
    case True
    then have "min (len - 1) n = n" by simp
    with g len True Cons.prems(2) show ?thesis by (intro exI [of _ "[take n src]"] exI) auto
  next
    case False
    let ?k = "len - 1"
    let ?pk = "pk\<lparr>pk_is_first := False, pk_fill := GOLIOTH_BLE_GATT_PACKETIZER_FILL_BUFFER (drop ?k src) (n - ?k)\<rparr>"
    have "n - ?k \<le> length (drop ?k src)" "length (drop ?k src) < SIZE_MOD" "n - ?k < length lens"
      using Cons.prems len False by auto
    then obtain chunks pk' where i: "get_packets lens ?pk u = Some (True, packet_images False True chunks, pk', u)"
      "chunks \<noteq> []" "concat chunks = take (n - ?k) (drop ?k src)"
      using Cons.IH [of ?pk "drop ?k src" "n - ?k"] Cons.prems(4) by auto
    have "get_packets (len # lens) pk u = Some (True, packet_images (pk_is_first pk) True (take ?k src # chunks), pk', u)"
      using g i(1,2) False len Cons.prems(2) by (auto simp: min_def packet_image_def)
    moreover have "concat (take ?k src # chunks) = take n src"
      using i(3) False by (simp add: take_add [symmetric])
    ultimately show ?thesis by blast
  qed
qed

section \<open>What the packetizer relies on from a callback\<close>

text \<open>
  A callback whose state satisfies \<open>ready\<close> stores at most as many bytes as there is space, the next ones of
  what is left of the source, and reports the end only when nothing is left; \<open>finished\<close> holds from then on.
\<close>

locale packet_source =
  fixes fill :: "'u fill_cb" and ready :: "'u \<Rightarrow> bool" and rest :: "'u \<Rightarrow> byte list" and finished :: "'u \<Rightarrow> bool"
  assumes fill_law: "ready u \<Longrightarrow> 0 < n \<Longrightarrow>
    \<exists>r xs u'. fill n u = Some (r, length xs, xs, u') \<and> length xs \<le> n \<and> rest u = xs @ rest u'
      \<and> (r = GOLIOTH_BLE_GATT_PACKETIZER_MORE_DATA \<and> ready u'
          \<or> r = GOLIOTH_BLE_GATT_PACKETIZER_NO_MORE_DATA \<and> rest u' = [] \<and> finished u')"
begin

lemma get_packets_frames:
  assumes "ready u" "pk_fill pk = GOLIOTH_BLE_GATT_PACKETIZER_FILL_CALLBACK fill" "list_all (\<lambda>len. 2 \<le> len) lens"
  shows "\<exists>fin chunks pk' u'. get_packets lens pk u = Some (fin, packet_images (pk_is_first pk) fin chunks, pk', u')
    \<and> length chunks \<le> length lens \<and> list_all2 (\<lambda>len xs. length xs < len) (take (length chunks) lens) chunks
    \<and> concat chunks @ rest u' = rest u \<and> (if fin then rest u' = [] \<and> finished u' \<and> chunks \<noteq> [] else ready u' \<and> length chunks = length lens)"
  using assms
proof (induction lens arbitrary: pk u)
  case Nil
  then show ?case by (intro exI [of _ False] exI [of _ "[]"] exI [of _ pk] exI [of _ u]) simp
next
  case (Cons len lens)
  then have len: "2 \<le> len" by simp
  obtain r xs u1 where f: "fill (len - 1) u = Some (r, length xs, xs, u1)" "length xs \<le> len - 1" "rest u = xs @ rest u1"
    "r = GOLIOTH_BLE_GATT_PACKETIZER_MORE_DATA \<and> ready u1 \<or> r = GOLIOTH_BLE_GATT_PACKETIZER_NO_MORE_DATA \<and> rest u1 = [] \<and> finished u1"
    using fill_law [OF Cons.prems(1), of "len - 1"] len by auto
  note g = get_callback_packet [where func = fill and pk = pk and u = u and xs = xs and r = r and u' = u1, OF Cons.prems(2) len f(1)]
  show ?case
  proof (cases "r = GOLIOTH_BLE_GATT_PACKETIZER_NO_MORE_DATA")
    case True
    with g f len show ?thesis
      by (intro exI [of _ True] exI [of _ "[xs]"] exI [of _ "pk\<lparr>pk_is_first := False\<rparr>"] exI [of _ u1]) auto
  next
    case False
    then have u1: "ready u1" and r: "r = GOLIOTH_BLE_GATT_PACKETIZER_MORE_DATA" using f(4) by auto
    let ?pk = "pk\<lparr>pk_is_first := False\<rparr>"
    obtain fin chunks pk' u' where i: "get_packets lens ?pk u1 = Some (fin, packet_images False fin chunks, pk', u')"
      "length chunks \<le> length lens" "list_all2 (\<lambda>len xs. length xs < len) (take (length chunks) lens) chunks"
      "concat chunks @ rest u' = rest u1" "if fin then rest u' = [] \<and> finished u' \<and> chunks \<noteq> [] else ready u' \<and> length chunks = length lens"
      using Cons.IH [OF u1, of ?pk] Cons.prems(2,3) by auto
    have "get_packets (len # lens) pk u = Some (fin, packet_images (pk_is_first pk) fin (xs # chunks), pk', u')"
      using g r i(1,5) by (auto simp: packet_image_def split: if_splits)
    then show ?thesis
      using i(2-5) f(2,3) len by (intro exI [of _ fin] exI [of _ "xs # chunks"] exI [of _ pk'] exI [of _ u'])
        (auto split: if_splits)
  qed
qed

end

text \<open>A source of known length always fills the space or ends.\<close>

locale exact_source = packet_source +
  assumes exact_law: "ready u \<Longrightarrow> 0 < n \<Longrightarrow>
    \<exists>u'. fill n u = Some (if length (rest u) \<le> n then GOLIOTH_BLE_GATT_PACKETIZER_NO_MORE_DATA else GOLIOTH_BLE_GATT_PACKETIZER_MORE_DATA,
      length (take n (rest u)), take n (rest u), u') \<and> rest u' = drop n (rest u)
      \<and> (n < length (rest u) \<longrightarrow> ready u')"
begin

lemma get_packets_finishes:
  assumes "ready u" "pk_fill pk = GOLIOTH_BLE_GATT_PACKETIZER_FILL_CALLBACK fill" "list_all (\<lambda>len. 2 \<le> len) lens"
    "length (rest u) < length lens"
  shows "\<exists>chunks pk' u'. get_packets lens pk u = Some (True, packet_images (pk_is_first pk) True chunks, pk', u')
    \<and> chunks \<noteq> [] \<and> concat chunks = rest u \<and> finished u'"
  using assms
proof (induction lens arbitrary: pk u)
  case Nil
  then show ?case by simp
next
  case (Cons len lens)
  then have len: "2 \<le> len" by simp
  let ?n = "len - 1"
  obtain u1 where f: "fill ?n u = Some (if length (rest u) \<le> ?n then GOLIOTH_BLE_GATT_PACKETIZER_NO_MORE_DATA
      else GOLIOTH_BLE_GATT_PACKETIZER_MORE_DATA, length (take ?n (rest u)), take ?n (rest u), u1)"
    "rest u1 = drop ?n (rest u)" "?n < length (rest u) \<longrightarrow> ready u1"
    using exact_law [OF Cons.prems(1), of ?n] len by auto
  note g = get_callback_packet [where func = fill and pk = pk and u = u and xs = "take ?n (rest u)" and u' = u1, OF Cons.prems(2) len f(1)]
  show ?case
  proof (cases "length (rest u) \<le> ?n")
    case True
    moreover have "finished u1" using fill_law [OF Cons.prems(1), of ?n] f(1) True len by auto
    ultimately show ?thesis using g len
      by (intro exI [of _ "[rest u]"] exI [of _ "pk\<lparr>pk_is_first := False\<rparr>"] exI [of _ u1]) auto
  next
    case False
    let ?pk = "pk\<lparr>pk_is_first := False\<rparr>"
    have "length (rest u1) < length lens" using f(2) Cons.prems(4) len False by simp
    then obtain chunks pk' u' where i: "get_packets lens ?pk u1 = Some (True, packet_images False True chunks, pk', u')"
      "chunks \<noteq> []" "concat chunks = rest u1" "finished u'"
      using Cons.IH [of u1 ?pk] Cons.prems(2,3) f(3) False by auto
    have "get_packets (len # lens) pk u = Some (True, packet_images (pk_is_first pk) True (take ?n (rest u) # chunks), pk', u')"
      using g i(1,2) False len by (auto simp: packet_image_def)
    then show ?thesis
      using i(3,4) f(2) by (intro exI [of _ "take ?n (rest u) # chunks"] exI [of _ pk'] exI [of _ u']) simp
  qed
qed

end

end
