(* ===== verification/Gatt.thy ===== *)
theory Gatt
  imports Packetizer Uplink_Runs Downlink Cert
begin

text \<open>
  The characteristics of the BLE GATT transport, \<^verbatim>\<open>src/src/transport/ble_gatt/\<close>: the uplink
  (\<^verbatim>\<open>uplink_characteristic.c\<close>), the downlink (\<^verbatim>\<open>downlink_characteristic.c\<close>), the device certificate
  (\<^verbatim>\<open>device_cert_characteristic.c\<close>), the server certificate (\<^verbatim>\<open>server_cert_characteristic.c\<close>) and the info record
  (\<^verbatim>\<open>info_characteristic.c\<close>). A read callback gets the size of the destination and an offset; a write callback
  gets the bytes written. The callbacks that the characteristics give to the packetizer are interpretations
  of the locale \<open>packet_source\<close>.

  Shown here: a session that has been closed is read to its end as packets that carry exactly the bytes that
  wait for the transport; a failed start of a session is followed by an access through a null pointer; writing
  the packets of any chunks is pushing the chunks; a server certificate arrives as it was sent if it fits, and
  is written behind its allocation if it does not.
\<close>

section \<open>Results of the callbacks\<close>

text \<open>A number of bytes, an ATT error, or a negative error number.\<close>

datatype att_result = Att_len nat | BT_ATT_ERR_UNLIKELY | BT_ATT_ERR_NOT_SUPPORTED
  | BT_ATT_ERR_INSUFFICIENT_RESOURCES | Att_errno ret

text \<open>
  The end of every read callback: get a packet, and let go of the packetizer after the last one and after
  an error. The argument \<open>failed\<close> is what the callback returns for an error.
\<close>

definition packet_read ::
  "att_result \<Rightarrow> nat \<Rightarrow> 'u golioth_ble_gatt_packetizer \<Rightarrow> 'u
     \<Rightarrow> (att_result \<times> byte list \<times> 'u golioth_ble_gatt_packetizer option \<times> 'u) option" where
  "packet_read failed len pk u =
     do { (r, buf_len, pkt, pk, u) \<leftarrow> golioth_ble_gatt_packetizer_get len pk u;
          if r = GOLIOTH_BLE_GATT_PACKETIZER_ERROR then Some (failed, pkt, None, u)
          else if r = GOLIOTH_BLE_GATT_PACKETIZER_NO_MORE_DATA then Some (Att_len buf_len, pkt, None, u)
          else Some (Att_len buf_len, pkt, Some pk, u) }"

section \<open>Uplink\<close>

text \<open>
  The packetizer's user argument is the result of \<^verbatim>\<open>pouch_uplink_start\<close>: \<open>pouch\<close> is false for \<^verbatim>\<open>NULL\<close>. There is
  always space for a byte here, so every path of the callback goes through that pointer: the fill loop if the
  session is active, \<^verbatim>\<open>pouch_uplink_finish\<close> if it is not.
\<close>

definition uplink_fill_cb :: "config \<Rightarrow> 'c crypto_ops \<Rightarrow> bool \<Rightarrow> 'c node fill_cb" where
  "uplink_fill_cb c ops pouch n s =
     (if \<not> pouch then None
      else do { (pouch_ret, len, xs, s) \<leftarrow> pouch_uplink_fill c ops n s;
                Some (case pouch_ret of
                        POUCH_ERROR \<Rightarrow> (GOLIOTH_BLE_GATT_PACKETIZER_ERROR, len, xs, pouch_uplink_finish c ops s)
                      | POUCH_NO_MORE_DATA \<Rightarrow> (GOLIOTH_BLE_GATT_PACKETIZER_NO_MORE_DATA, len, xs, pouch_uplink_finish c ops s)
                      | POUCH_MORE_DATA \<Rightarrow> (GOLIOTH_BLE_GATT_PACKETIZER_MORE_DATA, len, xs, s)) })"

definition uplink_read ::
  "config \<Rightarrow> header_codec \<Rightarrow> 'c crypto_ops \<Rightarrow> nat \<Rightarrow> nat \<Rightarrow> 'c node golioth_ble_gatt_packetizer option \<Rightarrow> 'c node
     \<Rightarrow> (att_result \<times> byte list \<times> 'c node golioth_ble_gatt_packetizer option \<times> 'c node) option" where
  "uplink_read c codec ops len offset packetizer s =
     (if offset \<noteq> 0 then Some (Att_len 0, [], packetizer, s)
      else do {
        (packetizer, s) \<leftarrow>
          (case packetizer of
             Some pk \<Rightarrow> Some (Some pk, s)
           | None \<Rightarrow>
               do { (pouch, s) \<leftarrow> pouch_uplink_start c codec ops s;
                    let (ok, h) = malloc (n_heap s);
                    Some (golioth_ble_gatt_packetizer_start_callback ok (uplink_fill_cb c ops pouch), s\<lparr>n_heap := h\<rparr>) });
        pk \<leftarrow> packetizer;
        packet_read BT_ATT_ERR_UNLIKELY len pk s })"

section \<open>Downlink\<close>

definition downlink_write ::
  "config \<Rightarrow> header_codec \<Rightarrow> 'c crypto_ops \<Rightarrow> byte list \<Rightarrow> 'c downlink \<Rightarrow> (att_result \<times> 'c downlink) option" where
  "downlink_write c codec ops buf d =
     do { r \<leftarrow> golioth_ble_gatt_packetizer_decode True (Some buf) (length buf);
          case r of
            Inl e \<Rightarrow> Some (BT_ATT_ERR_UNLIKELY, d)
          | Inr (data, is_first, is_last) \<Rightarrow>
              do { let d = (if is_first then pouch_downlink_start c d else d);
                   d \<leftarrow> pouch_downlink_push c codec ops data d;
                   Some (Att_len (length buf), if is_last then pouch_downlink_finish d else d) } }"

section \<open>Device certificate\<close>

definition device_cert_fill_cb :: "pouch_cert fill_cb" where
  "device_cert_fill_cb maxlen cert =
     do { let len = min maxlen (pc_size cert);
          xs \<leftarrow> (case pc_buffer cert of None \<Rightarrow> (if len = 0 then Some [] else None) | Some b \<Rightarrow> mem_read 0 len b);
          let cert = cert\<lparr>pc_buffer := map_option (drop len) (pc_buffer cert), pc_size := pc_size cert - len\<rparr>;
          Some (if pc_size cert = 0 then GOLIOTH_BLE_GATT_PACKETIZER_NO_MORE_DATA else GOLIOTH_BLE_GATT_PACKETIZER_MORE_DATA,
                len, xs, cert) }"

record device_cert_ctx =
  dc_packetizer :: "pouch_cert golioth_ble_gatt_packetizer option"
  dc_cert :: pouch_cert

definition device_cert_read ::
  "nat \<Rightarrow> nat \<Rightarrow> device_cert_ctx \<Rightarrow> heap \<Rightarrow> 'x cert_state \<Rightarrow> (att_result \<times> byte list \<times> device_cert_ctx \<times> heap) option" where
  "device_cert_read len offset ctx h ct =
     (if offset \<noteq> 0 then Some (Att_len 0, [], ctx, h)
      else
        let started = (\<lambda>ctx h. do { pk \<leftarrow> dc_packetizer ctx;
                                     (r, xs, pk, cert) \<leftarrow> packet_read BT_ATT_ERR_UNLIKELY len pk (dc_cert ctx);
                                     Some (r, xs, ctx\<lparr>dc_packetizer := pk, dc_cert := cert\<rparr>, h) }) in
        if dc_packetizer ctx \<noteq> None then started ctx h
        else case pouch_device_certificate_get ct of
               Inl e \<Rightarrow> Some (BT_ATT_ERR_NOT_SUPPORTED, [], ctx, h)
             | Inr cert \<Rightarrow>
                 (case malloc h of (ok, h) \<Rightarrow>
                    started (ctx\<lparr>dc_cert := cert,
                                 dc_packetizer := golioth_ble_gatt_packetizer_start_callback ok device_cert_fill_cb\<rparr>) h))"

section \<open>Server certificate\<close>

text \<open>The serial number that is being read, with its length and the read offset.\<close>

record serial_ctx =
  sr_serial :: "byte list"
  sr_serial_len :: byte
  sr_serial_offset :: byte

definition server_cert_serial_fill_cb :: "serial_ctx fill_cb" where
  "server_cert_serial_fill_cb maxlen ctx =
     do { let len = min maxlen (sz_sub (unat (sr_serial_len ctx)) (unat (sr_serial_offset ctx)));
          xs \<leftarrow> mem_read (unat (sr_serial_offset ctx)) len (sr_serial ctx);
          let ctx = ctx\<lparr>sr_serial_offset := sr_serial_offset ctx + word_of_nat len\<rparr>;
          Some (if sr_serial_offset ctx \<ge> sr_serial_len ctx then GOLIOTH_BLE_GATT_PACKETIZER_NO_MORE_DATA
                else GOLIOTH_BLE_GATT_PACKETIZER_MORE_DATA, len, xs, ctx) }"

record server_cert_ctx =
  sc_packetizer :: "serial_ctx golioth_ble_gatt_packetizer option"
  sc_cert :: pouch_cert
  sc_serial :: serial_ctx

definition server_cert_serial_read ::
  "nat \<Rightarrow> nat \<Rightarrow> server_cert_ctx \<Rightarrow> heap \<Rightarrow> 'x cert_state \<Rightarrow> (att_result \<times> byte list \<times> server_cert_ctx \<times> heap) option" where
  "server_cert_serial_read len offset ctx h ct =
     (if offset \<noteq> 0 then Some (Att_len 0, [], ctx, h)
      else
        let started = (\<lambda>ctx h. do { pk \<leftarrow> sc_packetizer ctx;
                                     (r, xs, pk, sr) \<leftarrow> packet_read BT_ATT_ERR_UNLIKELY len pk (sc_serial ctx);
                                     Some (r, xs, ctx\<lparr>sc_packetizer := pk, sc_serial := sr\<rparr>, h) }) in
        if sc_packetizer ctx \<noteq> None then started ctx h
        else do {
          r \<leftarrow> pouch_server_certificate_serial_get (length (sr_serial (sc_serial ctx))) ct;
          case r of
            Inl e \<Rightarrow> Some (BT_ATT_ERR_NOT_SUPPORTED, [], ctx, h)
          | Inr xs \<Rightarrow>
              do { serial \<leftarrow> mem_write 0 xs (sr_serial (sc_serial ctx));
                   case malloc h of (ok, h) \<Rightarrow>
                     started (ctx\<lparr>sc_serial := \<lparr>sr_serial = serial, sr_serial_len = word_of_nat (length xs), sr_serial_offset = 0\<rparr>,
                                  sc_packetizer := golioth_ble_gatt_packetizer_start_callback ok server_cert_serial_fill_cb\<rparr>) h } })"

text \<open>The second component of the result is whether the connection is dropped.\<close>

definition server_cert_write ::
  "config \<Rightarrow> ('x, 'k) tls_ops \<Rightarrow> byte list \<Rightarrow> server_cert_ctx \<Rightarrow> heap \<Rightarrow> 'x cert_state
     \<Rightarrow> (att_result \<times> bool \<times> server_cert_ctx \<times> heap \<times> 'x cert_state) option" where
  "server_cert_write c tls buf ctx h ct =
     do { r \<leftarrow> golioth_ble_gatt_packetizer_decode True (Some buf) (length buf);
          case r of
            Inl e \<Rightarrow> Some (BT_ATT_ERR_UNLIKELY, False, ctx, h, ct)
          | Inr (data, is_first, is_last) \<Rightarrow>
              if data = [] then Some (BT_ATT_ERR_UNLIKELY, False, ctx, h, ct)
              else
                let (cert, h) =
                  (if is_first
                   then (case malloc h of (ok, h') \<Rightarrow>
                           (\<lparr>pc_buffer = (if ok then Some (map (junk h (mallocs h)) [0..<config_server_cert_max_len c]) else None),
                             pc_size = 0\<rparr>, h'))
                   else (sc_cert ctx, h)) in
                case pc_buffer cert of
                  None \<Rightarrow> Some (BT_ATT_ERR_INSUFFICIENT_RESOURCES, False, ctx\<lparr>sc_cert := cert\<rparr>, h, ct)
                | Some b \<Rightarrow>
                    do { b \<leftarrow> mem_write (pc_size cert) data b;
                         let cert = \<lparr>pc_buffer = Some b, pc_size = pc_size cert + length data\<rparr>;
                         if is_last
                         then do { (err, ct) \<leftarrow> pouch_server_certificate_set c tls (Some cert) ct;
                                   Some (Att_len (length buf), err \<noteq> OK, ctx\<lparr>sc_cert := cert\<lparr>pc_buffer := None\<rparr>\<rparr>, h, ct) }
                         else Some (Att_len (length buf), False, ctx\<lparr>sc_cert := cert\<rparr>, h, ct) } }"

section \<open>Info\<close>

definition INFO_CHRC_MAX_SIZE :: nat where
  "INFO_CHRC_MAX_SIZE = 64"

record info_ctx =
  ic_buf :: "byte list"
  ic_buf_len :: size_t
  ic_packetizer :: "unit golioth_ble_gatt_packetizer option"

text \<open>
  \<open>encode\<close> is the generated encoder of the info record: from the flags, the serial number and the space to the
  encoding. The plaintext build has no serial number.
\<close>

definition build_info_data ::
  "config \<Rightarrow> (byte \<Rightarrow> byte list \<Rightarrow> nat \<Rightarrow> byte list option) \<Rightarrow> 'x cert_state \<Rightarrow> info_ctx \<Rightarrow> (ret \<times> info_ctx) option" where
  "build_info_data c encode ct ctx =
     do { snr \<leftarrow> (if config_saead c then pouch_server_certificate_serial_get CERT_SERIAL_MAXLEN ct else Some (Inr []));
          case snr of
            Inl e \<Rightarrow> Some (Err e, ctx)
          | Inr snr \<Rightarrow>
              (let ctx = ctx\<lparr>ic_buf_len := INFO_CHRC_MAX_SIZE\<rparr> in
               case encode 0 snr INFO_CHRC_MAX_SIZE of
                 None \<Rightarrow> Some (Err EZCBOR, ctx)
               | Some xs \<Rightarrow> do { b \<leftarrow> mem_write 0 xs (ic_buf ctx);
                                 Some (OK, ctx\<lparr>ic_buf := b, ic_buf_len := length xs\<rparr>) }) }"

definition info_read ::
  "config \<Rightarrow> (byte \<Rightarrow> byte list \<Rightarrow> nat \<Rightarrow> byte list option) \<Rightarrow> nat \<Rightarrow> nat \<Rightarrow> info_ctx \<Rightarrow> heap \<Rightarrow> 'x cert_state
     \<Rightarrow> (att_result \<times> byte list \<times> info_ctx \<times> heap) option" where
  "info_read c encode len offset ctx h ct =
     (if offset > 0 then Some (Att_len 0, [], ctx, h)
      else
        let started = (\<lambda>ctx h. do { pk \<leftarrow> ic_packetizer ctx;
                                     (r, xs, pk, _) \<leftarrow> packet_read (Att_len 0) len pk ();
                                     Some (r, xs, ctx\<lparr>ic_packetizer := pk\<rparr>, h) }) in
        if ic_packetizer ctx \<noteq> None then started ctx h
        else do {
          (err, ctx) \<leftarrow> build_info_data c encode ct ctx;
          if err \<noteq> OK then Some (Att_errno err, [], ctx, h)
          else case malloc h of (ok, h) \<Rightarrow>
            started (ctx\<lparr>ic_packetizer := golioth_ble_gatt_packetizer_start_buffer ok (ic_buf ctx) (ic_buf_len ctx)\<rparr>) h })"

section \<open>Runs\<close>

text \<open>Reading a characteristic with destinations of the given sizes, until its packetizer is gone.\<close>

fun chrc_reads ::
  "(nat \<Rightarrow> 's \<Rightarrow> (att_result \<times> byte list \<times> 's) option) \<Rightarrow> ('s \<Rightarrow> bool) \<Rightarrow> nat list \<Rightarrow> 's \<Rightarrow> (bool \<times> byte list list \<times> 's) option" where
  "chrc_reads rd idle [] s = Some (False, [], s)"
| "chrc_reads rd idle (len # lens) s =
     do { (r, xs, s) \<leftarrow> rd len s;
          let pkt = (case r of Att_len n \<Rightarrow> take n xs | _ \<Rightarrow> []);
          if idle s then Some (True, [pkt], s)
          else do { (fin, pkts, s) \<leftarrow> chrc_reads rd idle lens s; Some (fin, pkt # pkts, s) } }"

fun downlink_writes ::
  "config \<Rightarrow> header_codec \<Rightarrow> 'c crypto_ops \<Rightarrow> byte list list \<Rightarrow> 'c downlink \<Rightarrow> 'c downlink option" where
  "downlink_writes c codec ops [] d = Some d"
| "downlink_writes c codec ops (pkt # pkts) d =
     do { (_, d) \<leftarrow> downlink_write c codec ops pkt d; downlink_writes c codec ops pkts d }"

text \<open>The flag is whether the connection has been dropped.\<close>

fun server_cert_writes ::
  "config \<Rightarrow> ('x, 'k) tls_ops \<Rightarrow> byte list list \<Rightarrow> server_cert_ctx \<Rightarrow> heap \<Rightarrow> 'x cert_state
     \<Rightarrow> (bool \<times> server_cert_ctx \<times> heap \<times> 'x cert_state) option" where
  "server_cert_writes c tls [] ctx h ct = Some (False, ctx, h, ct)"
| "server_cert_writes c tls (pkt # pkts) ctx h ct =
     do { (_, dropped, ctx, h, ct) \<leftarrow> server_cert_write c tls pkt ctx h ct;
          if dropped then Some (True, ctx, h, ct) else server_cert_writes c tls pkts ctx h ct }"

definition uplink_reads ::
  "config \<Rightarrow> header_codec \<Rightarrow> 'c crypto_ops \<Rightarrow> nat list \<Rightarrow> 'c node golioth_ble_gatt_packetizer option \<times> 'c node
     \<Rightarrow> (bool \<times> byte list list \<times> 'c node golioth_ble_gatt_packetizer option \<times> 'c node) option" where
  "uplink_reads c codec ops =
     chrc_reads (\<lambda>len (pk, s). uplink_read c codec ops len 0 pk s) (\<lambda>s. fst s = None)"

definition device_cert_reads ::
  "'x cert_state \<Rightarrow> nat list \<Rightarrow> device_cert_ctx \<times> heap \<Rightarrow> (bool \<times> byte list list \<times> device_cert_ctx \<times> heap) option" where
  "device_cert_reads ct =
     chrc_reads (\<lambda>len (ctx, h). device_cert_read len 0 ctx h ct)
       (\<lambda>s. dc_packetizer (fst s) = None)"

definition server_cert_serial_reads ::
  "'x cert_state \<Rightarrow> nat list \<Rightarrow> server_cert_ctx \<times> heap \<Rightarrow> (bool \<times> byte list list \<times> server_cert_ctx \<times> heap) option" where
  "server_cert_serial_reads ct =
     chrc_reads (\<lambda>len (ctx, h). server_cert_serial_read len 0 ctx h ct)
       (\<lambda>s. sc_packetizer (fst s) = None)"

definition info_reads ::
  "config \<Rightarrow> (byte \<Rightarrow> byte list \<Rightarrow> nat \<Rightarrow> byte list option) \<Rightarrow> 'x cert_state \<Rightarrow> nat list \<Rightarrow> info_ctx \<times> heap
     \<Rightarrow> (bool \<times> byte list list \<times> info_ctx \<times> heap) option" where
  "info_reads c encode ct =
     chrc_reads (\<lambda>len (ctx, h). info_read c encode len 0 ctx h ct)
       (\<lambda>s. ic_packetizer (fst s) = None)"

lemma chrc_reads_start: "lens \<noteq> [] \<Longrightarrow> rd (hd lens) s = rd (hd lens) s' \<Longrightarrow> chrc_reads rd idle lens s = chrc_reads rd idle lens s'"
  by (cases lens) simp_all

section \<open>Reading through a packetizer\<close>

text \<open>
  What the read callbacks share: with a packetizer in the context \<open>s\<close>, a read is one packet from it. The
  context has the packetizer and the state that its callback reads from.
\<close>

locale read_chrc =
  fixes rd :: "nat \<Rightarrow> 's \<Rightarrow> (att_result \<times> byte list \<times> 's) option"
    and packetizer :: "'s \<Rightarrow> 'u golioth_ble_gatt_packetizer option"
    and user :: "'s \<Rightarrow> 'u"
    and put :: "'u golioth_ble_gatt_packetizer option \<Rightarrow> 'u \<Rightarrow> 's \<Rightarrow> 's"
    and failed :: att_result
  assumes read_started: "packetizer s = Some pk \<Longrightarrow>
      rd len s = map_option (\<lambda>(r, xs, pk, u). (r, xs, put pk u s)) (packet_read failed len pk (user s))"
    and packetizer_put: "packetizer (put p u s) = p"
    and user_put: "user (put p u s) = u"
    and put_put: "put p u (put p' u' s) = put p u s"
begin

lemma reads_get_packets:
  assumes "packetizer s = Some pk" "get_packets lens pk (user s) = Some (True, pkts, pk', u')"
  shows "chrc_reads rd (\<lambda>s. packetizer s = None) lens s = Some (True, pkts, put None u' s)"
  using assms
proof (induction lens arbitrary: s pk pkts)
  case Nil
  then show ?case by simp
next
  case (Cons len lens)
  then obtain r n pkt pk1 u1 where g: "golioth_ble_gatt_packetizer_get len pk (user s) = Some (r, n, pkt, pk1, u1)"
    "r \<noteq> GOLIOTH_BLE_GATT_PACKETIZER_ERROR"
    by (auto split: bind_splits if_splits)
  note rd = read_started [OF Cons.prems(1), of len]
  show ?case
  proof (cases "r = GOLIOTH_BLE_GATT_PACKETIZER_NO_MORE_DATA")
    case True
    with g rd Cons.prems(2) show ?thesis by (simp add: packet_read_def packetizer_put)
  next
    case False
    let ?s = "put (Some pk1) u1 s"
    obtain pkts1 where p: "get_packets lens pk1 u1 = Some (True, pkts1, pk', u')" "pkts = take n pkt # pkts1"
      using g False Cons.prems(2) by (auto split: bind_splits)
    have "chrc_reads rd (\<lambda>s. packetizer s = None) lens ?s = Some (True, pkts1, put None u' ?s)"
      using Cons.IH [of ?s pk1 pkts1] p(1) by (simp add: packetizer_put user_put)
    then show ?thesis using g rd False p(2) by (simp add: packet_read_def packetizer_put put_put)
  qed
qed

end

interpretation up_chrc: read_chrc "\<lambda>len (pk, s). uplink_read c codec ops len 0 pk s"
  fst snd "\<lambda>pk u s. (pk, u)" BT_ATT_ERR_UNLIKELY for c codec ops
  by unfold_locales (auto simp: uplink_read_def option.map_id split: option.splits)

interpretation dev_chrc: read_chrc "\<lambda>len (ctx, h). device_cert_read len 0 ctx h ct"
  "\<lambda>s. dc_packetizer (fst s)" "\<lambda>s. dc_cert (fst s)"
  "\<lambda>pk u (ctx, h). (ctx\<lparr>dc_packetizer := pk, dc_cert := u\<rparr>, h)" BT_ATT_ERR_UNLIKELY for ct
  by unfold_locales (auto simp: device_cert_read_def map_option_bind option.map_comp case_prod_unfold comp_def intro!: option.map_cong split: option.splits prod.splits bind_splits)

interpretation srv_chrc: read_chrc "\<lambda>len (ctx, h). server_cert_serial_read len 0 ctx h ct"
  "\<lambda>s. sc_packetizer (fst s)" "\<lambda>s. sc_serial (fst s)"
  "\<lambda>pk u (ctx, h). (ctx\<lparr>sc_packetizer := pk, sc_serial := u\<rparr>, h)" BT_ATT_ERR_UNLIKELY for ct
  by unfold_locales (auto simp: server_cert_serial_read_def split: option.splits prod.splits bind_splits)

interpretation info_chrc: read_chrc "\<lambda>len (ctx, h). info_read c encode len 0 ctx h ct"
  "\<lambda>s. ic_packetizer (fst s)" "\<lambda>_. ()"
  "\<lambda>pk u (ctx, h). (ctx\<lparr>ic_packetizer := pk\<rparr>, h)" "Att_len 0" for c encode ct
  by unfold_locales (auto simp: info_read_def split: option.splits prod.splits bind_splits)

section \<open>The callbacks as packet sources\<close>

text \<open>
  The uplink while its session is active; once the pouch is closed it is a source of known length, the
  bytes that wait for the transport.
\<close>

context crypto_provider
begin

lemma uplink_fill_cb_spec:
  assumes "node_inv c s" "cinv (n_crypto s)" "session_is_active s"
  shows "\<exists>s'. uplink_fill_cb c ops True n s =
      Some (if pouch_is_open s \<or> n < length (pending s) then GOLIOTH_BLE_GATT_PACKETIZER_MORE_DATA
            else GOLIOTH_BLE_GATT_PACKETIZER_NO_MORE_DATA, length (take n (pending s)), take n (pending s), s')
    \<and> node_inv c s' \<and> cinv (n_crypto s') \<and> balance s' = balance s \<and> pending s' = drop n (pending s)
    \<and> (if pouch_is_open s \<or> n < length (pending s) then session_is_active s' \<and> pouch_is_open s' = pouch_is_open s
        else \<not> session_is_active s' \<and> up_header (n_up s') = None)"
proof -
  obtain t where t: "pouch_uplink_fill c ops n s =
      Some (if pouch_is_open s \<or> drop n (pending s) \<noteq> [] then POUCH_MORE_DATA else POUCH_NO_MORE_DATA,
            min n (length (pending s)), take n (pending s), t)" "node_inv c t" "balance t = balance s" "cinv (n_crypto t)"
    "pending t = drop n (pending s)" "session_is_active t = (pouch_is_open s \<or> drop n (pending s) \<noteq> [])"
    "pouch_is_open t = pouch_is_open s"
    using fill_spec [OF assms(2,1,3), of n] by blast
  show ?thesis
  proof (cases "pouch_is_open s \<or> n < length (pending s)")
    case True
    with t show ?thesis by (intro exI [of _ t]) (auto simp: uplink_fill_cb_def min_def)
  next
    case False
    note f = finish_spec [OF t(4,2)]
    from False t f show ?thesis
      by (intro exI [of _ "pouch_uplink_finish c ops t"]) (auto simp: uplink_fill_cb_def min_def)
  qed
qed

end

sublocale crypto_provider \<subseteq> open_session: packet_source "uplink_fill_cb c ops True"
  "\<lambda>s. node_inv c s \<and> cinv (n_crypto s) \<and> session_is_active s" pending
  "\<lambda>s. node_inv c s \<and> cinv (n_crypto s) \<and> \<not> session_is_active s \<and> up_header (n_up s) = None"
proof (unfold_locales, goal_cases)
  case (1 s n)
  then show ?case using uplink_fill_cb_spec [of s n] by fastforce
qed

sublocale crypto_provider \<subseteq> closed_session: exact_source "uplink_fill_cb c ops True"
  "\<lambda>s. node_inv c s \<and> cinv (n_crypto s) \<and> session_is_active s \<and> \<not> pouch_is_open s" pending
  "\<lambda>s. node_inv c s \<and> cinv (n_crypto s) \<and> \<not> session_is_active s \<and> up_header (n_up s) = None"
proof (unfold_locales, goal_cases)
  case (1 s n)
  then show ?case using uplink_fill_cb_spec [of s n] by fastforce
next
  case (2 s n)
  then show ?case using uplink_fill_cb_spec [of s n] by (auto simp: not_less)
qed

text \<open>The certificate: what is left is the claimed number of bytes from the pointer on.\<close>

lemma device_cert_fill_cb_spec:
  assumes "cert_ok cert" "pc_buffer cert = Some b"
  shows "\<exists>cert'. device_cert_fill_cb n cert =
      Some (if pc_size cert \<le> n then GOLIOTH_BLE_GATT_PACKETIZER_NO_MORE_DATA else GOLIOTH_BLE_GATT_PACKETIZER_MORE_DATA,
        length (take n (take (pc_size cert) b)), take n (take (pc_size cert) b), cert')
    \<and> cert_ok cert' \<and> pc_buffer cert' = Some (drop (min n (pc_size cert)) b) \<and> pc_size cert' = pc_size cert - min n (pc_size cert)"
  using assms by (auto simp: device_cert_fill_cb_def cert_ok_def mem_read_def min_def Let_def)

interpretation cert_source: exact_source device_cert_fill_cb "\<lambda>cert. cert_ok cert \<and> pc_buffer cert \<noteq> None"
  "\<lambda>cert. take (pc_size cert) (the (pc_buffer cert))" "\<lambda>_. True"
proof (unfold_locales, goal_cases)
  case (1 cert n)
  then obtain b where b: "cert_ok cert" "pc_buffer cert = Some b" by auto
  then have "pc_size cert \<le> length b" by (simp add: cert_ok_def)
  moreover have "take (pc_size cert) b = take n b @ take (pc_size cert - n) (drop n b)" if "n < pc_size cert"
    using that by (simp add: take_add [symmetric])
  ultimately show ?case using b device_cert_fill_cb_spec [OF b, of n] by (auto simp: min_def split: if_splits)
next
  case (2 cert n)
  then obtain b where b: "cert_ok cert" "pc_buffer cert = Some b" by auto
  then have "pc_size cert \<le> length b" by (simp add: cert_ok_def)
  with b show ?case using device_cert_fill_cb_spec [OF b, of n] by (auto simp: min_def drop_take split: if_splits)
qed

text \<open>The serial number: the offset stays inside the recorded length.\<close>

definition serial_ready :: "serial_ctx \<Rightarrow> bool" where
  "serial_ready ctx \<longleftrightarrow> sr_serial_offset ctx \<le> sr_serial_len ctx \<and> unat (sr_serial_len ctx) \<le> length (sr_serial ctx)
     \<and> length (sr_serial ctx) < SIZE_MOD"

definition serial_rest :: "serial_ctx \<Rightarrow> byte list" where
  "serial_rest ctx = drop (unat (sr_serial_offset ctx)) (take (unat (sr_serial_len ctx)) (sr_serial ctx))"

lemma serial_fill_cb_spec:
  assumes "serial_ready ctx"
  shows "\<exists>ctx'. server_cert_serial_fill_cb n ctx =
      Some (if length (serial_rest ctx) \<le> n then GOLIOTH_BLE_GATT_PACKETIZER_NO_MORE_DATA else GOLIOTH_BLE_GATT_PACKETIZER_MORE_DATA,
        length (take n (serial_rest ctx)), take n (serial_rest ctx), ctx')
    \<and> serial_ready ctx' \<and> serial_rest ctx' = drop n (serial_rest ctx)"
proof -
  define o' l where "o' = unat (sr_serial_offset ctx)" and "l = unat (sr_serial_len ctx)"
  have le: "o' \<le> l" "l \<le> length (sr_serial ctx)" "length (sr_serial ctx) < SIZE_MOD" "l < 256"
    using assms unsigned_less [of "sr_serial_len ctx"] by (auto simp: serial_ready_def o'_def l_def word_le_nat_alt)
  define k where "k = min n (l - o')"
  have k: "o' + k \<le> l" "k \<le> n" using le by (auto simp: k_def)
  have u: "unat (sr_serial_offset ctx + word_of_nat k) = o' + k"
    using k le by (simp add: o'_def unat_word_ariths unat_of_nat)
  have sub: "sz_sub l o' = l - o'" using le by (simp add: sz_sub_def)
  have len: "length (serial_rest ctx) = l - o'" using le by (simp add: serial_rest_def o'_def [symmetric] l_def [symmetric])
  have tk: "take k (drop o' (sr_serial ctx)) = take n (serial_rest ctx)"
    using le by (simp add: serial_rest_def o'_def [symmetric] l_def [symmetric] k_def drop_take min.commute)
  have "server_cert_serial_fill_cb n ctx =
      Some (if l \<le> o' + k then GOLIOTH_BLE_GATT_PACKETIZER_NO_MORE_DATA else GOLIOTH_BLE_GATT_PACKETIZER_MORE_DATA, k,
        take k (drop o' (sr_serial ctx)), ctx\<lparr>sr_serial_offset := sr_serial_offset ctx + word_of_nat k\<rparr>)"
    using le k u by (simp add: server_cert_serial_fill_cb_def o'_def [symmetric] l_def [symmetric] sub k_def [symmetric]
        mem_read_def word_le_nat_alt)
  moreover have "(l \<le> o' + k) = (l - o' \<le> n)" using le by (auto simp: k_def)
  moreover have "length (take n (serial_rest ctx)) = k" using len by (simp add: k_def min.commute)
  moreover have "serial_ready (ctx\<lparr>sr_serial_offset := sr_serial_offset ctx + word_of_nat k\<rparr>)"
    using le k u by (simp add: serial_ready_def word_le_nat_alt l_def [symmetric])
  moreover have "serial_rest (ctx\<lparr>sr_serial_offset := sr_serial_offset ctx + word_of_nat k\<rparr>) = drop n (serial_rest ctx)"
  proof -
    have "drop (o' + k) (take l (sr_serial ctx)) = drop n (drop o' (take l (sr_serial ctx)))"
      using le by (auto simp: k_def min_def add.commute)
    then show ?thesis by (simp add: serial_rest_def u l_def [symmetric] o'_def [symmetric])
  qed
  ultimately show ?thesis using tk len by auto
qed

interpretation serial_source: exact_source server_cert_serial_fill_cb serial_ready serial_rest "\<lambda>_. True"
proof (unfold_locales, goal_cases)
  case (1 ctx n)
  then show ?case using serial_fill_cb_spec [of ctx n] by fastforce
next
  case (2 ctx n)
  then show ?case using serial_fill_cb_spec [of ctx n] by blast
qed

section \<open>Transfers\<close>

subsection \<open>Reading\<close>

context crypto_provider
begin

lemma closed_session_reads:
  assumes "node_inv c s" "cinv (n_crypto s)" "session_is_active s" "\<not> pouch_is_open s"
    "pk_fill pk = GOLIOTH_BLE_GATT_PACKETIZER_FILL_CALLBACK (uplink_fill_cb c ops True)"
    "list_all (\<lambda>len. 2 \<le> len) lens" "length (pending s) < length lens"
  shows "\<exists>chunks s'. uplink_reads c codec ops lens (Some pk, s) = Some (True, packet_images (pk_is_first pk) True chunks, None, s')
    \<and> concat chunks = pending s \<and> node_inv c s' \<and> cinv (n_crypto s') \<and> \<not> session_is_active s' \<and> up_header (n_up s') = None"
proof -
  obtain chunks pk' s' where g: "get_packets lens pk s = Some (True, packet_images (pk_is_first pk) True chunks, pk', s')"
    "concat chunks = pending s" "node_inv c s' \<and> cinv (n_crypto s') \<and> \<not> session_is_active s' \<and> up_header (n_up s') = None"
    using closed_session.get_packets_finishes [of s pk lens] assms by blast
  show ?thesis
    using up_chrc.reads_get_packets [of "(Some pk, s)" pk lens _ pk' s' c codec ops] g by (auto simp: uplink_reads_def)
qed

end

text \<open>A failed start: the first read goes through the null pointer.\<close>

lemma failed_start_read:
  assumes "pouch_uplink_start c codec ops s = Some (False, s1)" "len \<noteq> 1"
  shows "uplink_read c codec ops len 0 None s = None"
  using assms
  by (auto simp: uplink_read_def packet_read_def golioth_ble_gatt_packetizer_start_callback_def golioth_ble_gatt_packetizer_get_def
      uplink_fill_cb_def malloc_def Let_def)

lemma device_cert_transfer:
  assumes "pouch_device_certificate_get ct = Inr cert" "cert_ok cert" "dc_packetizer ctx = None" "malloc_ok h (mallocs h)"
    "list_all (\<lambda>len. 2 \<le> len) lens" "pc_size cert < length lens"
  shows "\<exists>chunks ctx' h'. device_cert_reads ct lens (ctx, h) = Some (True, packet_images True True chunks, ctx', h')
    \<and> dc_packetizer ctx' = None \<and> cert_bytes cert = Some (concat chunks)"
proof -
  let ?pk = "\<lparr>pk_fill = GOLIOTH_BLE_GATT_PACKETIZER_FILL_CALLBACK device_cert_fill_cb, pk_is_first = True, pk_error = OK\<rparr>"
  let ?s = "(ctx\<lparr>dc_packetizer := Some ?pk, dc_cert := cert\<rparr>, snd (malloc h))"
  have b: "pc_buffer cert \<noteq> None" "cert_bytes cert = Some (take (pc_size cert) (the (pc_buffer cert)))"
    using assms(1,2) by (auto simp: pouch_device_certificate_get_def cert_is_valid_def cert_bytes_def cert_ok_def mem_read_def split: if_splits option.splits)
  then have "length (take (pc_size cert) (the (pc_buffer cert))) < length lens" using assms(6) by simp
  then obtain chunks pk' u' where g: "get_packets lens ?pk cert = Some (True, packet_images True True chunks, pk', u')"
    "concat chunks = take (pc_size cert) (the (pc_buffer cert))"
    using cert_source.get_packets_finishes [of cert ?pk lens] b(1) assms(2,5) by auto
  have ne: "lens \<noteq> []" using assms(6) by auto
  have "device_cert_reads ct lens (ctx, h) = device_cert_reads ct lens ?s"
    unfolding device_cert_reads_def using ne assms(1,3,4)
    by (intro chrc_reads_start) (simp_all add: device_cert_read_def golioth_ble_gatt_packetizer_start_callback_def malloc_def Let_def)
  then show ?thesis
    using dev_chrc.reads_get_packets [of ?s ?pk lens "packet_images True True chunks" pk' u' ct] g b(2)
    by (intro exI [of _ chunks]) (simp add: device_cert_reads_def)
qed

lemma server_cert_serial_transfer:
  assumes "cert_inv ct" "length (sr_serial (sc_serial ctx)) = CERT_SERIAL_MAXLEN" "sc_packetizer ctx = None" "malloc_ok h (mallocs h)"
    "list_all (\<lambda>len. 2 \<le> len) lens" "srv_serial_len ct < length lens"
  shows "\<exists>chunks ctx' h'. server_cert_serial_reads ct lens (ctx, h) = Some (True, packet_images True True chunks, ctx', h')
    \<and> sc_packetizer ctx' = None \<and> concat chunks = take (srv_serial_len ct) (srv_serial_data ct)"
proof -
  let ?pk = "\<lparr>pk_fill = GOLIOTH_BLE_GATT_PACKETIZER_FILL_CALLBACK server_cert_serial_fill_cb, pk_is_first = True, pk_error = OK\<rparr>"
  define xs where "xs = take (srv_serial_len ct) (srv_serial_data ct)"
  have xs: "pouch_server_certificate_serial_get (length (sr_serial (sc_serial ctx))) ct = Some (Inr xs)" "length xs = srv_serial_len ct"
    "length xs \<le> CERT_SERIAL_MAXLEN"
    using assms(1) serial_get_after_set [OF assms(1)] by (simp_all add: assms(2) xs_def cert_inv_def)
  define sr where "sr = \<lparr>sr_serial = xs @ drop (length xs) (sr_serial (sc_serial ctx)), sr_serial_len = word_of_nat (length xs), sr_serial_offset = 0\<rparr>"
  have w: "unat (word_of_nat (length xs) :: byte) = length xs" using xs(3) by (simp add: CERT_SERIAL_MAXLEN_def unat_of_nat)
  have sr: "serial_ready sr" "serial_rest sr = xs"
    using xs(3) assms(2) w by (simp_all add: sr_def serial_ready_def serial_rest_def CERT_SERIAL_MAXLEN_def SIZE_MOD_def)
  let ?s = "(ctx\<lparr>sc_packetizer := Some ?pk, sc_serial := sr\<rparr>, snd (malloc h))"
  have mw: "mem_write 0 xs (sr_serial (sc_serial ctx)) = Some (sr_serial sr)"
    using xs(3) assms(2) by (simp add: mem_write_def sr_def)
  obtain chunks pk' u' where g: "get_packets lens ?pk sr = Some (True, packet_images True True chunks, pk', u')" "concat chunks = xs"
    using serial_source.get_packets_finishes [of sr ?pk lens] sr xs(2) assms(5,6) by auto
  have ne: "lens \<noteq> []" using assms(6) by auto
  have "server_cert_serial_reads ct lens (ctx, h) = server_cert_serial_reads ct lens ?s"
    unfolding server_cert_serial_reads_def using ne assms(3,4) xs(1) mw
    by (intro chrc_reads_start) (simp_all add: server_cert_serial_read_def golioth_ble_gatt_packetizer_start_callback_def malloc_def Let_def sr_def)
  then show ?thesis
    using srv_chrc.reads_get_packets [of ?s ?pk lens "packet_images True True chunks" pk' u' ct] g
    by (intro exI [of _ chunks]) (simp add: server_cert_serial_reads_def xs_def)
qed

lemma info_transfer:
  assumes "cert_inv ct" "length (ic_buf ctx) = INFO_CHRC_MAX_SIZE" "ic_packetizer ctx = None" "malloc_ok h (mallocs h)"
    "encode 0 (if config_saead c then take (srv_serial_len ct) (srv_serial_data ct) else []) INFO_CHRC_MAX_SIZE = Some xs"
    "length xs \<le> INFO_CHRC_MAX_SIZE" "list_all (\<lambda>len. 2 \<le> len) lens" "length xs < length lens"
  shows "\<exists>chunks ctx' h'. info_reads c encode ct lens (ctx, h) = Some (True, packet_images True True chunks, ctx', h')
    \<and> ic_packetizer ctx' = None \<and> concat chunks = xs"
proof -
  define b where "b = xs @ drop (length xs) (ic_buf ctx)"
  have b: "build_info_data c encode ct ctx = Some (OK, ctx\<lparr>ic_buf_len := length xs, ic_buf := b\<rparr>)"
    using assms(1,2,5,6) serial_get_after_set [OF assms(1)]
    by (cases "config_saead c") (simp_all add: build_info_data_def b_def mem_write_def Let_def)
  let ?pk = "\<lparr>pk_fill = GOLIOTH_BLE_GATT_PACKETIZER_FILL_BUFFER b (length xs), pk_is_first = True, pk_error = OK\<rparr> :: unit golioth_ble_gatt_packetizer"
  let ?s = "(ctx\<lparr>ic_buf_len := length xs, ic_buf := b, ic_packetizer := Some ?pk\<rparr>, snd (malloc h))"
  have len: "length xs \<le> length b" "length b < SIZE_MOD" using assms(2,6) by (simp_all add: b_def INFO_CHRC_MAX_SIZE_def SIZE_MOD_def)
  obtain chunks pk' where g: "get_packets lens ?pk () = Some (True, packet_images True True chunks, pk', ())" "concat chunks = take (length xs) b"
    using get_packets_buffer [of ?pk b "length xs" lens "()"] len assms(7,8) by auto
  have ne: "lens \<noteq> []" using assms(8) by auto
  have "info_reads c encode ct lens (ctx, h) = info_reads c encode ct lens ?s"
    unfolding info_reads_def using ne assms(3,4) b
    by (intro chrc_reads_start) (simp_all add: info_read_def golioth_ble_gatt_packetizer_start_buffer_def malloc_def Let_def)
  then show ?thesis
    using info_chrc.reads_get_packets [of ?s ?pk lens "packet_images True True chunks" pk' "()" c encode ct] g
    by (intro exI [of _ chunks]) (simp add: info_reads_def b_def)
qed

subsection \<open>Writing\<close>

lemma downlink_write_image:
  assumes "length xs + 1 < SIZE_MOD"
  shows "downlink_write c codec ops (packet_image f l xs) d =
    map_option (\<lambda>d. (Att_len (length xs + 1), d)) (pouch_downlink_push c codec ops xs (if f then pouch_downlink_start c d else d))"
  using assms decode_image [OF assms, of f l]
  by (cases "pouch_downlink_push c codec ops xs (if f then pouch_downlink_start c d else d)")
     (simp_all add: downlink_write_def pouch_downlink_finish_def Let_def)

lemma downlink_writes_images:
  assumes "list_all (\<lambda>xs. length xs + 1 < SIZE_MOD) chunks" "chunks \<noteq> []"
  shows "downlink_writes c codec ops (packet_images start fin chunks) d =
    push_all c codec ops chunks (if start then pouch_downlink_start c d else d)"
  using assms
proof (induction chunks arbitrary: start d)
  case Nil
  then show ?case by simp
next
  case (Cons xs chunks)
  note w = downlink_write_image [of xs c codec ops start "fin \<and> chunks = []" d]
  show ?case
  proof (cases "pouch_downlink_push c codec ops xs (if start then pouch_downlink_start c d else d)")
    case None
    with w Cons.prems(1) show ?thesis by simp
  next
    case (Some d')
    with w Cons.prems Cons.IH [of False d'] show ?thesis by (cases "chunks = []") simp_all
  qed
qed

text \<open>
  The buffer of a server certificate that is being written: what has arrived is at its start. A further
  packet is appended if it fits.
\<close>

lemma server_cert_write_next:
  assumes "length xs + 1 < SIZE_MOD" "xs \<noteq> []" "pc_buffer (sc_cert ctx) = Some b"
  shows "server_cert_write c tls (packet_image False l xs) ctx h ct =
    (if pc_size (sc_cert ctx) + length xs \<le> length b
     then let cert = \<lparr>pc_buffer = Some (take (pc_size (sc_cert ctx)) b @ xs @ drop (pc_size (sc_cert ctx) + length xs) b),
                      pc_size = pc_size (sc_cert ctx) + length xs\<rparr> in
       if l then map_option (\<lambda>(err, ct). (Att_len (length xs + 1), err \<noteq> OK, ctx\<lparr>sc_cert := cert\<lparr>pc_buffer := None\<rparr>\<rparr>, h, ct))
                   (pouch_server_certificate_set c tls (Some cert) ct)
       else Some (Att_len (length xs + 1), False, ctx\<lparr>sc_cert := cert\<rparr>, h, ct)
     else None)"
  using assms(2,3) decode_image [OF assms(1), of False l]
  by (auto simp: server_cert_write_def mem_write_def Let_def map_conv_bind_option case_prod_unfold comp_def)

lemma server_cert_write_first:
  assumes "length xs + 1 < SIZE_MOD" "xs \<noteq> []" "malloc_ok h (mallocs h)"
  shows "server_cert_write c tls (packet_image True l xs) ctx h ct =
    server_cert_write c tls (packet_image False l xs)
      (ctx\<lparr>sc_cert := \<lparr>pc_buffer = Some (map (junk h (mallocs h)) [0..<config_server_cert_max_len c]), pc_size = 0\<rparr>\<rparr>)
      (snd (malloc h)) ct"
  using assms(2,3) decode_image [OF assms(1), of True l] decode_image [OF assms(1), of False l]
  by (simp add: server_cert_write_def malloc_def Let_def case_prod_unfold cong: if_cong)

text \<open>Setting a certificate depends on its bytes only.\<close>

lemma cert_server_set_bytes:
  assumes "cert_bytes a = cert_bytes b" "cert_is_valid (Some a)" "cert_is_valid (Some b)"
  shows "cert_server_set c tls (Some a) s = cert_server_set c tls (Some b) s"
  using assms by (simp add: cert_server_set_def parse_x509_cert_def)

definition whole_cert :: "byte list \<Rightarrow> pouch_cert" where
  "whole_cert xs = \<lparr>pc_buffer = Some xs, pc_size = length xs\<rparr>"

lemma server_cert_writes_rest:
  assumes "pc_buffer (sc_cert ctx) = Some b" "pc_size (sc_cert ctx) \<le> length b" "length b < SIZE_MOD"
    "list_all (\<lambda>xs. xs \<noteq> [] \<and> length xs + 1 < SIZE_MOD) chunks" "chunks \<noteq> []"
  shows "\<exists>ctx'. server_cert_writes c tls (packet_images False True chunks) ctx h ct =
    (if pc_size (sc_cert ctx) + length (concat chunks) \<le> length b
     then map_option (\<lambda>(err, ct). (err \<noteq> OK, ctx', h, ct))
       (pouch_server_certificate_set c tls (Some (whole_cert (take (pc_size (sc_cert ctx)) b @ concat chunks))) ct)
     else None)"
  using assms
proof (induction chunks arbitrary: ctx b)
  case Nil
  then show ?case by simp
next
  case (Cons xs chunks)
  let ?n = "pc_size (sc_cert ctx)"
  let ?b = "take ?n b @ xs @ drop (?n + length xs) b"
  let ?cert = "\<lparr>pc_buffer = Some ?b, pc_size = ?n + length xs\<rparr>"
  have xs: "length xs + 1 < SIZE_MOD" "xs \<noteq> []" using Cons.prems(4) by auto
  note w = server_cert_write_next [OF xs Cons.prems(1), of c tls "chunks = []" h ct]
  show ?case
  proof (cases "?n + length xs \<le> length b")
    case False
    then have "\<not> ?n + length (concat (xs # chunks)) \<le> length b" by simp
    with False w show ?thesis by simp
  next
    case fits: True
    show ?thesis
    proof (cases "chunks = []")
      case True
      have eq: "cert_server_set c tls (Some ?cert) ct = cert_server_set c tls (Some (whole_cert (take ?n b @ xs))) ct"
        using fits Cons.prems(2,3) xs(2) by (intro cert_server_set_bytes)
          (simp_all add: cert_bytes_def whole_cert_def mem_read_def cert_is_valid_def)
      have "server_cert_writes c tls [packet_image False True xs] ctx h ct =
          map_option (\<lambda>(err, ct). (err \<noteq> OK, ctx\<lparr>sc_cert := ?cert\<lparr>pc_buffer := None\<rparr>\<rparr>, h, ct)) (cert_server_set c tls (Some ?cert) ct)"
        using w True fits
        by (cases "cert_server_set c tls (Some ?cert) ct") (simp_all add: pouch_server_certificate_set_def Let_def case_prod_unfold)
      then show ?thesis
        unfolding eq using True fits by (intro exI) (simp add: pouch_server_certificate_set_def)
    next
      case False
      have lb: "length ?b = length b" and tb: "take (?n + length xs) ?b = take ?n b @ xs" using fits Cons.prems(2) by simp_all
      obtain ctx' where r: "server_cert_writes c tls (packet_images False True chunks) (ctx\<lparr>sc_cert := ?cert\<rparr>) h ct =
        (if ?n + length xs + length (concat chunks) \<le> length ?b
         then map_option (\<lambda>(err, ct). (err \<noteq> OK, ctx', h, ct))
           (pouch_server_certificate_set c tls (Some (whole_cert (take (?n + length xs) ?b @ concat chunks))) ct)
         else None)"
        using Cons.IH [of "ctx\<lparr>sc_cert := ?cert\<rparr>" ?b] fits Cons.prems(2-5) False by (auto cong: if_cong)
      show ?thesis using w False fits r [unfolded lb tb] by (intro exI [of _ ctx']) (simp add: add.assoc cong: if_cong)
    qed
  qed
qed

lemma server_cert_writes_images:
  assumes "config_server_cert_max_len c < SIZE_MOD" "malloc_ok h (mallocs h)"
    "list_all (\<lambda>xs. xs \<noteq> [] \<and> length xs + 1 < SIZE_MOD) chunks" "chunks \<noteq> []"
  shows "\<exists>ctx' h'. server_cert_writes c tls (packet_images True True chunks) ctx h ct =
    (if length (concat chunks) \<le> config_server_cert_max_len c
     then map_option (\<lambda>(err, ct). (err \<noteq> OK, ctx', h', ct)) (pouch_server_certificate_set c tls (Some (whole_cert (concat chunks))) ct)
     else None)"
proof -
  let ?b = "map (junk h (mallocs h)) [0..<config_server_cert_max_len c]"
  let ?ctx = "ctx\<lparr>sc_cert := \<lparr>pc_buffer = Some ?b, pc_size = 0\<rparr>\<rparr>"
  obtain xs rest where ch: "chunks = xs # rest" using assms(4) by (cases chunks) auto
  have "server_cert_writes c tls (packet_images True True chunks) ctx h ct =
    server_cert_writes c tls (packet_images False True chunks) ?ctx (snd (malloc h)) ct"
    using server_cert_write_first [of xs h c tls "rest = []" ctx ct] assms(2,3) ch by simp
  moreover obtain ctx' where "server_cert_writes c tls (packet_images False True chunks) ?ctx (snd (malloc h)) ct =
    (if length (concat chunks) \<le> config_server_cert_max_len c
     then map_option (\<lambda>(err, ct). (err \<noteq> OK, ctx', snd (malloc h), ct))
       (pouch_server_certificate_set c tls (Some (whole_cert (concat chunks))) ct)
     else None)"
    using server_cert_writes_rest [of ?ctx ?b chunks c tls "snd (malloc h)" ct] assms(1,3,4) by (auto cong: if_cong)
  ultimately show ?thesis by (intro exI [of _ ctx'] exI [of _ "snd (malloc h)"]) simp
qed

end
