(* ===== verification/Zcbor_Utils.thy ===== *)
theory Zcbor_Utils
  imports Loops
begin

text \<open>
  The CBOR helpers, \<^verbatim>\<open>src/lib/zcbor_utils/zcbor_utils.c\<close> and \<^verbatim>\<open>zcbor_utils.h\<close>: decoding a map whose entries are given by a table of
  keys and decoders. The zcbor library itself is a parameter, a record of the functions that the code calls and
  of the fields of its state that the code reads.

  Loops over CBOR input end only if the library consumes input; they are iterations of a round (\<open>Loops\<close>).

  Shown here: with a library that consumes input the map decoder returns; when it reports success it has decoded as
  many entries as the table has, and each of them if no key occurred twice; and what goes wrong with a key of the
  other type.
\<close>

section \<open>The library\<close>

record 'z zcbor_ops =
  zcbor_new_decode_state :: "nat \<Rightarrow> byte list \<Rightarrow> 'z"
  zs_indefinite :: "'z \<Rightarrow> bool"
  zs_payload :: "'z \<Rightarrow> byte option"
  zs_elem_count :: "'z \<Rightarrow> nat"
  zcbor_map_start_decode :: "'z \<Rightarrow> bool \<times> 'z"
  zcbor_map_end_decode :: "'z \<Rightarrow> bool \<times> 'z"
  zcbor_list_start_decode :: "'z \<Rightarrow> bool \<times> 'z"
  zcbor_list_map_end_force_decode :: "'z \<Rightarrow> bool \<times> 'z"
  zcbor_nil_expect :: "'z \<Rightarrow> bool \<times> 'z"
  zcbor_any_skip :: "'z \<Rightarrow> bool \<times> 'z"
  zcbor_tstr_decode :: "'z \<Rightarrow> (u32 \<times> byte list) option \<times> 'z"
  zcbor_uint32_decode :: "'z \<Rightarrow> u32 option \<times> 'z"
  zcbor_int32_decode :: "'z \<Rightarrow> u32 option \<times> 'z"
  zcbor_int64_decode :: "'z \<Rightarrow> u64 option \<times> 'z"
  zcbor_bool_decode :: "'z \<Rightarrow> bool option \<times> 'z"
  zcbor_float_decode :: "'z \<Rightarrow> u64 option \<times> 'z"

text \<open>
  \<open>zcbor_new_decode_state\<close> starts a state with a number of backups on an input. A decoded string is its address and its bytes. \<open>zs_payload\<close> is the byte at the read position, \<^const>\<open>None\<close> where the
  position is behind the input.
\<close>


text \<open>The encoder: \<open>ze_bytes\<close> is what it has written to its buffer, which has the size given at first.\<close>

record 'e zcbor_enc_ops =
  zcbor_new_encode_state :: "nat \<Rightarrow> nat \<Rightarrow> 'e"
  ze_bytes :: "'e \<Rightarrow> byte list"
  zcbor_map_start_encode :: "nat \<Rightarrow> 'e \<Rightarrow> bool \<times> 'e"
  zcbor_map_end_encode :: "nat \<Rightarrow> 'e \<Rightarrow> bool \<times> 'e"
  zcbor_tstr_put :: "cstr \<Rightarrow> 'e \<Rightarrow> bool \<times> 'e"
  zcbor_uint32_put :: "u32 \<Rightarrow> 'e \<Rightarrow> bool \<times> 'e"
  zcbor_int64_put :: "u64 \<Rightarrow> 'e \<Rightarrow> bool \<times> 'e"
  zcbor_nil_put :: "'e \<Rightarrow> bool \<times> 'e"

text \<open>Calls in a row, each returning from the function when it fails.\<close>

fun encode_all :: "('e \<Rightarrow> bool \<times> 'e) list \<Rightarrow> 'e \<Rightarrow> 'e option" where
  "encode_all [] e = Some e"
| "encode_all (put # puts) e = (case put e of (ok, e) \<Rightarrow> if ok then encode_all puts e else None)"

text \<open>
  What the code relies on: the encoder stays within its buffer, a call that succeeds keeps what has been written, and a
  string takes as many bytes as it has.
\<close>

definition zcbor_put_ok :: "'e zcbor_enc_ops \<Rightarrow> ('e \<Rightarrow> nat) \<Rightarrow> nat \<Rightarrow> ('e \<Rightarrow> bool \<times> 'e) \<Rightarrow> bool" where
  "zcbor_put_ok enc cap n put \<longleftrightarrow>
     (\<forall>e e'. put e = (True, e') \<longrightarrow> cap e' = cap e \<and> length (ze_bytes enc e) + n \<le> length (ze_bytes enc e'))"

definition zcbor_enc_sized :: "'e zcbor_enc_ops \<Rightarrow> ('e \<Rightarrow> nat) \<Rightarrow> bool" where
  "zcbor_enc_sized enc cap \<longleftrightarrow>
     (\<forall>n m. cap (zcbor_new_encode_state enc n m) = m) \<and> (\<forall>e. length (ze_bytes enc e) \<le> cap e)
     \<and> (\<forall>n. zcbor_put_ok enc cap 0 (zcbor_map_start_encode enc n)) \<and> (\<forall>n. zcbor_put_ok enc cap 0 (zcbor_map_end_encode enc n))
     \<and> (\<forall>s. zcbor_put_ok enc cap (length s) (zcbor_tstr_put enc s)) \<and> (\<forall>v. zcbor_put_ok enc cap 0 (zcbor_uint32_put enc v))
     \<and> (\<forall>v. zcbor_put_ok enc cap 0 (zcbor_int64_put enc v)) \<and> zcbor_put_ok enc cap 0 (zcbor_nil_put enc)"

lemma encode_all_size:
  assumes "list_all2 (zcbor_put_ok enc cap) ns puts" "encode_all puts e = Some e'"
  shows "cap e' = cap e \<and> length (ze_bytes enc e) + sum_list ns \<le> length (ze_bytes enc e')"
  using assms
proof (induction arbitrary: e rule: list_all2_induct)
  case Nil
  then show ?case by simp
next
  case (Cons n ns put puts)
  then show ?case by (fastforce simp: zcbor_put_ok_def split: prod.splits if_splits)
qed

definition POUCH_CONTENT_TYPE_CBOR :: u16 where
  "POUCH_CONTENT_TYPE_CBOR = 60"

definition ZCBOR_MAJOR_TYPE :: "byte \<Rightarrow> byte" where
  "ZCBOR_MAJOR_TYPE b = drop_bit 5 b"

definition ZCBOR_MAJOR_TYPE_PINT :: byte where "ZCBOR_MAJOR_TYPE_PINT = 0"
definition ZCBOR_MAJOR_TYPE_NINT :: byte where "ZCBOR_MAJOR_TYPE_NINT = 1"
definition ZCBOR_MAJOR_TYPE_TSTR :: byte where "ZCBOR_MAJOR_TYPE_TSTR = 3"
definition ZCBOR_MAJOR_TYPE_SIMPLE :: byte where "ZCBOR_MAJOR_TYPE_SIMPLE = 7"

lemmas major_types = ZCBOR_MAJOR_TYPE_def ZCBOR_MAJOR_TYPE_PINT_def ZCBOR_MAJOR_TYPE_NINT_def ZCBOR_MAJOR_TYPE_TSTR_def
  ZCBOR_MAJOR_TYPE_SIMPLE_def

definition zcbor_list_or_map_end :: "'z zcbor_ops \<Rightarrow> 'z \<Rightarrow> bool option" where
  "zcbor_list_or_map_end ops z =
     (if zs_indefinite ops z then map_option (\<lambda>b. b = 0xFF) (zs_payload ops z) else Some (zs_elem_count ops z = 0))"

section \<open>Keys\<close>

datatype zcbor_map_key_type = ZCBOR_MAP_KEY_TYPE_U32 | ZCBOR_MAP_KEY_TYPE_TSTR

text \<open>
  The union of a number and a string: its first word is the number or the address of the string, its second
  word the length of the string. Storing a number leaves the second word alone.
\<close>

datatype key_word = Key_int u32 | Key_ptr u32 "byte list"

record zcbor_map_key =
  key_type :: zcbor_map_key_type
  key_word :: key_word
  key_len :: size_t

definition key_u32 :: "zcbor_map_key \<Rightarrow> u32" where
  "key_u32 key = (case key_word key of Key_int n \<Rightarrow> n | Key_ptr a _ \<Rightarrow> a)"

text \<open>The bytes behind the first word taken as a pointer.\<close>

definition key_bytes :: "nat \<Rightarrow> zcbor_map_key \<Rightarrow> byte list option" where
  "key_bytes n key =
     (case key_word key of Key_ptr _ bs \<Rightarrow> mem_read 0 n bs | Key_int _ \<Rightarrow> if n = 0 then Some [] else None)"

definition ZCBOR_U32_KEY :: "u32 \<Rightarrow> zcbor_map_key" where
  "ZCBOR_U32_KEY n = \<lparr>key_type = ZCBOR_MAP_KEY_TYPE_U32, key_word = Key_int n, key_len = 0\<rparr>"

definition ZCBOR_TSTR_LIT_KEY :: "cstr \<Rightarrow> zcbor_map_key" where
  "ZCBOR_TSTR_LIT_KEY s = \<lparr>key_type = ZCBOR_MAP_KEY_TYPE_TSTR, key_word = Key_ptr 0 s, key_len = length s\<rparr>"

record ('z, 's) zcbor_map_entry =
  me_key :: zcbor_map_key
  me_decode :: "'z \<Rightarrow> 's \<Rightarrow> (ret \<times> 'z \<times> 's) run"

section \<open>Operations\<close>

text \<open>The index of the first entry for the key. The search looks at the type of the entry's key only.\<close>

fun map_entry_get :: "('z, 's) zcbor_map_entry list \<Rightarrow> nat \<Rightarrow> zcbor_map_key \<Rightarrow> nat option option" where
  "map_entry_get [] i key = Some None"
| "map_entry_get (e # es) i key =
     (case key_type (me_key e) of
        ZCBOR_MAP_KEY_TYPE_U32 \<Rightarrow>
          if key_u32 (me_key e) = key_u32 key then Some (Some i) else map_entry_get es (Suc i) key
      | ZCBOR_MAP_KEY_TYPE_TSTR \<Rightarrow>
          if key_len key = key_len (me_key e)
          then do { a \<leftarrow> key_bytes (key_len (me_key e)) (me_key e);
                    b \<leftarrow> key_bytes (key_len (me_key e)) key;
                    if a = b then Some (Some i) else map_entry_get es (Suc i) key }
          else map_entry_get es (Suc i) key)"

text \<open>Decoders of values; \<open>store\<close> is the store through the entry's value pointer.\<close>

definition zcbor_map_int64_decode :: "'z zcbor_ops \<Rightarrow> (u64 \<Rightarrow> 's \<Rightarrow> 's) \<Rightarrow> 'z \<Rightarrow> 's \<Rightarrow> (ret \<times> 'z \<times> 's) run" where
  "zcbor_map_int64_decode ops store z s =
     (case zcbor_int64_decode ops z of
        (None, z) \<Rightarrow> Some (Some (Err EBADMSG, z, s)) | (Some v, z) \<Rightarrow> Some (Some (OK, z, store v s)))"

definition zcbor_map_int32_decode :: "'z zcbor_ops \<Rightarrow> (u32 \<Rightarrow> 's \<Rightarrow> 's) \<Rightarrow> 'z \<Rightarrow> 's \<Rightarrow> (ret \<times> 'z \<times> 's) run" where
  "zcbor_map_int32_decode ops store z s =
     (case zcbor_int32_decode ops z of
        (None, z) \<Rightarrow> Some (Some (Err EBADMSG, z, s)) | (Some v, z) \<Rightarrow> Some (Some (OK, z, store v s)))"

definition zcbor_map_tstr_decode :: "'z zcbor_ops \<Rightarrow> (u32 \<times> byte list \<Rightarrow> 's \<Rightarrow> 's) \<Rightarrow> 'z \<Rightarrow> 's \<Rightarrow> (ret \<times> 'z \<times> 's) run" where
  "zcbor_map_tstr_decode ops store z s =
     (case zcbor_tstr_decode ops z of
        (None, z) \<Rightarrow> Some (Some (Err EBADMSG, z, s)) | (Some v, z) \<Rightarrow> Some (Some (OK, z, store v s)))"

definition zcbor_map_key_decode :: "'z zcbor_ops \<Rightarrow> 'z \<Rightarrow> zcbor_map_key \<Rightarrow> (ret \<times> 'z \<times> zcbor_map_key) option" where
  "zcbor_map_key_decode ops z key =
     do { b \<leftarrow> zs_payload ops z;
          if ZCBOR_MAJOR_TYPE b = ZCBOR_MAJOR_TYPE_TSTR
          then (case zcbor_tstr_decode ops z of
                  (None, z) \<Rightarrow> Some (Err EBADMSG, z, key)
                | (Some (a, s), z) \<Rightarrow>
                    Some (OK, z, \<lparr>key_type = ZCBOR_MAP_KEY_TYPE_TSTR, key_word = Key_ptr a s, key_len = length s\<rparr>))
          else if ZCBOR_MAJOR_TYPE b = ZCBOR_MAJOR_TYPE_PINT
          then (case zcbor_uint32_decode ops z of
                  (None, z) \<Rightarrow> Some (Err EBADMSG, z, key)
                | (Some n, z) \<Rightarrow> Some (OK, z, key\<lparr>key_type := ZCBOR_MAP_KEY_TYPE_U32, key_word := Key_int n\<rparr>))
          else Some (Err EBADMSG, z, key) }"

text \<open>
  The loop over the map; the state of a round is the key variable, the entries decoded so far, whose number is \<^verbatim>\<open>num_decoded\<close>,
  the state of the library and what the decoders store to. The loop ends with an error, which is the result of
  the function, or with the list of the entries.
\<close>

type_synonym ('z, 's) map_round = "(errno + nat list) \<times> 'z \<times> 's"

definition map_decode_round ::
  "'z zcbor_ops \<Rightarrow> ('z, 's) zcbor_map_entry list \<Rightarrow> zcbor_map_key \<times> nat list \<times> 'z \<times> 's
     \<Rightarrow> (('z, 's) map_round, zcbor_map_key \<times> nat list \<times> 'z \<times> 's) round" where
  "map_decode_round ops entries = (\<lambda>(key, decoded, z, s).
     if \<not> length decoded < length entries then Halt (Some (Inr decoded, z, s))
     else case zcbor_list_or_map_end ops z of
         None \<Rightarrow> Halt None
       | Some at_end \<Rightarrow>
           if at_end then Halt (Some (Inr decoded, z, s))
           else case zcbor_map_key_decode ops z key of
               None \<Rightarrow> Halt None
             | Some (Err e, z, key) \<Rightarrow> Halt (Some (Inl e, z, s))
             | Some (OK, z, key) \<Rightarrow>
                 (case map_entry_get entries 0 key of
                    None \<Rightarrow> Halt None
                  | Some (Some i) \<Rightarrow>
                      (case me_decode (entries ! i) z s of
                         None \<Rightarrow> Hang
                       | Some None \<Rightarrow> Halt None
                       | Some (Some (Err e, z, s)) \<Rightarrow> Halt (Some (Inl e, z, s))
                       | Some (Some (OK, z, s)) \<Rightarrow> Again (key, decoded @ [i], z, s))
                  | Some None \<Rightarrow>
                      (case zcbor_any_skip ops z of
                         (ok, z) \<Rightarrow> if ok then Again (key, decoded, z, s) else Halt (Some (Inl EBADMSG, z, s)))))"

text \<open>The second component of the result is the list of the entries that have been decoded. \<open>key\<close> is what the stack holds at first.\<close>

definition zcbor_map_decode ::
  "'z zcbor_ops \<Rightarrow> ('z, 's) zcbor_map_entry list \<Rightarrow> zcbor_map_key \<Rightarrow> 'z \<Rightarrow> 's \<Rightarrow> (ret \<times> nat list \<times> 'z \<times> 's) run" where
  "zcbor_map_decode ops entries key z s =
     (case zcbor_map_start_decode ops z of
        (ok, z) \<Rightarrow>
          if \<not> ok then Some (Some (Err EBADMSG, [], z, s))
          else case rounds (map_decode_round ops entries) (key, [], z, s) of
              None \<Rightarrow> None
            | Some None \<Rightarrow> Some None
            | Some (Some (Inl e, z, s)) \<Rightarrow> Some (Some (Err e, [], z, s))
            | Some (Some (Inr decoded, z, s)) \<Rightarrow>
                if decoded \<noteq> [] \<and> length decoded < length entries then Some (Some (Err EBADMSG, decoded, z, s))
                else (case zcbor_list_map_end_force_decode ops z of
                        (ok, z) \<Rightarrow>
                          Some (Some (if \<not> ok then Err EBADMSG else if decoded = [] then Err ENOENT else OK, decoded, z, s))))"

section \<open>Termination\<close>

text \<open>
  What termination relies on: a key or an item that is decoded or skipped takes at least one byte of the input,
  and nothing gives input back.
\<close>

definition zcbor_consumes :: "'z zcbor_ops \<Rightarrow> ('z \<Rightarrow> nat) \<Rightarrow> bool" where
  "zcbor_consumes ops left \<longleftrightarrow>
     (\<forall>z v z'. zcbor_tstr_decode ops z = (Some v, z') \<longrightarrow> left z' < left z)
   \<and> (\<forall>z v z'. zcbor_uint32_decode ops z = (Some v, z') \<longrightarrow> left z' < left z)
   \<and> (\<forall>z z'. zcbor_any_skip ops z = (True, z') \<longrightarrow> left z' < left z)
   \<and> (\<forall>z v z'. zcbor_int32_decode ops z = (v, z') \<longrightarrow> left z' \<le> left z)
   \<and> (\<forall>z v z'. zcbor_int64_decode ops z = (v, z') \<longrightarrow> left z' \<le> left z)
   \<and> (\<forall>z v z'. zcbor_tstr_decode ops z = (v, z') \<longrightarrow> left z' \<le> left z)
   \<and> (\<forall>z v z'. zcbor_bool_decode ops z = (v, z') \<longrightarrow> left z' \<le> left z)
   \<and> (\<forall>z v z'. zcbor_float_decode ops z = (v, z') \<longrightarrow> left z' \<le> left z)
   \<and> (\<forall>z v z'. zcbor_nil_expect ops z = (v, z') \<longrightarrow> left z' \<le> left z)
   \<and> (\<forall>z v z'. zcbor_map_start_decode ops z = (v, z') \<longrightarrow> left z' \<le> left z)
   \<and> (\<forall>z v z'. zcbor_list_start_decode ops z = (v, z') \<longrightarrow> left z' \<le> left z)
   \<and> (\<forall>z v z'. zcbor_map_end_decode ops z = (v, z') \<longrightarrow> left z' \<le> left z)
   \<and> (\<forall>z v z'. zcbor_list_map_end_force_decode ops z = (v, z') \<longrightarrow> left z' \<le> left z)"

text \<open>A decoder of a value that returns and gives no input back.\<close>

definition decoder_ok :: "('z \<Rightarrow> nat) \<Rightarrow> ('z \<Rightarrow> 's \<Rightarrow> (ret \<times> 'z \<times> 's) run) \<Rightarrow> bool" where
  "decoder_ok left f \<longleftrightarrow> (\<forall>z s. f z s \<noteq> None \<and> (\<forall>z' s'. f z s = Some (Some (OK, z', s')) \<longrightarrow> left z' \<le> left z))"

lemma decoder_okD:
  "decoder_ok left f \<Longrightarrow> f z s \<noteq> None" "decoder_ok left f \<Longrightarrow> f z s = Some (Some (OK, z', s')) \<Longrightarrow> left z' \<le> left z"
  unfolding decoder_ok_def by blast+

lemma zcbor_consumesD:
  assumes "zcbor_consumes ops left"
  shows "zcbor_tstr_decode ops z = (Some v, z') \<Longrightarrow> left z' < left z" "zcbor_uint32_decode ops z = (Some n, z') \<Longrightarrow> left z' < left z"
    "zcbor_any_skip ops z = (True, z') \<Longrightarrow> left z' < left z" "zcbor_int32_decode ops z = (i, z') \<Longrightarrow> left z' \<le> left z"
    "zcbor_int64_decode ops z = (j, z') \<Longrightarrow> left z' \<le> left z" "zcbor_tstr_decode ops z = (w, z') \<Longrightarrow> left z' \<le> left z"
    "zcbor_bool_decode ops z = (b, z') \<Longrightarrow> left z' \<le> left z" "zcbor_float_decode ops z = (j, z') \<Longrightarrow> left z' \<le> left z"
    "zcbor_nil_expect ops z = (ok, z') \<Longrightarrow> left z' \<le> left z" "zcbor_map_start_decode ops z = (ok, z') \<Longrightarrow> left z' \<le> left z"
    "zcbor_list_start_decode ops z = (ok, z') \<Longrightarrow> left z' \<le> left z" "zcbor_map_end_decode ops z = (ok, z') \<Longrightarrow> left z' \<le> left z"
    "zcbor_list_map_end_force_decode ops z = (ok, z') \<Longrightarrow> left z' \<le> left z"
  using assms by (auto simp: zcbor_consumes_def simp del: split_paired_All)

lemma value_decoders_ok [simp]:
  assumes "zcbor_consumes ops left"
  shows "decoder_ok left (zcbor_map_int64_decode ops store64)" "decoder_ok left (zcbor_map_int32_decode ops store32)"
    "decoder_ok left (zcbor_map_tstr_decode ops store_str)"
  by (auto simp: decoder_ok_def zcbor_map_int64_decode_def zcbor_map_int32_decode_def zcbor_map_tstr_decode_def
      dest: zcbor_consumesD(4-6) [OF assms] split: prod.splits option.splits)

lemma map_entry_get_bound: "map_entry_get entries k key = Some (Some i) \<Longrightarrow> k \<le> i \<and> i < k + length entries"
proof (induction entries k key rule: map_entry_get.induct)
  case (2 e es k key)
  then show ?case by (fastforce split: zcbor_map_key_type.splits if_splits bind_splits)
qed simp

lemma key_decode_progress:
  "zcbor_consumes ops left \<Longrightarrow> zcbor_map_key_decode ops z key = Some (OK, z', key') \<Longrightarrow> left z' < left z"
  by (auto simp: zcbor_map_key_decode_def dest: zcbor_consumesD(1,2) split: bind_splits if_splits prod.splits option.splits)

lemma map_decode_round_Again:
  assumes "map_decode_round ops entries (key, decoded, z, s) = Again (key', decoded', z', s')"
  shows "\<exists>z1. zcbor_map_key_decode ops z key = Some (OK, z1, key') \<and>
    ((\<exists>i < length entries. decoded' = decoded @ [i] \<and> me_decode (entries ! i) z1 s = Some (Some (OK, z', s')))
     \<or> decoded' = decoded \<and> s' = s \<and> zcbor_any_skip ops z1 = (True, z'))"
  using assms by (auto simp: map_decode_round_def dest!: map_entry_get_bound
      split: if_splits option.splits prod.splits ret.splits)

lemma map_decode_round_Hang:
  assumes "map_decode_round ops entries (key, decoded, z, s) = Hang"
  shows "\<exists>i < length entries. \<exists>z1. me_decode (entries ! i) z1 s = None"
  using assms by (auto simp: map_decode_round_def dest!: map_entry_get_bound
      split: if_splits option.splits prod.splits ret.splits)

lemma map_decode_round_left:
  assumes "zcbor_consumes ops left" "list_all (\<lambda>e. decoder_ok left (me_decode e)) entries"
    and "map_decode_round ops entries (key, decoded, z, s) = Again (key', decoded', z', s')"
  shows "left z' < left z"
proof -
  have ok: "decoder_ok left (me_decode (entries ! i))" if "i < length entries" for i
    using assms that by (simp add: list_all_length)
  from map_decode_round_Again [OF assms(3)] obtain z1 where z1: "zcbor_map_key_decode ops z key = Some (OK, z1, key')"
    "(\<exists>i < length entries. decoded' = decoded @ [i] \<and> me_decode (entries ! i) z1 s = Some (Some (OK, z', s')))
     \<or> zcbor_any_skip ops z1 = (True, z')"
    by blast
  have "left z' \<le> left z1"
    using z1(2) by (auto dest: zcbor_consumesD(3) [OF assms(1)] decoder_okD(2) [OF ok])
  with key_decode_progress [OF assms(1) z1(1)] show ?thesis by simp
qed

lemma map_decode_loop_returns:
  assumes "zcbor_consumes ops left" "list_all (\<lambda>e. decoder_ok left (me_decode e)) entries"
  shows "rounds (map_decode_round ops entries) x \<noteq> None"
proof (rule rounds_returns [where left = "\<lambda>(_, _, z, _). left z"])
  have ok: "me_decode (entries ! i) z1 s \<noteq> None" if "i < length entries" for i z1 s
    using assms(2) that by (intro decoder_okD(1)) (auto simp: list_all_length)
  show "map_decode_round ops entries x \<noteq> Hang" for x
  proof
    assume h: "map_decode_round ops entries x = Hang"
    obtain key decoded z s where "x = (key, decoded, z, s)" by (cases x)
    with h map_decode_round_Hang [of ops entries key decoded z s] ok show False by blast
  qed
  show "(case y of (_, _, z, _) \<Rightarrow> left z) < (case x of (_, _, z, _) \<Rightarrow> left z)" if "map_decode_round ops entries x = Again y" for x y
    using map_decode_round_left [OF assms] that by (cases x; cases y) auto
qed

lemma zcbor_map_decode_returns:
  assumes "zcbor_consumes ops left" "list_all (\<lambda>e. decoder_ok left (me_decode e)) entries"
  shows "zcbor_map_decode ops entries key z s \<noteq> None"
proof -
  obtain ok z1 where "zcbor_map_start_decode ops z = (ok, z1)" by fastforce
  then show ?thesis
    using map_decode_loop_returns [OF assms, of "(key, [], z1, s)"]
    by (auto simp: zcbor_map_decode_def split: prod.splits option.splits sum.splits)
qed

section \<open>Correctness\<close>

text \<open>What the decoders of the listed entries, called in this order, do to the state they store to.\<close>

inductive decoded_by :: "('z, 's) zcbor_map_entry list \<Rightarrow> nat list \<Rightarrow> 's \<Rightarrow> 's \<Rightarrow> bool" for entries where
  decoded_by_Nil: "decoded_by entries [] s s"
| decoded_by_snoc: "decoded_by entries is s s1 \<Longrightarrow> i < length entries \<Longrightarrow> me_decode (entries ! i) z s1 = Some (Some (OK, z', s2))
    \<Longrightarrow> decoded_by entries (is @ [i]) s s2"

inductive_simps decoded_by_Nil_iff [simp]: "decoded_by entries [] s s'"

lemma decoded_by_bound: "decoded_by entries is s s' \<Longrightarrow> set is \<subseteq> {..<length entries}"
  by (induction rule: decoded_by.induct) auto

lemma decoded_by_invariant:
  assumes "decoded_by entries is s s'" "P s"
    and "\<And>i z s z' s'. i < length entries \<Longrightarrow> P s \<Longrightarrow> me_decode (entries ! i) z s = Some (Some (OK, z', s')) \<Longrightarrow> P s'"
  shows "P s'"
  using assms by (induction rule: decoded_by.induct) blast+

lemma map_decode_round_Halt:
  assumes "map_decode_round ops entries (key, decoded, z, s) = Halt (Some (Inr decoded', z', s'))"
  shows "decoded' = decoded \<and> s' = s \<and> z' = z"
  using assms by (auto simp: map_decode_round_def split: if_splits option.splits prod.splits ret.splits)

lemma map_decode_loop_decoded:
  assumes "rounds (map_decode_round ops entries) (key, [], z, s) = Some (Some (Inr decoded, z', s'))"
  shows "decoded_by entries decoded s s' \<and> length decoded \<le> length entries"
proof -
  let ?P = "\<lambda>(_, decoded, _, s'). decoded_by entries decoded s s' \<and> length decoded \<le> length entries"
  have step: "?P y" if "map_decode_round ops entries x = Again y" "?P x" for x y
  proof -
    obtain k d z1 s1 k' d' z2 s2 where xy: "x = (k, d, z1, s1)" "y = (k', d', z2, s2)" by (cases x, cases y)
    then have "map_decode_round ops entries (k, d, z1, s1) = Again (k', d', z2, s2)" using that by simp
    moreover from this have "length d < length entries" by (auto simp: map_decode_round_def split: if_splits)
    ultimately show ?thesis using that(2) by (auto simp: xy dest!: map_decode_round_Again intro: decoded_by_snoc)
  qed
  obtain y where "?P y" "map_decode_round ops entries y = Halt (Some (Inr decoded, z', s'))"
    using rounds_invariant [OF assms, of ?P] step by (auto intro: decoded_by_Nil)
  then show ?thesis by (cases y) (auto dest: map_decode_round_Halt)
qed

text \<open>
  On success as many entries have been decoded as the table has: all of them, if none has been decoded twice.
\<close>

lemma zcbor_map_decode_OK:
  assumes "zcbor_map_decode ops entries key z s = Some (Some (OK, decoded, z', s'))"
  shows "decoded_by entries decoded s s'" "length decoded = length entries" "decoded \<noteq> []"
    and "distinct decoded \<Longrightarrow> set decoded = {..<length entries}"
proof -
  have *: "decoded_by entries decoded s s' \<and> length decoded = length entries \<and> decoded \<noteq> []"
    using assms by (auto simp: zcbor_map_decode_def dest!: map_decode_loop_decoded
        split: prod.splits if_splits option.splits sum.splits)
  then show "decoded_by entries decoded s s'" "length decoded = length entries" "decoded \<noteq> []" by blast+
  assume "distinct decoded"
  with * show "set decoded = {..<length entries}"
    by (intro card_subset_eq) (auto simp: distinct_card dest: decoded_by_bound)
qed

text \<open>Success takes at least one byte, as every entry does.\<close>

lemma zcbor_map_decode_left:
  assumes "zcbor_consumes ops left" "list_all (\<lambda>e. decoder_ok left (me_decode e)) entries"
    and "zcbor_map_decode ops entries key z s = Some (Some (OK, decoded, z', s'))"
  shows "left z' < left z"
proof -
  obtain z0 z1 where z: "zcbor_map_start_decode ops z = (True, z0)" "decoded \<noteq> []"
    "rounds (map_decode_round ops entries) (key, [], z0, s) = Some (Some (Inr decoded, z1, s'))"
    "zcbor_list_map_end_force_decode ops z1 = (True, z')"
    using assms(3) by (auto simp: zcbor_map_decode_def split: prod.splits if_splits option.splits sum.splits)
  let ?P = "\<lambda>(_, d, y, _). left y \<le> left z0 \<and> (d \<noteq> [] \<longrightarrow> left y < left z0)"
  have step: "?P y" if "map_decode_round ops entries x = Again y" "?P x" for x y
    using map_decode_round_left [OF assms(1,2)] that by (cases x; cases y) fastforce
  have "\<exists>y. ?P y \<and> map_decode_round ops entries y = Halt (Some (Inr decoded, z1, s'))"
    by (rule rounds_invariant [where P = ?P, OF z(3)]) (simp, rule step)
  then obtain y where "?P y" "map_decode_round ops entries y = Halt (Some (Inr decoded, z1, s'))" by blast
  then have "left z1 < left z0" using z(2) by (cases y) (auto dest: map_decode_round_Halt)
  with zcbor_consumesD(10,13) [OF assms(1)] z(1,4) show ?thesis by (meson le_less_trans less_le_trans)
qed

end
