(* ===== verification/Dispatch.thy ===== *)
theory Dispatch
  imports Uplink
begin

text \<open>
  The dispatcher of the Golioth services, \<^verbatim>\<open>src/golioth_sdk/dispatch.c\<close>: it is a downlink handler of the
  pouch library that finds the service for a path and passes the data of the stream on to it, and it runs
  the uplink callbacks of the services.

  The services are a list in the order of their section; the identifier slot of each is an element of
  \<open>downlink_ids\<close>. The identifier is compared as an unsigned integer, so it is a 32 bit word.

  Shown here: the dispatcher refines a map from streams to services; data goes to the service that the map
  names; and a service is chosen by a prefix of the path even where its own path has no wildcard.
\<close>

section \<open>State\<close>

record 'a golioth_downlink_service =
  svc_path :: cstr
  svc_start_cb :: "(u32 \<Rightarrow> cstr option \<Rightarrow> 'a \<Rightarrow> 'a option) option"
  svc_data_cb :: "u32 \<Rightarrow> byte list option \<Rightarrow> size_t \<Rightarrow> bool \<Rightarrow> 'a \<Rightarrow> 'a option"

definition DOWNLINK_ID_INVALID :: u32 where
  "DOWNLINK_ID_INVALID = - 1"

record dispatch =
  last_seen :: "nat option"
  downlink_ids :: "u32 list"

section \<open>Downlink\<close>

text \<open>
  The number of characters of a service's path that are compared, and whether it ends in a wildcard.
  The last character of an empty path is outside the string.
\<close>

definition service_prefix :: "'a golioth_downlink_service \<Rightarrow> (bool \<times> nat) option" where
  "service_prefix service =
     (if svc_path service = [] then None
      else let path_len = length (svc_path service);
               partial = (svc_path service ! (path_len - 1) = 42) in
        Some (partial, if partial then path_len - 1 else path_len))"

text \<open>The first service whose prefix agrees with the path: \<open>i\<close> is the index of the head of the list.\<close>

fun find_service :: "'a golioth_downlink_service list \<Rightarrow> nat \<Rightarrow> cstr \<Rightarrow> (nat \<times> bool \<times> nat) option option" where
  "find_service [] i path = Some None"
| "find_service (service # services) i path =
     do { (partial, path_len) \<leftarrow> service_prefix service;
          if take path_len (svc_path service) = take path_len path then Some (Some (i, partial, path_len))
          else find_service services (Suc i) path }"

definition dispatch_downlink_start ::
  "'a golioth_downlink_service list \<Rightarrow> nat \<Rightarrow> cstr \<Rightarrow> u16 \<Rightarrow> dispatch \<times> 'a \<Rightarrow> (dispatch \<times> 'a) option" where
  "dispatch_downlink_start services stream_id path content_type = (\<lambda>(d, a).
     do { m \<leftarrow> find_service services 0 path;
          case m of
            None \<Rightarrow> Some (d, a)
          | Some (i, partial, path_len) \<Rightarrow>
              (let d = d\<lparr>last_seen := Some i, downlink_ids := (downlink_ids d)[i := word_of_nat stream_id]\<rparr> in
               case svc_start_cb (services ! i) of
                 None \<Rightarrow> Some (d, a)
               | Some cb \<Rightarrow>
                   do { a \<leftarrow> cb (word_of_nat stream_id)
                               (if partial \<and> length (drop path_len path) > 0 then Some (drop path_len path) else None) a;
                        Some (d, a) }) })"

text \<open>The first service whose identifier is that of the stream.\<close>

fun find_id :: "u32 list \<Rightarrow> nat \<Rightarrow> u32 \<Rightarrow> nat option" where
  "find_id [] i stream_id = None"
| "find_id (x # ids) i stream_id = (if x = stream_id then Some i else find_id ids (Suc i) stream_id)"

definition active_service :: "dispatch \<Rightarrow> u32 \<Rightarrow> nat option" where
  "active_service d stream_id =
     (case last_seen d of
        Some i \<Rightarrow> if downlink_ids d ! i = stream_id then Some i else find_id (downlink_ids d) 0 stream_id
      | None \<Rightarrow> find_id (downlink_ids d) 0 stream_id)"

definition dispatch_downlink_data ::
  "'a golioth_downlink_service list \<Rightarrow> nat \<Rightarrow> byte list option \<Rightarrow> size_t \<Rightarrow> bool \<Rightarrow> dispatch \<times> 'a \<Rightarrow> (dispatch \<times> 'a) option" where
  "dispatch_downlink_data services stream_id data len is_last = (\<lambda>(d, a).
     (case active_service d (word_of_nat stream_id) of
        None \<Rightarrow> Some (d, a)
      | Some i \<Rightarrow>
          do { a \<leftarrow> svc_data_cb (services ! i) (word_of_nat stream_id) data len is_last a;
               Some (if is_last
                     then d\<lparr>downlink_ids := (downlink_ids d)[i := DOWNLINK_ID_INVALID], last_seen := None\<rparr>
                     else d, a) }))"

text \<open>The dispatcher as a handler of the pouch library.\<close>

definition dispatch_handler :: "'a golioth_downlink_service list \<Rightarrow> (dispatch \<times> 'a) pouch_downlink_handler" where
  "dispatch_handler services = \<lparr>start_cb = dispatch_downlink_start services, data_cb = dispatch_downlink_data services\<rparr>"

section \<open>Uplink\<close>

text \<open>The callbacks write entries to the uplink.\<close>

fun run_uplink_services :: "('s \<Rightarrow> 's option) option list \<Rightarrow> 's \<Rightarrow> 's option" where
  "run_uplink_services [] s = Some s"
| "run_uplink_services (cb # cbs) s =
     do { s \<leftarrow> (case cb of None \<Rightarrow> Some s | Some f \<Rightarrow> f s); run_uplink_services cbs s }"

definition golioth_sync_to_cloud :: "('c node \<Rightarrow> 'c node option) option list \<Rightarrow> 'c node \<Rightarrow> (ret \<times> 'c node) option" where
  "golioth_sync_to_cloud services s =
     do { s \<leftarrow> run_uplink_services services s;
          (_, s) \<leftarrow> pouch_uplink_close OK s;
          Some (OK, s) }"

section \<open>Invariant and abstraction\<close>

text \<open>
  A slot for each service, no stream in two slots, and the service seen last exists and is serving a stream.
\<close>

definition dispatch_inv :: "'a golioth_downlink_service list \<Rightarrow> dispatch \<Rightarrow> bool" where
  "dispatch_inv services d \<longleftrightarrow> length (downlink_ids d) = length services
     \<and> (\<forall>i < length services. \<forall>j < length services. i \<noteq> j \<longrightarrow> downlink_ids d ! i = downlink_ids d ! j
          \<longrightarrow> downlink_ids d ! i = DOWNLINK_ID_INVALID)
     \<and> (\<forall>i. last_seen d = Some i \<longrightarrow> i < length services)"

text \<open>The abstraction: which service gets the data of a stream.\<close>

definition routes :: "dispatch \<Rightarrow> u32 \<rightharpoonup> nat" where
  "routes d = (\<lambda>sid. if sid = DOWNLINK_ID_INVALID then None else find_id (downlink_ids d) 0 sid)"

definition dispatch_boot :: "'a golioth_downlink_service list \<Rightarrow> dispatch" where
  "dispatch_boot services = \<lparr>last_seen = None, downlink_ids = replicate (length services) DOWNLINK_ID_INVALID\<rparr>"

section \<open>Lemmas\<close>

lemma find_id_Some: "find_id ids k x = Some i \<Longrightarrow> k \<le> i \<and> i - k < length ids \<and> ids ! (i - k) = x"
proof (induction ids arbitrary: k)
  case Nil
  then show ?case by simp
next
  case (Cons y ids)
  show ?case
  proof (cases "y = x")
    case True
    with Cons.prems show ?thesis by simp
  next
    case False
    with Cons.prems have "Suc k \<le> i \<and> i - Suc k < length ids \<and> ids ! (i - Suc k) = x" by (intro Cons.IH) simp
    then show ?thesis by (auto simp: nth_Cons')
  qed
qed

lemma find_id_None: "find_id ids k x = None \<longleftrightarrow> x \<notin> set ids"
  by (induction ids arbitrary: k) auto

lemma find_id_unique:
  assumes "i < length ids" "ids ! i = x" "\<forall>j < length ids. j \<noteq> i \<longrightarrow> ids ! j \<noteq> x"
  shows "find_id ids 0 x = Some i"
proof (cases "find_id ids 0 x")
  case None
  with assms show ?thesis by (metis find_id_None nth_mem)
next
  case (Some k)
  with find_id_Some [OF this] assms show ?thesis by auto
qed

lemma routes_Some:
  assumes "dispatch_inv services d"
  shows "routes d sid = Some i \<longleftrightarrow> sid \<noteq> DOWNLINK_ID_INVALID \<and> i < length services \<and> downlink_ids d ! i = sid"
proof
  assume "routes d sid = Some i"
  then show "sid \<noteq> DOWNLINK_ID_INVALID \<and> i < length services \<and> downlink_ids d ! i = sid"
    using find_id_Some [of "downlink_ids d" 0 sid i] assms by (auto simp: routes_def dispatch_inv_def split: if_splits)
next
  assume r: "sid \<noteq> DOWNLINK_ID_INVALID \<and> i < length services \<and> downlink_ids d ! i = sid"
  then have "find_id (downlink_ids d) 0 sid = Some i"
    using assms by (intro find_id_unique) (auto simp: dispatch_inv_def)
  with r show "routes d sid = Some i" by (simp add: routes_def)
qed

lemma routes_None:
  assumes "dispatch_inv services d" "sid \<noteq> DOWNLINK_ID_INVALID"
  shows "routes d sid = None \<longleftrightarrow> (\<forall>i < length services. downlink_ids d ! i \<noteq> sid)"
  using assms routes_Some [OF assms(1), of sid] by (metis not_None_eq)

text \<open>The shortcut through the service seen last finds what the search would find.\<close>

lemma active_service_routes:
  assumes "dispatch_inv services d" "sid \<noteq> DOWNLINK_ID_INVALID"
  shows "active_service d sid = routes d sid"
proof (cases "\<exists>i. last_seen d = Some i \<and> downlink_ids d ! i = sid")
  case True
  then obtain i where i: "last_seen d = Some i" "downlink_ids d ! i = sid" by blast
  then have "i < length services" using assms(1) by (auto simp: dispatch_inv_def)
  then have "routes d sid = Some i" using routes_Some [OF assms(1)] i assms(2) by blast
  with i show ?thesis by (simp add: active_service_def)
next
  case False
  with assms(2) show ?thesis by (auto simp: active_service_def routes_def split: option.splits)
qed

lemma find_service_Some:
  "find_service services k path = Some (Some (i, partial, n)) \<Longrightarrow>
     k \<le> i \<and> i - k < length services \<and> service_prefix (services ! (i - k)) = Some (partial, n)
     \<and> take n (svc_path (services ! (i - k))) = take n path"
proof (induction services arbitrary: k)
  case Nil
  then show ?case by simp
next
  case (Cons service services)
  show ?case
  proof (cases "i = k")
    case True
    with Cons show ?thesis by (fastforce split: bind_splits if_splits dest: Cons.IH)
  next
    case False
    with Cons have "find_service services (Suc k) path = Some (Some (i, partial, n))"
      by (auto split: bind_splits if_splits)
    from Cons.IH [OF this] show ?thesis by (auto simp: nth_Cons' Suc_diff_Suc [symmetric])
  qed
qed

lemma dispatch_inv_boot: "dispatch_inv services (dispatch_boot services)"
  by (simp add: dispatch_inv_def dispatch_boot_def)

lemma routes_boot: "routes (dispatch_boot services) = Map.empty"
  by (auto simp: routes_def dispatch_boot_def find_id_None fun_eq_iff)

text \<open>Starting a stream that is not being served puts it on the map, in place of what the service served.\<close>

lemma start_refines:
  assumes inv: "dispatch_inv services d" and free: "routes d sid = None" and valid: "sid \<noteq> DOWNLINK_ID_INVALID"
    and i: "i < length services"
  defines "d' \<equiv> d\<lparr>last_seen := Some i, downlink_ids := (downlink_ids d)[i := sid]\<rparr>"
  shows "dispatch_inv services d' \<and> routes d' = (\<lambda>x. if x = sid then Some i else if routes d x = Some i then None else routes d x)"
proof -
  have ids: "length (downlink_ids d) = length services" using inv by (simp add: dispatch_inv_def)
  have fr: "\<forall>j < length services. downlink_ids d ! j \<noteq> sid" using routes_None [OF inv valid] free by blast
  have inv': "dispatch_inv services d'"
    using inv i fr ids by (auto simp: dispatch_inv_def d'_def nth_list_update)
  moreover have "routes d' x = (if x = sid then Some i else if routes d x = Some i then None else routes d x)" for x
  proof (cases "x = DOWNLINK_ID_INVALID")
    case True
    with valid show ?thesis by (auto simp: routes_def)
  next
    case x: False
    show ?thesis
    proof (cases "routes d' x")
      case None
      then have "\<forall>j < length services. downlink_ids d' ! j \<noteq> x" using routes_None [OF inv' x] by blast
      then have "x \<noteq> sid" "\<forall>j < length services. j \<noteq> i \<longrightarrow> downlink_ids d ! j \<noteq> x"
        using i ids by (auto simp: d'_def nth_list_update)
      then have "routes d x = None \<or> routes d x = Some i" using routes_Some [OF inv, of x] by (metis not_None_eq)
      with None \<open>x \<noteq> sid\<close> show ?thesis by auto
    next
      case (Some j)
      then have j: "j < length services" "downlink_ids d' ! j = x" using routes_Some [OF inv'] by blast+
      show ?thesis
      proof (cases "j = i")
        case True
        with j Some ids i show ?thesis by (simp add: d'_def)
      next
        case False
        then have "downlink_ids d ! j = x" using j by (simp add: d'_def)
        then have "routes d x = Some j" "x \<noteq> sid" using routes_Some [OF inv] j(1) x fr by blast+
        with Some False show ?thesis by simp
      qed
    qed
  qed
  ultimately show ?thesis by blast
qed

text \<open>Finishing a stream takes it off the map.\<close>

lemma finish_refines:
  assumes inv: "dispatch_inv services d" and r: "routes d sid = Some i"
  defines "d' \<equiv> d\<lparr>downlink_ids := (downlink_ids d)[i := DOWNLINK_ID_INVALID], last_seen := None\<rparr>"
  shows "dispatch_inv services d' \<and> routes d' = (routes d)(sid := None)"
proof -
  have i: "i < length services" "downlink_ids d ! i = sid" "sid \<noteq> DOWNLINK_ID_INVALID"
    using routes_Some [OF inv] r by blast+
  have ids: "length (downlink_ids d) = length services" using inv by (simp add: dispatch_inv_def)
  have inv': "dispatch_inv services d'"
    using inv i ids by (auto simp: dispatch_inv_def d'_def nth_list_update)
  moreover have "routes d' x = ((routes d)(sid := None)) x" for x
  proof (cases "x = DOWNLINK_ID_INVALID")
    case True
    then show ?thesis by (auto simp: routes_def)
  next
    case x: False
    have "routes d' x = Some j \<longleftrightarrow> ((routes d)(sid := None)) x = Some j" for j
    proof -
      have "routes d' x = Some j \<longleftrightarrow> j < length services \<and> downlink_ids d' ! j = x" using routes_Some [OF inv'] x by blast
      also have "\<dots> \<longleftrightarrow> j < length services \<and> j \<noteq> i \<and> downlink_ids d ! j = x" using x ids i(1) by (auto simp: d'_def nth_list_update)
      also have "\<dots> \<longleftrightarrow> x \<noteq> sid \<and> routes d x = Some j"
        using routes_Some [OF inv, of x j] x i inv r routes_Some [OF inv, of sid j] by auto
      finally show ?thesis by auto
    qed
    then show ?thesis by (metis not_None_eq)
  qed
  ultimately show ?thesis by blast
qed

subsection \<open>The operations\<close>

text \<open>What the service found for a path is given: its wildcard-stripped path is a prefix of the path.\<close>

definition remainder_of :: "bool \<Rightarrow> nat \<Rightarrow> cstr \<Rightarrow> cstr option" where
  "remainder_of partial n path = (if partial \<and> n < length path then Some (drop n path) else None)"

definition run_start_cb :: "'a golioth_downlink_service \<Rightarrow> u32 \<Rightarrow> cstr option \<Rightarrow> 'a \<Rightarrow> 'a option" where
  "run_start_cb service sid r a = (case svc_start_cb service of None \<Rightarrow> Some a | Some cb \<Rightarrow> cb sid r a)"

definition routed :: "dispatch \<Rightarrow> u32 \<Rightarrow> nat \<Rightarrow> dispatch" where
  "routed d sid i = d\<lparr>last_seen := Some i, downlink_ids := (downlink_ids d)[i := sid]\<rparr>"

lemma dispatch_start_eq:
  assumes "find_service services 0 path = Some (Some (i, partial, n))"
  shows "dispatch_downlink_start services stream_id path ct (d, a) =
    map_option (Pair (routed d (word_of_nat stream_id) i)) (run_start_cb (services ! i) (word_of_nat stream_id) (remainder_of partial n path) a)"
  using assms by (cases "svc_start_cb (services ! i)")
    (simp_all add: dispatch_downlink_start_def run_start_cb_def routed_def remainder_of_def Let_def map_conv_bind_option comp_def)

lemma dispatch_data_eq:
  assumes "dispatch_inv services d" "word_of_nat stream_id \<noteq> DOWNLINK_ID_INVALID"
  shows "dispatch_downlink_data services stream_id data len is_last (d, a) =
    (case routes d (word_of_nat stream_id) of
       None \<Rightarrow> Some (d, a)
     | Some i \<Rightarrow> map_option (Pair (if is_last then d\<lparr>downlink_ids := (downlink_ids d)[i := DOWNLINK_ID_INVALID], last_seen := None\<rparr> else d))
                    (svc_data_cb (services ! i) (word_of_nat stream_id) data len is_last a))"
  using active_service_routes [OF assms]
  by (cases "routes d (word_of_nat stream_id)") (simp_all add: dispatch_downlink_data_def map_conv_bind_option comp_def)

text \<open>
  One entry: it goes to the service for its path, and afterwards the streams are served as before, save one
  that this service was serving.
\<close>

lemma deliver_entry_dispatch:
  assumes "dispatch_inv services d" "routes d 0 = None" "find_service services 0 path = Some (Some (i, partial, n))"
  shows "\<exists>d'. dispatch_inv services d' \<and> routes d' = (\<lambda>x. if routes d x = Some i then None else routes d x)
    \<and> deliver_entry [dispatch_handler services] (path, ct, data, len) (d, a) =
      do { a \<leftarrow> run_start_cb (services ! i) 0 (remainder_of partial n path) a;
           a \<leftarrow> svc_data_cb (services ! i) 0 data len True a; Some (d', a) }"
proof -
  have z: "(0 :: u32) \<noteq> DOWNLINK_ID_INVALID" by (simp add: DOWNLINK_ID_INVALID_def)
  have i: "i < length services" using find_service_Some [OF assms(3)] by simp
  let ?d1 = "routed d 0 i"
  have r1: "dispatch_inv services ?d1" "routes ?d1 = (\<lambda>x. if x = 0 then Some i else if routes d x = Some i then None else routes d x)"
    using start_refines [OF assms(1,2) z i] by (simp_all add: routed_def)
  have s1: "routes ?d1 0 = Some i" using r1(2) by simp
  let ?d2 = "?d1\<lparr>downlink_ids := (downlink_ids ?d1)[i := DOWNLINK_ID_INVALID], last_seen := None\<rparr>"
  have r2: "dispatch_inv services ?d2" "routes ?d2 = (routes ?d1)(0 := None)" using finish_refines [OF r1(1) s1] by simp_all
  have "routes ?d2 = (\<lambda>x. if routes d x = Some i then None else routes d x)"
    using r2(2) assms(2) by (auto simp: r1(2) fun_eq_iff)
  moreover have "deliver_entry [dispatch_handler services] (path, ct, data, len) (d, a) =
      do { a \<leftarrow> run_start_cb (services ! i) 0 (remainder_of partial n path) a;
           a \<leftarrow> svc_data_cb (services ! i) 0 data len True a; Some (?d2, a) }"
    using dispatch_start_eq [OF assms(3), of 0 ct d a] dispatch_data_eq [OF r1(1), of 0] s1 z
    by (cases "run_start_cb (services ! i) 0 (remainder_of partial n path) a")
       (simp_all add: deliver_entry_def dispatch_handler_def map_conv_bind_option comp_def)
  ultimately show ?thesis using r2(1) by blast
qed

text \<open>A path that no service takes is dropped.\<close>

lemma deliver_entry_unmatched:
  assumes "dispatch_inv services d" "routes d 0 = None" "find_service services 0 path = Some None"
  shows "deliver_entry [dispatch_handler services] (path, ct, data, len) (d, a) = Some (d, a)"
proof -
  have z: "(0 :: u32) \<noteq> DOWNLINK_ID_INVALID" by (simp add: DOWNLINK_ID_INVALID_def)
  show ?thesis
    using assms dispatch_data_eq [OF assms(1), of 0] z
    by (simp add: deliver_entry_def dispatch_handler_def dispatch_downlink_start_def)
qed

text \<open>A block of entries: each goes to its service, in the order of the block.\<close>

fun service_entries :: "'a golioth_downlink_service list \<Rightarrow> pouch_entry list \<Rightarrow> 'a \<Rightarrow> 'a option" where
  "service_entries services [] a = Some a"
| "service_entries services (e # es) a =
     do { m \<leftarrow> find_service services 0 (pe_path e);
          a \<leftarrow> (case m of
                  None \<Rightarrow> Some a
                | Some (i, partial, n) \<Rightarrow>
                    do { a \<leftarrow> run_start_cb (services ! i) 0 (remainder_of partial n (pe_path e)) a;
                         svc_data_cb (services ! i) 0 (Some (pe_data e)) (length (pe_data e)) True a });
          service_entries services es a }"

lemma deliver_entries_dispatch:
  assumes "dispatch_inv services d" "routes d 0 = None"
  shows "map_option snd (deliver_entries [dispatch_handler services] (map entry_event_of es) (d, a)) = service_entries services es a"
  using assms
proof (induction es arbitrary: d a)
  case Nil
  then show ?case by simp
next
  case (Cons e es)
  show ?case
  proof (cases "find_service services 0 (pe_path e)")
    case None
    then show ?thesis by (simp add: deliver_entry_def entry_event_of_def dispatch_handler_def dispatch_downlink_start_def)
  next
    case (Some m)
    show ?thesis
    proof (cases m)
      case None
      with Some Cons deliver_entry_unmatched [OF Cons.prems] show ?thesis by (simp add: entry_event_of_def)
    next
      case m: (Some r)
      obtain i partial n where r: "r = (i, partial, n)" by (cases r)
      obtain d' where d': "dispatch_inv services d'" "routes d' = (\<lambda>x. if routes d x = Some i then None else routes d x)"
        "deliver_entry [dispatch_handler services] (entry_event_of e) (d, a) =
          do { a \<leftarrow> run_start_cb (services ! i) 0 (remainder_of partial n (pe_path e)) a;
               a \<leftarrow> svc_data_cb (services ! i) 0 (Some (pe_data e)) (length (pe_data e)) True a; Some (d', a) }"
        using deliver_entry_dispatch [OF Cons.prems, of "pe_path e" i partial n "pe_content_type e" "Some (pe_data e)" "length (pe_data e)" a] Some m r
        by (auto simp: entry_event_of_def)
      have r0: "routes d' 0 = None" using d'(2) Cons.prems(2) by simp
      show ?thesis
        using d'(3) Cons.IH [OF d'(1) r0] Some m r
        by (cases "run_start_cb (services ! i) 0 (remainder_of partial n (pe_path e)) a")
           (auto simp: map_conv_bind_option [symmetric] split: bind_splits)
    qed
  qed
qed

end
