(* ===== verification/Settings.thy ===== *)
theory Settings
  imports Zcbor_Utils Dispatch
begin

text \<open>
  The settings service, \<^verbatim>\<open>src/golioth_sdk/settings.c\<close> and \<^verbatim>\<open>src/golioth_sdk/settings_callbacks.c\<close>: a CBOR document with the settings and
  their version is decoded and each setting is handed to the callback registered for its name; the version is
  reported back. The registered handlers are a list in the order of their section, the application behind
  the callbacks is a parameter of the state.

  Shown here: decoding returns; the settings of a document are handed over one by one in their order, each to the
  first handler with its name and only if the types agree; names are cut to 31 bytes before they are compared.
\<close>

section \<open>State\<close>

datatype golioth_setting_value_type = GOLIOTH_SETTING_VALUE_TYPE_UNKNOWN | GOLIOTH_SETTING_VALUE_TYPE_INT
  | GOLIOTH_SETTING_VALUE_TYPE_BOOL | GOLIOTH_SETTING_VALUE_TYPE_FLOAT | GOLIOTH_SETTING_VALUE_TYPE_STRING

text \<open>
  The unions of values and of callbacks. Reading another member than the one that was stored is a fault of the model.
  A floating-point number is its 64 bits.
\<close>

datatype setting_val = Int_val u32 | Bool_val bool | Float_val u64 | Str_val "byte list"

datatype 'a setting_cb = Int_cb "u32 \<Rightarrow> 'a \<Rightarrow> (ret \<times> 'a) option" | Bool_cb "bool \<Rightarrow> 'a \<Rightarrow> (ret \<times> 'a) option"
  | Float_cb "u64 \<Rightarrow> 'a \<Rightarrow> (ret \<times> 'a) option" | String_cb "byte list \<Rightarrow> 'a \<Rightarrow> (ret \<times> 'a) option"

record setting_value =
  sv_key :: cstr
  sv_type :: golioth_setting_value_type
  sv_val :: setting_val

record 'a golioth_settings_handler =
  sh_key :: cstr
  sh_type :: golioth_setting_value_type
  sh_cb :: "'a setting_cb"

text \<open>The registration macro takes the type from the callback.\<close>

fun cb_type :: "'a setting_cb \<Rightarrow> golioth_setting_value_type" where
  "cb_type (Int_cb f) = GOLIOTH_SETTING_VALUE_TYPE_INT"
| "cb_type (Bool_cb f) = GOLIOTH_SETTING_VALUE_TYPE_BOOL"
| "cb_type (Float_cb f) = GOLIOTH_SETTING_VALUE_TYPE_FLOAT"
| "cb_type (String_cb f) = GOLIOTH_SETTING_VALUE_TYPE_STRING"

definition GOLIOTH_SETTINGS_HANDLER :: "cstr \<Rightarrow> 'a setting_cb \<Rightarrow> 'a golioth_settings_handler" where
  "GOLIOTH_SETTINGS_HANDLER nm f = \<lparr>sh_key = nm, sh_type = cb_type f, sh_cb = f\<rparr>"

definition GOLIOTH_SETTINGS_MAX_NAME_LEN :: nat where
  "GOLIOTH_SETTINGS_MAX_NAME_LEN = 31"

record 'a settings =
  settings_version :: u64
  se_app :: 'a

section \<open>Callbacks\<close>

fun golioth_settings_receive_one :: "'a golioth_settings_handler list \<Rightarrow> setting_value \<Rightarrow> 'a \<Rightarrow> (ret \<times> 'a) option" where
  "golioth_settings_receive_one [] value a = Some (Err ENOENT, a)"
| "golioth_settings_receive_one (setting # settings) value a =
     (if sh_key setting = sv_key value
      then if sh_type setting \<noteq> sv_type value then Some (Err EINVAL, a)
           else case sh_type setting of
               GOLIOTH_SETTING_VALUE_TYPE_INT \<Rightarrow>
                 (case (sh_cb setting, sv_val value) of (Int_cb f, Int_val x) \<Rightarrow> f x a | _ \<Rightarrow> None)
             | GOLIOTH_SETTING_VALUE_TYPE_BOOL \<Rightarrow>
                 (case (sh_cb setting, sv_val value) of (Bool_cb f, Bool_val x) \<Rightarrow> f x a | _ \<Rightarrow> None)
             | GOLIOTH_SETTING_VALUE_TYPE_FLOAT \<Rightarrow>
                 (case (sh_cb setting, sv_val value) of (Float_cb f, Float_val x) \<Rightarrow> f x a | _ \<Rightarrow> None)
             | GOLIOTH_SETTING_VALUE_TYPE_STRING \<Rightarrow>
                 (case (sh_cb setting, sv_val value) of (String_cb f, Str_val x) \<Rightarrow> f x a | _ \<Rightarrow> None)
             | GOLIOTH_SETTING_VALUE_TYPE_UNKNOWN \<Rightarrow> golioth_settings_receive_one settings value a
      else golioth_settings_receive_one settings value a)"

section \<open>Decoding\<close>

text \<open>The value behind a label, with its type; \<^const>\<open>None\<close> where \<^verbatim>\<open>data_type_valid\<close> is false.\<close>

definition setting_value_decode ::
  "'z zcbor_ops \<Rightarrow> byte \<Rightarrow> 'z \<Rightarrow> (golioth_setting_value_type \<times> setting_val) option \<times> 'z" where
  "setting_value_decode ops major_type z =
     (if major_type = ZCBOR_MAJOR_TYPE_TSTR
      then (case zcbor_tstr_decode ops z of
              (None, z) \<Rightarrow> (None, z) | (Some (_, str), z) \<Rightarrow> (Some (GOLIOTH_SETTING_VALUE_TYPE_STRING, Str_val str), z))
      else if major_type = ZCBOR_MAJOR_TYPE_PINT \<or> major_type = ZCBOR_MAJOR_TYPE_NINT
      then (case zcbor_int32_decode ops z of
              (None, z) \<Rightarrow> (None, z) | (Some n, z) \<Rightarrow> (Some (GOLIOTH_SETTING_VALUE_TYPE_INT, Int_val n), z))
      else if major_type = ZCBOR_MAJOR_TYPE_SIMPLE
      then (case zcbor_float_decode ops z of
              (Some d, z) \<Rightarrow> (Some (GOLIOTH_SETTING_VALUE_TYPE_FLOAT, Float_val d), z)
            | (None, z) \<Rightarrow>
                (case zcbor_bool_decode ops z of
                   (Some b, z) \<Rightarrow> (Some (GOLIOTH_SETTING_VALUE_TYPE_BOOL, Bool_val b), z) | (None, z) \<Rightarrow> (None, z)))
      else (None, z))"

text \<open>The zeroed array with the first bytes of the label, read as a string.\<close>

definition setting_key :: "byte list \<Rightarrow> cstr" where
  "setting_key label =
     c_string (take GOLIOTH_SETTINGS_MAX_NAME_LEN label @ replicate (GOLIOTH_SETTINGS_MAX_NAME_LEN + 1 - min GOLIOTH_SETTINGS_MAX_NAME_LEN (length label)) 0)"

text \<open>One round of the loop; it ends with \<^const>\<open>OK\<close> at the end of the map and with an error where the function returns one.\<close>

definition settings_round ::
  "'z zcbor_ops \<Rightarrow> 'a golioth_settings_handler list \<Rightarrow> 'z \<times> 'a settings \<Rightarrow> (ret \<times> 'z \<times> 'a settings, 'z \<times> 'a settings) round" where
  "settings_round ops handlers = (\<lambda>(z, s).
     case zcbor_list_or_map_end ops z of
       None \<Rightarrow> Halt None
     | Some at_end \<Rightarrow>
         if at_end then Halt (Some (OK, z, s))
         else case zcbor_tstr_decode ops z of
             (None, z) \<Rightarrow> Halt (Some (Err EBADMSG, z, s))
           | (Some (_, label), z) \<Rightarrow>
               (case zs_payload ops z of
                  None \<Rightarrow> Halt None
                | Some b \<Rightarrow>
                    (case setting_value_decode ops (ZCBOR_MAJOR_TYPE b) z of
                       (Some (t, v), z) \<Rightarrow>
                         (case golioth_settings_receive_one handlers \<lparr>sv_key = setting_key label, sv_type = t, sv_val = v\<rparr> (se_app s) of
                            None \<Rightarrow> Halt None | Some (_, a) \<Rightarrow> Again (z, s\<lparr>se_app := a\<rparr>))
                     | (None, z) \<Rightarrow>
                         (case zcbor_any_skip ops z of
                            (ok, z) \<Rightarrow> if ok then Again (z, s) else Halt (Some (Err EBADMSG, z, s))))))"

definition settings_decode ::
  "'z zcbor_ops \<Rightarrow> 'a golioth_settings_handler list \<Rightarrow> 'z \<Rightarrow> 'a settings \<Rightarrow> (ret \<times> 'z \<times> 'a settings) run" where
  "settings_decode ops handlers z s =
     (case zcbor_nil_expect ops z of
        (nil, z) \<Rightarrow>
          if nil then Some (Some (Err ENOENT, z, s))
          else case zcbor_map_start_decode ops z of
              (ok, z) \<Rightarrow>
                if \<not> ok then Some (Some (Err EBADMSG, z, s))
                else case rounds (settings_round ops handlers) (z, s) of
                    None \<Rightarrow> None
                  | Some None \<Rightarrow> Some None
                  | Some (Some (Err e, z, s)) \<Rightarrow> Some (Some (Err e, z, s))
                  | Some (Some (OK, z, s)) \<Rightarrow>
                      (case zcbor_map_end_decode ops z of (ok, z) \<Rightarrow> Some (Some (if ok then OK else Err EBADMSG, z, s))))"

definition settings_entries :: "'z zcbor_ops \<Rightarrow> 'a golioth_settings_handler list \<Rightarrow> ('z, 'a settings) zcbor_map_entry list" where
  "settings_entries ops handlers =
     [\<lparr>me_key = ZCBOR_TSTR_LIT_KEY (cstr ''settings''), me_decode = settings_decode ops handlers\<rparr>,
      \<lparr>me_key = ZCBOR_TSTR_LIT_KEY (cstr ''version''), me_decode = zcbor_map_int64_decode ops (\<lambda>v s. s\<lparr>settings_version := v\<rparr>)\<rparr>]"

text \<open>The data callback of the service; the result of the decoding is dropped. A null pointer stands for no data.\<close>

definition settings_downlink ::
  "'z zcbor_ops \<Rightarrow> 'a golioth_settings_handler list \<Rightarrow> zcbor_map_key \<Rightarrow> u32 \<Rightarrow> byte list option \<Rightarrow> size_t \<Rightarrow> bool
     \<Rightarrow> 'a settings \<Rightarrow> 'a settings run" where
  "settings_downlink ops handlers key i data len is_last s =
     (case data of
        None \<Rightarrow> if len = 0 then map_option (map_option (\<lambda>(_, _, _, s). s))
                   (zcbor_map_decode ops (settings_entries ops handlers) key (zcbor_new_decode_state ops 2 []) s) else Some None
      | Some xs \<Rightarrow>
          (case mem_read 0 len xs of
             None \<Rightarrow> Some None
           | Some xs \<Rightarrow> map_option (map_option (\<lambda>(_, _, _, s). s))
               (zcbor_map_decode ops (settings_entries ops handlers) key (zcbor_new_decode_state ops 2 xs) s)))"

text \<open>The service. A call that does not return is not told from a fault here; \<open>settings_downlink_returns\<close> excludes it.\<close>

definition settings_service ::
  "'z zcbor_ops \<Rightarrow> 'a golioth_settings_handler list \<Rightarrow> zcbor_map_key \<Rightarrow> 'a settings golioth_downlink_service" where
  "settings_service ops handlers key =
     \<lparr>svc_path = cstr ''/.c'', svc_start_cb = None,
      svc_data_cb = (\<lambda>i data len is_last s. Option.bind (settings_downlink ops handlers key i data len is_last s) id)\<rparr>"

section \<open>Reporting\<close>

text \<open>The version as a CBOR map of one entry; a negative version is reported as nil.\<close>

definition settings_status :: "'e zcbor_enc_ops \<Rightarrow> u64 \<Rightarrow> byte list option" where
  "settings_status enc version =
     map_option (ze_bytes enc) (encode_all
       [zcbor_map_start_encode enc 2, zcbor_tstr_put enc (cstr ''version''),
        if 0 \<le> sint version then zcbor_int64_put enc version else zcbor_nil_put enc,
        zcbor_map_end_encode enc 2] (zcbor_new_encode_state enc 3 64))"

definition settings_uplink :: "config \<Rightarrow> 'e zcbor_enc_ops \<Rightarrow> u64 \<Rightarrow> 'c node \<Rightarrow> 'c node option" where
  "settings_uplink c enc version s =
     (case settings_status enc version of
        None \<Rightarrow> Some s
      | Some buf \<Rightarrow> map_option snd
          (pouch_uplink_entry_write c OK (Some (cstr ''.c/status'')) POUCH_CONTENT_TYPE_CBOR (Some buf) s))"

section \<open>Termination\<close>

lemma setting_value_decode_left:
  assumes "zcbor_consumes ops left"
  shows "setting_value_decode ops m z = (v, z') \<Longrightarrow> left z' \<le> left z"
  by (auto simp: setting_value_decode_def dest!: zcbor_consumesD(4-8) [OF assms] split: if_splits prod.splits option.splits)

lemma settings_round_left:
  assumes "zcbor_consumes ops left" "settings_round ops handlers (z, s) = Again (z', s')"
  shows "left z' < left z"
  using assms(2)
  by (auto simp: settings_round_def dest!: zcbor_consumesD(1,3) [OF assms(1)] setting_value_decode_left [OF assms(1)]
      split: if_splits prod.splits option.splits)

lemma settings_decode_ok:
  assumes "zcbor_consumes ops left"
  shows "decoder_ok left (settings_decode ops handlers)"
proof -
  have step: "left (fst y) < left (fst x)" if "settings_round ops handlers x = Again y" for x y :: "'a \<times> 'b settings"
    using settings_round_left [OF assms] that by (cases x; cases y) auto
  have hang: "settings_round ops handlers x \<noteq> Hang" for x :: "'a \<times> 'b settings"
    by (cases x) (auto simp: settings_round_def split: if_splits prod.splits option.splits)
  have ret: "rounds (settings_round ops handlers) x \<noteq> None" for x :: "'a \<times> 'b settings"
    by (rule rounds_returns [where left = "\<lambda>x. left (fst x)", OF hang step])
  have res: "left z' \<le> left z" if run: "rounds (settings_round ops handlers) (z, s) = Some (Some (OK, z', s'))" for z z' and s s' :: "'b settings"
  proof -
    obtain y where "left (fst y) \<le> left z" "settings_round ops handlers y = Halt (Some (OK, z', s'))"
      using rounds_left [where left = "\<lambda>x. left (fst x)", OF run step] by auto
    then show ?thesis by (cases y) (auto simp: settings_round_def split: if_splits prod.splits option.splits)
  qed
  have "settings_decode ops handlers z s \<noteq> None" for z and s :: "'b settings"
    unfolding settings_decode_def by (simp add: ret del: not_None_eq split: prod.split option.split ret.split)
  moreover have "left z' \<le> left z" if "settings_decode ops handlers z s = Some (Some (OK, z', s'))" for z z' and s s' :: "'b settings"
    using that by (fastforce simp: settings_decode_def dest!: zcbor_consumesD(9,10,12) [OF assms] res
        split: if_splits prod.splits option.splits ret.splits)
  ultimately show ?thesis unfolding decoder_ok_def by blast
qed

lemma settings_downlink_returns:
  assumes "zcbor_consumes ops left"
  shows "settings_downlink ops handlers key i data len is_last s \<noteq> None"
proof -
  have "zcbor_map_decode ops (settings_entries ops handlers) key z s \<noteq> None" for z
    by (rule zcbor_map_decode_returns [OF assms]) (simp add: settings_entries_def assms settings_decode_ok [OF assms])
  then show ?thesis by (simp add: settings_downlink_def split: option.split)
qed

section \<open>What is handed over\<close>

text \<open>The value has the type that goes with it.\<close>

fun val_type :: "setting_val \<Rightarrow> golioth_setting_value_type" where
  "val_type (Int_val _) = GOLIOTH_SETTING_VALUE_TYPE_INT"
| "val_type (Bool_val _) = GOLIOTH_SETTING_VALUE_TYPE_BOOL"
| "val_type (Float_val _) = GOLIOTH_SETTING_VALUE_TYPE_FLOAT"
| "val_type (Str_val _) = GOLIOTH_SETTING_VALUE_TYPE_STRING"

fun apply_cb :: "'a setting_cb \<Rightarrow> setting_val \<Rightarrow> 'a \<Rightarrow> (ret \<times> 'a) option" where
  "apply_cb (Int_cb f) (Int_val x) a = f x a"
| "apply_cb (Bool_cb f) (Bool_val x) a = f x a"
| "apply_cb (Float_cb f) (Float_val x) a = f x a"
| "apply_cb (String_cb f) (Str_val x) a = f x a"
| "apply_cb _ _ a = None"

definition handler_ok :: "'a golioth_settings_handler \<Rightarrow> bool" where
  "handler_ok h \<longleftrightarrow> sh_type h = cb_type (sh_cb h)"

lemma registered_handler_ok [simp]: "handler_ok (GOLIOTH_SETTINGS_HANDLER nm f)"
  by (simp add: handler_ok_def GOLIOTH_SETTINGS_HANDLER_def)

text \<open>Handing over one setting: the first handler with its name gets it if the type agrees.\<close>

definition hand_over :: "'a golioth_settings_handler list \<Rightarrow> cstr \<Rightarrow> setting_val \<Rightarrow> 'a \<Rightarrow> (ret \<times> 'a) option" where
  "hand_over handlers key v a =
     (case find (\<lambda>h. sh_key h = key) handlers of
        None \<Rightarrow> Some (Err ENOENT, a)
      | Some h \<Rightarrow> if cb_type (sh_cb h) = val_type v then apply_cb (sh_cb h) v a else Some (Err EINVAL, a))"

lemma receive_one_eq:
  assumes "list_all handler_ok handlers" "sv_type value = val_type (sv_val value)"
  shows "golioth_settings_receive_one handlers value a = hand_over handlers (sv_key value) (sv_val value) a"
  using assms
proof (induction handlers)
  case (Cons h hs)
  then show ?case
    by (cases "sh_cb h"; cases "sv_val value") (auto simp: hand_over_def handler_ok_def)
qed (simp add: hand_over_def)

lemma setting_value_decode_type: "setting_value_decode ops m z = (Some (t, v), z') \<Longrightarrow> t = val_type v"
  by (auto simp: setting_value_decode_def split: if_splits prod.splits option.splits)

text \<open>
  The settings that the library reads from a map, up to its end: the label and the value, or no value
  where the type is not supported and the item is skipped.
\<close>

inductive settings_read :: "'z zcbor_ops \<Rightarrow> 'z \<Rightarrow> (byte list \<times> setting_val option) list \<Rightarrow> 'z \<Rightarrow> bool" for ops where
  settings_read_end: "zcbor_list_or_map_end ops z = Some True \<Longrightarrow> settings_read ops z [] z"
| settings_read_value: "zcbor_list_or_map_end ops z = Some False \<Longrightarrow> zcbor_tstr_decode ops z = (Some (p, label), z1)
    \<Longrightarrow> zs_payload ops z1 = Some b \<Longrightarrow> setting_value_decode ops (ZCBOR_MAJOR_TYPE b) z1 = (Some (t, v), z2)
    \<Longrightarrow> settings_read ops z2 items z3 \<Longrightarrow> settings_read ops z ((label, Some v) # items) z3"
| settings_read_skip: "zcbor_list_or_map_end ops z = Some False \<Longrightarrow> zcbor_tstr_decode ops z = (Some (p, label), z1)
    \<Longrightarrow> zs_payload ops z1 = Some b \<Longrightarrow> setting_value_decode ops (ZCBOR_MAJOR_TYPE b) z1 = (None, z2)
    \<Longrightarrow> zcbor_any_skip ops z2 = (True, z3) \<Longrightarrow> settings_read ops z3 items z4 \<Longrightarrow> settings_read ops z ((label, None) # items) z4"

fun hand_over_all :: "'a golioth_settings_handler list \<Rightarrow> (byte list \<times> setting_val option) list \<Rightarrow> 'a \<Rightarrow> 'a option" where
  "hand_over_all handlers [] a = Some a"
| "hand_over_all handlers ((label, None) # items) a = hand_over_all handlers items a"
| "hand_over_all handlers ((label, Some v) # items) a =
     do { (_, a) \<leftarrow> hand_over handlers (setting_key label) v a; hand_over_all handlers items a }"

lemma settings_rounds_eq:
  assumes "list_all handler_ok handlers" "settings_read ops z items z'"
  shows "rounds (settings_round ops handlers) (z, s) =
    Some (map_option (\<lambda>a. (OK, z', s\<lparr>se_app := a\<rparr>)) (hand_over_all handlers items (se_app s)))"
  using assms(2)
proof (induction arbitrary: s rule: settings_read.induct)
  case (settings_read_end z)
  then show ?case by (simp add: settings_round_def)
next
  case (settings_read_value z p label z1 b t v z2 items z3)
  have t: "t = val_type v" using settings_read_value(4) by (rule setting_value_decode_type)
  have "settings_round ops handlers (z, s) = (case hand_over handlers (setting_key label) v (se_app s) of
      None \<Rightarrow> Halt None | Some (_, a) \<Rightarrow> Again (z2, s\<lparr>se_app := a\<rparr>))"
    by (simp add: settings_round_def settings_read_value receive_one_eq [OF assms(1)] t)
  then show ?case
    by (subst rounds_cases) (auto simp: settings_read_value.IH split: option.splits)
next
  case (settings_read_skip z p label z1 b z2 z3 items z4)
  then show ?case by (subst rounds_cases) (simp add: settings_round_def)
qed

text \<open>The loop ends well only at the end of such a list, so the two agree.\<close>

lemma settings_rounds_read:
  assumes "rounds (settings_round ops handlers) (z, s) = Some (Some (OK, z', s'))"
  shows "\<exists>items. settings_read ops z items z'"
proof -
  let ?P = "\<lambda>x. \<nexists>items. settings_read ops (fst x) items z'"
  have step: "?P y" if "settings_round ops handlers x = Again y" "?P x" for x y
    using that by (cases x; cases y) (force simp: settings_round_def split: if_splits prod.splits option.splits
        intro: settings_read_value settings_read_skip)
  have halt: "\<not> ?P y" if "settings_round ops handlers y = Halt (Some (OK, z', s'))" for y
    using that by (cases y) (auto simp: settings_round_def split: if_splits prod.splits option.splits intro: settings_read_end)
  show ?thesis using rounds_invariant [where P = ?P, OF assms _ step] halt by fastforce
qed

section \<open>Names\<close>

lemma c_string_no_zero: "0 \<notin> set s \<Longrightarrow> 0 < n \<Longrightarrow> c_string (s @ replicate n 0) = s"
  by (cases n) (simp_all add: c_string_app_zero)

lemma setting_key_eq: "0 \<notin> set label \<Longrightarrow> setting_key label = take GOLIOTH_SETTINGS_MAX_NAME_LEN label"
  by (auto simp: setting_key_def intro!: c_string_no_zero dest: in_set_takeD)

lemma length_c_string_zero: "length (c_string (xs @ 0 # ys)) \<le> length xs"
  by (induction xs) (simp_all add: c_string_def)

lemma setting_key_short: "length (setting_key label) \<le> GOLIOTH_SETTINGS_MAX_NAME_LEN"
proof -
  let ?k = "take GOLIOTH_SETTINGS_MAX_NAME_LEN label"
  have "setting_key label = c_string (?k @ 0 # replicate (GOLIOTH_SETTINGS_MAX_NAME_LEN - length ?k) 0)"
    by (simp add: setting_key_def min.commute Suc_diff_le)
  then show ?thesis using length_c_string_zero [of ?k] by (metis length_take min.cobounded2 order_trans)
qed

text \<open>A handler whose name is longer than that is never called.\<close>

lemma long_name_never_called:
  assumes "list_all (\<lambda>h. GOLIOTH_SETTINGS_MAX_NAME_LEN < length (sh_key h)) handlers"
  shows "hand_over_all handlers items a = Some a"
proof -
  have "find (\<lambda>h. sh_key h = setting_key label) handlers = None" for label
    using assms setting_key_short [of label] by (fastforce simp: find_None_iff list_all_iff)
  then show ?thesis by (induction handlers items a rule: hand_over_all.induct) (simp_all add: hand_over_def)
qed

section \<open>A number as a key\<close>

text \<open>
  A number that follows a string of seven or eight bytes is compared with the names of the two entries, and the
  comparison takes it for an address.
\<close>

lemma settings_entry_number:
  assumes "key_word key = Key_int n" "key_len key = 7 \<or> key_len key = 8"
  shows "map_entry_get (settings_entries ops handlers) 0 key = None"
  using assms by (auto simp: settings_entries_def ZCBOR_TSTR_LIT_KEY_def cstr_def key_bytes_def mem_read_def SIZE_MOD_def)

lemma settings_entry_other:
  assumes "key_word key = Key_ptr p nm" "key_len key = length nm" "length nm < SIZE_MOD" "nm \<noteq> cstr ''settings''" "nm \<noteq> cstr ''version''"
  shows "map_entry_get (settings_entries ops handlers) 0 key = Some None"
  using assms by (auto simp: settings_entries_def ZCBOR_TSTR_LIT_KEY_def cstr_def key_bytes_def mem_read_def SIZE_MOD_def)

lemma settings_number_after_name:
  assumes "zcbor_map_start_decode ops (zcbor_new_decode_state ops 2 xs) = (True, z0)" "length xs < SIZE_MOD"
    and "zcbor_list_or_map_end ops z0 = Some False" "map_option ZCBOR_MAJOR_TYPE (zs_payload ops z0) = Some ZCBOR_MAJOR_TYPE_TSTR"
    "zcbor_tstr_decode ops z0 = (Some (p, nm), z1)" "zcbor_any_skip ops z1 = (True, z2)"
    and "length nm = 7 \<or> length nm = 8" "nm \<noteq> cstr ''settings''" "nm \<noteq> cstr ''version''"
    and "zcbor_list_or_map_end ops z2 = Some False" "map_option ZCBOR_MAJOR_TYPE (zs_payload ops z2) = Some ZCBOR_MAJOR_TYPE_PINT"
    "zcbor_uint32_decode ops z2 = (Some n, z3)"
  shows "settings_downlink ops handlers key i (Some xs) (length xs) is_last s = Some None"
proof -
  let ?es = "settings_entries ops handlers"
  let ?k = "\<lparr>key_type = ZCBOR_MAP_KEY_TYPE_TSTR, key_word = Key_ptr p nm, key_len = length nm\<rparr>"
  have two: "length ?es = 2" by (simp add: settings_entries_def)
  obtain b0 b2 where b: "zs_payload ops z0 = Some b0" "ZCBOR_MAJOR_TYPE b0 = ZCBOR_MAJOR_TYPE_TSTR"
    "zs_payload ops z2 = Some b2" "ZCBOR_MAJOR_TYPE b2 = ZCBOR_MAJOR_TYPE_PINT" using assms(4,11) by auto
  have "map_entry_get ?es 0 ?k = Some None" using assms(7-9) by (intro settings_entry_other) (auto simp: SIZE_MOD_def)
  then have 1: "map_decode_round ops ?es (key, [], z0, s) = Again (?k, [], z2, s)"
    using assms(3,5,6) two b by (simp add: map_decode_round_def zcbor_map_key_decode_def)
  have "map_entry_get ?es 0 (?k\<lparr>key_type := ZCBOR_MAP_KEY_TYPE_U32, key_word := Key_int n\<rparr>) = None"
    using assms(7) by (intro settings_entry_number) auto
  then have 2: "map_decode_round ops ?es (?k, [], z2, s) = Halt None"
    using assms(10,12) two b by (simp add: map_decode_round_def zcbor_map_key_decode_def major_types)
  show ?thesis using assms(1,2) 1 2 by (simp add: settings_downlink_def zcbor_map_decode_def mem_read_def)
qed

end
