(* ===== verification/Ota.thy ===== *)
theory Ota
  imports Dispatch
begin

text \<open>
  The OTA service: the component registry, \<^verbatim>\<open>src/golioth_sdk/ota_upper.c\<close>, and the reception of a component,
  the service \<^verbatim>\<open>/.u/c/*\<close> of \<^verbatim>\<open>src/golioth_sdk/ota.c\<close>. The registered components are a list in the order of their
  section. A \<^verbatim>\<open>char\<close> array is a byte list of its size; a string is the bytes before the first zero.

  Shown here: a component that is marked for download is handed to the application chunk by chunk with the
  right offsets, one that is not marked is not handed over at all; the status reports what the manifest said;
  and the two paths for which starting a component leaves its memory.
\<close>

section \<open>State\<close>

text \<open>The two sizes from the build configuration.\<close>

record ota_config =
  config_ota_max_package_name_len :: nat
  config_ota_max_version_len :: nat

definition default_ota_config :: ota_config where
  "default_ota_config = \<lparr>config_ota_max_package_name_len = 32, config_ota_max_version_len = 32\<rparr>"

definition GOLIOTH_OTA_COMPONENT_HASH_BIN_LEN :: nat where
  "GOLIOTH_OTA_COMPONENT_HASH_BIN_LEN = 32"

datatype golioth_ota_state = GOLIOTH_OTA_STATE_IDLE | GOLIOTH_OTA_STATE_DOWNLOADING | GOLIOTH_OTA_STATE_DOWNLOADED
  | GOLIOTH_OTA_STATE_UPDATING

text \<open>A component of a manifest.\<close>

record golioth_ota_component =
  oc_package :: "byte list"
  oc_version :: "byte list"
  oc_hash :: "byte list"
  oc_size :: "32 word"

record golioth_ota_registered_component_data =
  rd_target :: "byte list"
  rd_target_hash :: "byte list"
  rd_size :: size_t
  rd_state :: golioth_ota_state

record 'a golioth_ota_registered_component =
  rc_name :: cstr
  rc_version :: cstr
  rc_receive :: "byte list option \<Rightarrow> size_t \<Rightarrow> size_t \<Rightarrow> bool \<Rightarrow> 'a \<Rightarrow> 'a option"
  rc_data :: golioth_ota_registered_component_data

text \<open>What a manifest handler gets for each component: name, current version, target, its hash and its size.\<close>

record golioth_ota_manifest_component =
  mc_name :: cstr
  mc_current :: cstr
  mc_target :: cstr
  mc_target_hash :: "byte list"
  mc_size :: size_t

record component_download =
  cd_downlink_id :: u32
  cd_offset :: size_t
  cd_name :: "byte list"
  cd_version :: "byte list"

text \<open>The state of the service: the download, the registry and the application behind it.\<close>

record 'a ota =
  ot_download :: component_download
  ot_components :: "'a golioth_ota_registered_component list"
  ot_app :: 'a

section \<open>Strings\<close>

text \<open>\<^verbatim>\<open>strncpy\<close>: at most \<open>n\<close> bytes of the string, padded with zeros.\<close>

definition strncpy :: "cstr \<Rightarrow> nat \<Rightarrow> byte list" where
  "strncpy s n = take n (s @ replicate n 0)"

text \<open>A copy into the whole of an array whose last byte is then set to zero.\<close>

definition copy_terminated :: "cstr \<Rightarrow> byte list \<Rightarrow> byte list option" where
  "copy_terminated s a =
     do { a \<leftarrow> mem_write 0 (strncpy s (length a)) a;
          mem_write (length a - 1) [0] a }"

section \<open>The registry\<close>

fun golioth_ota_set_status ::
  "cstr \<Rightarrow> golioth_ota_state \<Rightarrow> 'a golioth_ota_registered_component list \<Rightarrow> ret \<times> 'a golioth_ota_registered_component list" where
  "golioth_ota_set_status name state [] = (Err ENOENT, [])"
| "golioth_ota_set_status name state (r # rs) =
     (if rc_name r = name then (OK, r\<lparr>rc_data := (rc_data r)\<lparr>rd_state := state\<rparr>\<rparr> # rs)
      else case golioth_ota_set_status name state rs of (e, rs) \<Rightarrow> (e, r # rs))"

definition golioth_ota_mark_for_download ::
  "cstr \<Rightarrow> 'a golioth_ota_registered_component list \<Rightarrow> ret \<times> 'a golioth_ota_registered_component list" where
  "golioth_ota_mark_for_download name rs = golioth_ota_set_status name GOLIOTH_OTA_STATE_DOWNLOADING rs"

definition golioth_ota_mark_idle ::
  "cstr \<Rightarrow> 'a golioth_ota_registered_component list \<Rightarrow> ret \<times> 'a golioth_ota_registered_component list" where
  "golioth_ota_mark_idle name rs = golioth_ota_set_status name GOLIOTH_OTA_STATE_IDLE rs"

definition golioth_ota_mark_updating ::
  "cstr \<Rightarrow> 'a golioth_ota_registered_component list \<Rightarrow> ret \<times> 'a golioth_ota_registered_component list" where
  "golioth_ota_mark_updating name rs = golioth_ota_set_status name GOLIOTH_OTA_STATE_UPDATING rs"

fun golioth_ota_manifest_receive_one ::
  "golioth_ota_component \<Rightarrow> 'a golioth_ota_registered_component list \<Rightarrow> 'a golioth_ota_registered_component list option" where
  "golioth_ota_manifest_receive_one component [] = Some []"
| "golioth_ota_manifest_receive_one component (r # rs) =
     do { r \<leftarrow> (if c_string (oc_package component) = rc_name r
               then do { target \<leftarrow> copy_terminated (c_string (oc_version component)) (rd_target (rc_data r));
                         hash \<leftarrow> mem_read 0 GOLIOTH_OTA_COMPONENT_HASH_BIN_LEN (oc_hash component);
                         target_hash \<leftarrow> mem_write 0 hash (rd_target_hash (rc_data r));
                         Some (r\<lparr>rc_data := (rc_data r)\<lparr>rd_target := target, rd_target_hash := target_hash,
                                                        rd_size := unat (oc_size component)\<rparr>\<rparr>) }
               else Some r);
          rs \<leftarrow> golioth_ota_manifest_receive_one component rs;
          Some (r # rs) }"

definition manifest_component :: "'a golioth_ota_registered_component \<Rightarrow> golioth_ota_manifest_component" where
  "manifest_component r = \<lparr>mc_name = rc_name r, mc_current = rc_version r, mc_target = c_string (rd_target (rc_data r)),
     mc_target_hash = rd_target_hash (rc_data r), mc_size = rd_size (rc_data r)\<rparr>"

text \<open>The handlers get the components as they were collected; they may change the registry themselves.\<close>

type_synonym 'a manifest_handler = "golioth_ota_manifest_component list \<Rightarrow> 'a ota \<Rightarrow> 'a ota option"

fun run_manifest_handlers :: "'a manifest_handler list \<Rightarrow> golioth_ota_manifest_component list \<Rightarrow> 'a ota \<Rightarrow> 'a ota option" where
  "run_manifest_handlers [] components o' = Some o'"
| "run_manifest_handlers (handler # handlers) components o' =
     do { o' \<leftarrow> handler components o'; run_manifest_handlers handlers components o' }"

definition golioth_ota_manifest_complete :: "'a manifest_handler list \<Rightarrow> 'a ota \<Rightarrow> 'a ota option" where
  "golioth_ota_manifest_complete handlers o' = run_manifest_handlers handlers (map manifest_component (ot_components o')) o'"

fun golioth_ota_receive_component ::
  "cstr \<Rightarrow> cstr \<Rightarrow> size_t \<Rightarrow> byte list option \<Rightarrow> size_t \<Rightarrow> bool \<Rightarrow> 'a golioth_ota_registered_component list \<Rightarrow> 'a
     \<Rightarrow> (ret \<times> 'a) option" where
  "golioth_ota_receive_component name version offset data len is_last [] a = Some (OK, a)"
| "golioth_ota_receive_component name version offset data len is_last (r # rs) a =
     (if rc_name r = name
      then if rd_state (rc_data r) = GOLIOTH_OTA_STATE_DOWNLOADING
           then do { a \<leftarrow> rc_receive r data offset len is_last a;
                     golioth_ota_receive_component name version offset data len is_last rs a }
           else Some (Err EINVAL, a)
      else golioth_ota_receive_component name version offset data len is_last rs a)"

text \<open>The status of a component by its index: name, current version, target and state.\<close>

definition golioth_ota_get_status ::
  "nat \<Rightarrow> 'a golioth_ota_registered_component list \<Rightarrow> (cstr \<times> cstr \<times> cstr \<times> golioth_ota_state) option" where
  "golioth_ota_get_status component_idx rs =
     (if component_idx \<ge> length rs then None
      else let r = rs ! component_idx in
        Some (rc_name r, rc_version r, c_string (rd_target (rc_data r)), rd_state (rc_data r)))"

text \<open>Registering a component: the target is initialised with the version, whose terminator is dropped if the array has no room for it.\<close>

definition GOLIOTH_OTA_COMPONENT ::
  "ota_config \<Rightarrow> cstr \<Rightarrow> cstr \<Rightarrow> (byte list option \<Rightarrow> size_t \<Rightarrow> size_t \<Rightarrow> bool \<Rightarrow> 'a \<Rightarrow> 'a option) \<Rightarrow> 'a golioth_ota_registered_component" where
  "GOLIOTH_OTA_COMPONENT oc package version receive =
     \<lparr>rc_name = package, rc_version = version, rc_receive = receive,
      rc_data = \<lparr>rd_target = strncpy version (config_ota_max_version_len oc),
                 rd_target_hash = replicate GOLIOTH_OTA_COMPONENT_HASH_BIN_LEN 0, rd_size = 0, rd_state = GOLIOTH_OTA_STATE_IDLE\<rparr>\<rparr>"

section \<open>Receiving a component\<close>

text \<open>\<^verbatim>\<open>strchr\<close> for the delimiter \<^verbatim>\<open>@\<close>: what is before it and what is behind it.\<close>

definition split_at_delimiter :: "cstr \<Rightarrow> (cstr \<times> cstr) option" where
  "split_at_delimiter path =
     (if 64 \<in> set path then Some (takeWhile (\<lambda>x. x \<noteq> 64) path, tl (dropWhile (\<lambda>x. x \<noteq> 64) path)) else None)"

definition ota_receive_component_start ::
  "u32 \<Rightarrow> cstr option \<Rightarrow> component_download \<Rightarrow> component_download option" where
  "ota_receive_component_start i path_remainder dl =
     (case path_remainder of
        None \<Rightarrow> None
      | Some path \<Rightarrow>
          (case split_at_delimiter path of
             None \<Rightarrow> Some (dl\<lparr>cd_downlink_id := DOWNLINK_ID_INVALID\<rparr>)
           | Some (nm, ver) \<Rightarrow>
               do { name \<leftarrow> mem_write 0 nm (cd_name dl);
                    name \<leftarrow> mem_write (length nm) [0] name;
                    version \<leftarrow> copy_terminated ver (cd_version dl);
                    Some \<lparr>cd_downlink_id = i, cd_offset = 0, cd_name = name, cd_version = version\<rparr> }))"

definition ota_receive_component_data :: "u32 \<Rightarrow> byte list option \<Rightarrow> size_t \<Rightarrow> bool \<Rightarrow> 'a ota \<Rightarrow> 'a ota option" where
  "ota_receive_component_data i data len is_last o' =
     (let dl = ot_download o' in
      if cd_downlink_id dl \<noteq> DOWNLINK_ID_INVALID
      then do { (_, a) \<leftarrow> golioth_ota_receive_component (c_string (cd_name dl)) (c_string (cd_version dl)) (cd_offset dl)
                             data len is_last (ot_components o') (ot_app o');
                Some (o'\<lparr>ot_app := a, ot_download := dl\<lparr>cd_offset := sz_add (cd_offset dl) len\<rparr>\<rparr>) }
      else Some o')"

text \<open>The service for components.\<close>

definition ota_component_service :: "'a ota golioth_downlink_service" where
  "ota_component_service =
     \<lparr>svc_path = cstr ''/.u/c/*'',
      svc_start_cb = Some (\<lambda>i r o'. do { dl \<leftarrow> ota_receive_component_start i r (ot_download o'); Some (o'\<lparr>ot_download := dl\<rparr>) }),
      svc_data_cb = ota_receive_component_data\<rparr>"

section \<open>Invariant and specification\<close>

definition ota_inv :: "ota_config \<Rightarrow> 'a ota \<Rightarrow> bool" where
  "ota_inv oc o' \<longleftrightarrow> length (cd_name (ot_download o')) = config_ota_max_package_name_len oc + 1
     \<and> length (cd_version (ot_download o')) = config_ota_max_version_len oc + 1"

definition registry_ok :: "ota_config \<Rightarrow> 'a golioth_ota_registered_component list \<Rightarrow> bool" where
  "registry_ok oc rs \<longleftrightarrow> 0 < config_ota_max_version_len oc \<and> distinct (map rc_name rs)
     \<and> list_all (\<lambda>r. length (rd_target (rc_data r)) = config_ota_max_version_len oc
          \<and> length (rd_target_hash (rc_data r)) = GOLIOTH_OTA_COMPONENT_HASH_BIN_LEN \<and> 0 \<notin> set (rc_name r)) rs"

text \<open>A run of the data callback over the chunks of a component; the last one is marked.\<close>

fun ota_receive_chunks :: "u32 \<Rightarrow> byte list list \<Rightarrow> 'a ota \<Rightarrow> 'a ota option" where
  "ota_receive_chunks i [] o' = Some o'"
| "ota_receive_chunks i (xs # chunks) o' =
     do { o' \<leftarrow> ota_receive_component_data i (Some xs) (length xs) (chunks = []) o'; ota_receive_chunks i chunks o' }"

text \<open>What the application sees: each chunk at the sum of the lengths before it.\<close>

fun download_calls ::
  "(byte list option \<Rightarrow> size_t \<Rightarrow> size_t \<Rightarrow> bool \<Rightarrow> 'a \<Rightarrow> 'a option) \<Rightarrow> nat \<Rightarrow> byte list list \<Rightarrow> 'a \<Rightarrow> 'a option" where
  "download_calls receive offset [] a = Some a"
| "download_calls receive offset (xs # chunks) a =
     do { a \<leftarrow> receive (Some xs) offset (length xs) (chunks = []) a; download_calls receive (offset + length xs) chunks a }"

section \<open>Lemmas\<close>

lemma length_strncpy [simp]: "length (strncpy s n) = n"
  by (simp add: strncpy_def)

lemma copy_terminated_eq:
  assumes "0 < length a"
  shows "copy_terminated s a = Some (strncpy s (length a - 1) @ [0])"
proof -
  have "take (length a - 1) (strncpy s (length a)) = strncpy s (length a - 1)"
    using assms by (simp add: strncpy_def min_def)
  with assms show ?thesis by (simp add: copy_terminated_def mem_write_def)
qed

lemma c_string_strncpy:
  assumes "0 \<notin> set s"
  shows "c_string (strncpy s n @ [0]) = take n s"
proof (cases "length s \<le> n")
  case True
  then have "strncpy s n = s @ replicate (n - length s) 0" by (simp add: strncpy_def min_def)
  with True assms show ?thesis
    by (cases "n - length s") (simp_all add: c_string_app_zero c_string_app_zero [where ys = "[]"])
next
  case False
  then have "strncpy s n = take n s" by (simp add: strncpy_def)
  moreover have "0 \<notin> set (take n s)" using assms by (meson in_set_takeD)
  ultimately show ?thesis using c_string_app_zero [where ys = "[]"] by simp
qed

lemma split_at_delimiter_eq: "64 \<notin> set nm \<Longrightarrow> split_at_delimiter (nm @ 64 # ver) = Some (nm, ver)"
  by (induction nm) (auto simp: split_at_delimiter_def)

text \<open>Starting the component \<^verbatim>\<open>name@version\<close>.\<close>

lemma component_start_eq:
  assumes "length nm < length (cd_name dl)" "0 < length (cd_version dl)" "64 \<notin> set nm" "0 \<notin> set nm" "0 \<notin> set ver"
  shows "\<exists>dl'. ota_receive_component_start i (Some (nm @ 64 # ver)) dl = Some dl'
    \<and> cd_downlink_id dl' = i \<and> cd_offset dl' = 0 \<and> c_string (cd_name dl') = nm
    \<and> c_string (cd_version dl') = take (length (cd_version dl) - 1) ver
    \<and> length (cd_name dl') = length (cd_name dl) \<and> length (cd_version dl') = length (cd_version dl)"
  using assms by (simp add: ota_receive_component_start_def split_at_delimiter_eq copy_terminated_eq mem_write_def
      c_string_app_zero c_string_strncpy)

lemma component_start_long_name:
  assumes "64 \<notin> set nm" "length (cd_name dl) \<le> length nm"
  shows "ota_receive_component_start i (Some (nm @ 64 # ver)) dl = None"
  using assms by (auto simp: ota_receive_component_start_def split_at_delimiter_eq mem_write_def split: bind_splits)

lemma receive_component_unique:
  assumes "distinct (map rc_name rs)" "r \<in> set rs"
  shows "golioth_ota_receive_component (rc_name r) version offset data len is_last rs a =
    (if rd_state (rc_data r) = GOLIOTH_OTA_STATE_DOWNLOADING
     then map_option (Pair OK) (rc_receive r data offset len is_last a) else Some (Err EINVAL, a))"
  using assms
proof (induction rs)
  case Nil
  then show ?case by simp
next
  case (Cons q rs)
  have none: "golioth_ota_receive_component name version offset data len is_last ps b = Some (OK, b)"
    if "name \<notin> rc_name ` set ps" for name ps and b :: 'a
    using that by (induction ps) auto
  show ?case
  proof (cases "rc_name q = rc_name r")
    case True
    then have "q = r" using Cons.prems by (metis distinct.simps(2) image_eqI list.map(2) list.set_map set_ConsD)
    moreover have "rc_name r \<notin> rc_name ` set rs" using Cons.prems(1) True by simp
    ultimately show ?thesis using none by (cases "rc_receive r data offset len is_last a") auto
  next
    case False
    with Cons show ?thesis by auto
  qed
qed

lemma receive_component_unknown:
  "name \<notin> rc_name ` set rs \<Longrightarrow> golioth_ota_receive_component name version offset data len is_last rs a = Some (OK, a)"
  by (induction rs) auto

lemma receive_chunks_downloading:
  assumes "cd_downlink_id (ot_download o') \<noteq> DOWNLINK_ID_INVALID" "c_string (cd_name (ot_download o')) = rc_name r"
    "distinct (map rc_name (ot_components o'))" "r \<in> set (ot_components o')"
    "rd_state (rc_data r) = GOLIOTH_OTA_STATE_DOWNLOADING" "cd_offset (ot_download o') + length (concat chunks) < SIZE_MOD"
  shows "map_option ot_app (ota_receive_chunks i chunks o') =
    download_calls (rc_receive r) (cd_offset (ot_download o')) chunks (ot_app o')"
  using assms
proof (induction chunks arbitrary: o')
  case Nil
  then show ?case by simp
next
  case (Cons xs chunks)
  note u = receive_component_unique [OF Cons.prems(3,4)]
  show ?case
  proof (cases "rc_receive r (Some xs) (cd_offset (ot_download o')) (length xs) (chunks = []) (ot_app o')")
    case None
    with Cons.prems u show ?thesis by (simp add: ota_receive_component_data_def Let_def)
  next
    case (Some a)
    let ?o = "o'\<lparr>ot_app := a, ot_download := (ot_download o')\<lparr>cd_offset := cd_offset (ot_download o') + length xs\<rparr>\<rparr>"
    have "ota_receive_component_data i (Some xs) (length xs) (chunks = []) o' = Some ?o"
      using Some Cons.prems u by (simp add: ota_receive_component_data_def Let_def sz_add_def)
    moreover have "map_option ot_app (ota_receive_chunks i chunks ?o) =
        download_calls (rc_receive r) (cd_offset (ot_download o') + length xs) chunks a"
      using Cons.IH [of ?o] Cons.prems by (simp add: add.assoc)
    ultimately show ?thesis using Some by simp
  qed
qed

lemma receive_chunks_not_downloading:
  assumes "c_string (cd_name (ot_download o')) = rc_name r" "distinct (map rc_name (ot_components o'))"
    "r \<in> set (ot_components o')" "rd_state (rc_data r) \<noteq> GOLIOTH_OTA_STATE_DOWNLOADING"
  shows "\<exists>o''. ota_receive_chunks i chunks o' = Some o'' \<and> ot_app o'' = ot_app o'"
  using assms
proof (induction chunks arbitrary: o')
  case Nil
  then show ?case by simp
next
  case (Cons xs chunks)
  note u = receive_component_unique [OF Cons.prems(2,3)]
  obtain o1 where o1: "ota_receive_component_data i (Some xs) (length xs) (chunks = []) o' = Some o1" "ot_app o1 = ot_app o'"
    "c_string (cd_name (ot_download o1)) = rc_name r" "ot_components o1 = ot_components o'"
    using Cons.prems u by (cases "cd_downlink_id (ot_download o') \<noteq> DOWNLINK_ID_INVALID")
      (simp_all add: ota_receive_component_data_def Let_def)
  then show ?case using Cons.IH [of o1] Cons.prems by auto
qed

subsection \<open>The registry\<close>

lemma set_status_found:
  assumes "distinct (map rc_name rs)" "j < length rs"
  shows "golioth_ota_set_status (rc_name (rs ! j)) st rs = (OK, rs[j := (rs ! j)\<lparr>rc_data := (rc_data (rs ! j))\<lparr>rd_state := st\<rparr>\<rparr>])"
  using assms
proof (induction rs arbitrary: j)
  case Nil
  then show ?case by simp
next
  case (Cons r rs)
  show ?case
  proof (cases j)
    case 0
    then show ?thesis by simp
  next
    case (Suc k)
    then have "rc_name r \<noteq> rc_name (rs ! k)" using Cons.prems by auto
    with Suc Cons show ?thesis by simp
  qed
qed

lemma set_status_unknown: "name \<notin> rc_name ` set rs \<Longrightarrow> golioth_ota_set_status name st rs = (Err ENOENT, rs)"
  by (induction rs) auto

lemma manifest_receive_one_eq:
  assumes "registry_ok oc rs" "length (oc_hash m) = GOLIOTH_OTA_COMPONENT_HASH_BIN_LEN" "0 \<notin> set (c_string (oc_version m))"
  shows "golioth_ota_manifest_receive_one m rs =
    Some (map (\<lambda>r. if rc_name r = c_string (oc_package m)
                   then r\<lparr>rc_data := (rc_data r)\<lparr>
                          rd_target := strncpy (c_string (oc_version m)) (config_ota_max_version_len oc - 1) @ [0],
                          rd_target_hash := oc_hash m, rd_size := unat (oc_size m)\<rparr>\<rparr>
                   else r) rs)"
  using assms
proof (induction rs)
  case Nil
  then show ?case by simp
next
  case (Cons r rs)
  then have "golioth_ota_manifest_receive_one m rs =
    Some (map (\<lambda>r. if rc_name r = c_string (oc_package m)
                   then r\<lparr>rc_data := (rc_data r)\<lparr>
                          rd_target := strncpy (c_string (oc_version m)) (config_ota_max_version_len oc - 1) @ [0],
                          rd_target_hash := oc_hash m, rd_size := unat (oc_size m)\<rparr>\<rparr>
                   else r) rs)"
    by (simp add: registry_ok_def)
  with Cons.prems show ?case
    by (auto simp: registry_ok_def copy_terminated_eq mem_read_def mem_write_def GOLIOTH_OTA_COMPONENT_HASH_BIN_LEN_def SIZE_MOD_def)
qed

lemma zero_c_string [simp]: "0 \<notin> set (c_string xs)"
  by (auto simp: c_string_def dest: set_takeWhileD)

lemma status_after_manifest:
  assumes "registry_ok oc rs" "length (oc_hash m) = GOLIOTH_OTA_COMPONENT_HASH_BIN_LEN" "j < length rs"
    "rc_name (rs ! j) = c_string (oc_package m)"
  shows "\<exists>rs'. golioth_ota_manifest_receive_one m rs = Some rs' \<and> registry_ok oc rs'
    \<and> golioth_ota_get_status j rs' =
        Some (rc_name (rs ! j), rc_version (rs ! j), take (config_ota_max_version_len oc - 1) (c_string (oc_version m)), rd_state (rc_data (rs ! j)))
    \<and> (\<forall>k < length rs. k \<noteq> j \<longrightarrow> rs' ! k = rs ! k)"
proof -
  define f where "f = (\<lambda>r :: 'a golioth_ota_registered_component. if rc_name r = c_string (oc_package m)
                   then r\<lparr>rc_data := (rc_data r)\<lparr>
                          rd_target := strncpy (c_string (oc_version m)) (config_ota_max_version_len oc - 1) @ [0],
                          rd_target_hash := oc_hash m, rd_size := unat (oc_size m)\<rparr>\<rparr>
                   else r)"
  have eq: "golioth_ota_manifest_receive_one m rs = Some (map f rs)"
    using manifest_receive_one_eq [OF assms(1,2)] by (simp add: f_def)
  have nm: "rc_name (f r) = rc_name r" for r by (simp add: f_def)
  have "registry_ok oc (map f rs)"
    using assms(1,2) by (auto simp: registry_ok_def nm comp_def list_all_iff) (auto simp: f_def)
  moreover have "f (rs ! k) = rs ! k" if "k < length rs" "k \<noteq> j" for k
  proof -
    have "rc_name (rs ! k) \<noteq> rc_name (rs ! j)"
      using assms(1,3) that by (auto simp: registry_ok_def distinct_conv_nth)
    then show ?thesis using assms(4) by (simp add: f_def)
  qed
  ultimately show ?thesis
    using eq assms(3,4) by (auto simp: golioth_ota_get_status_def f_def c_string_strncpy)
qed

end
