(* ===== verification/Ota_Manifest.thy ===== *)
theory Ota_Manifest
  imports Zcbor_Utils Ota
begin

text \<open>
  The manifest and the status report of the OTA service, the rest of \<^verbatim>\<open>src/golioth_sdk/ota.c\<close>. Zephyr's \<^verbatim>\<open>hex2bin\<close> is
  a parameter: it gives the bytes that it has converted, none on failure.

  Shown here: receiving a manifest returns; the components of a manifest reach the registry in their order, then the
  handlers of the application, and nothing behind the list of components is read; the status of every
  component is written as one entry, up to the first one that does not fit the encoding buffer.
\<close>

section \<open>Receiving a manifest\<close>

definition MANIFEST_KEY_COMPONENTS :: u32 where "MANIFEST_KEY_COMPONENTS = 3"

definition COMPONENT_KEY_PACKAGE :: u32 where "COMPONENT_KEY_PACKAGE = 1"
definition COMPONENT_KEY_VERSION :: u32 where "COMPONENT_KEY_VERSION = 2"
definition COMPONENT_KEY_HASH :: u32 where "COMPONENT_KEY_HASH = 3"
definition COMPONENT_KEY_SIZE :: u32 where "COMPONENT_KEY_SIZE = 4"

definition GOLIOTH_OTA_COMPONENT_HASH_HEX_LEN :: nat where "GOLIOTH_OTA_COMPONENT_HASH_HEX_LEN = 64"

text \<open>
  The two sides of a text value: the array it is copied to is \<open>array s\<close>, its last byte being kept for the zero.
\<close>

definition component_entry_decode_value ::
  "'z zcbor_ops \<Rightarrow> ('s \<Rightarrow> byte list) \<Rightarrow> (byte list \<Rightarrow> 's \<Rightarrow> 's) \<Rightarrow> 'z \<Rightarrow> 's \<Rightarrow> (ret \<times> 'z \<times> 's) run" where
  "component_entry_decode_value ops array store z s =
     (case zcbor_tstr_decode ops z of
        (None, z) \<Rightarrow> Some (Some (Err EBADMSG, z, s))
      | (Some (_, tstr), z) \<Rightarrow>
          if length tstr > length (array s) - 1 then Some (Some (Err ENOMEM, z, s))
          else Some (do { a \<leftarrow> mem_write 0 tstr (array s); a \<leftarrow> mem_write (length tstr) [0] a; Some (OK, z, store a s) }))"

text \<open>What the decoders of one component store to: the component and the hash as a string.\<close>

record component_locals =
  cl_component :: golioth_ota_component
  cl_hash_str :: "byte list"

definition empty_component :: "ota_config \<Rightarrow> golioth_ota_component" where
  "empty_component oc = \<lparr>oc_package = replicate (config_ota_max_package_name_len oc + 1) 0,
     oc_version = replicate (config_ota_max_version_len oc + 1) 0,
     oc_hash = replicate GOLIOTH_OTA_COMPONENT_HASH_BIN_LEN 0, oc_size = 0\<rparr>"

definition component_entries :: "'z zcbor_ops \<Rightarrow> ('z, component_locals) zcbor_map_entry list" where
  "component_entries ops =
     [\<lparr>me_key = ZCBOR_U32_KEY COMPONENT_KEY_PACKAGE,
       me_decode = component_entry_decode_value ops (\<lambda>l. oc_package (cl_component l))
                     (\<lambda>a l. l\<lparr>cl_component := (cl_component l)\<lparr>oc_package := a\<rparr>\<rparr>)\<rparr>,
      \<lparr>me_key = ZCBOR_U32_KEY COMPONENT_KEY_VERSION,
       me_decode = component_entry_decode_value ops (\<lambda>l. oc_version (cl_component l))
                     (\<lambda>a l. l\<lparr>cl_component := (cl_component l)\<lparr>oc_version := a\<rparr>\<rparr>)\<rparr>,
      \<lparr>me_key = ZCBOR_U32_KEY COMPONENT_KEY_SIZE,
       me_decode = zcbor_map_int32_decode ops (\<lambda>v l. l\<lparr>cl_component := (cl_component l)\<lparr>oc_size := v\<rparr>\<rparr>)\<rparr>,
      \<lparr>me_key = ZCBOR_U32_KEY COMPONENT_KEY_HASH,
       me_decode = component_entry_decode_value ops cl_hash_str (\<lambda>a l. l\<lparr>cl_hash_str := a\<rparr>)\<rparr>]"

text \<open>
  What the code takes from outside: the build configuration, the library, the conversion, the handlers of the application,
  and what the stack holds where the key variable and the hash string are.
\<close>

record ('z, 'a) manifest_env =
  mv_config :: ota_config
  mv_zcbor :: "'z zcbor_ops"
  hex2bin :: "byte list \<Rightarrow> nat \<Rightarrow> byte list"
  mv_handlers :: "'a manifest_handler list"
  mv_stack_key :: zcbor_map_key
  mv_stack_hash :: "byte list"

text \<open>
  The loop over the components. A round ends the loop with \<^const>\<open>True\<close> at the end of the list, with \<^const>\<open>False\<close> where the function returns.
\<close>

definition components_round ::
  "('z, 'a) manifest_env \<Rightarrow> 'z \<times> 'a ota \<Rightarrow> (bool \<times> 'z \<times> 'a ota, 'z \<times> 'a ota) round" where
  "components_round env = (\<lambda>(z, o').
     case zcbor_list_or_map_end (mv_zcbor env) z of
       None \<Rightarrow> Halt None
     | Some at_end \<Rightarrow>
         if at_end then Halt (Some (True, z, o'))
         else case zcbor_map_decode (mv_zcbor env) (component_entries (mv_zcbor env)) (mv_stack_key env) z
                     \<lparr>cl_component = empty_component (mv_config env), cl_hash_str = mv_stack_hash env\<rparr> of
             None \<Rightarrow> Hang
           | Some None \<Rightarrow> Halt None
           | Some (Some (Err _, _, z, _)) \<Rightarrow> Halt (Some (False, z, o'))
           | Some (Some (OK, _, z, l)) \<Rightarrow>
               (let hash = hex2bin env (take GOLIOTH_OTA_COMPONENT_HASH_HEX_LEN (cl_hash_str l)) GOLIOTH_OTA_COMPONENT_HASH_BIN_LEN in
                if length hash \<noteq> GOLIOTH_OTA_COMPONENT_HASH_BIN_LEN then Halt (Some (False, z, o'))
                else case golioth_ota_manifest_receive_one ((cl_component l)\<lparr>oc_hash := hash\<rparr>) (ot_components o') of
                    None \<Rightarrow> Halt None
                  | Some rs \<Rightarrow> Again (z, o'\<lparr>ot_components := rs\<rparr>)))"

text \<open>The loop over the manifest.\<close>

definition manifest_round :: "('z, 'a) manifest_env \<Rightarrow> 'z \<times> 'a ota \<Rightarrow> ('a ota, 'z \<times> 'a ota) round" where
  "manifest_round env = (\<lambda>(z, o').
     case zcbor_list_or_map_end (mv_zcbor env) z of
       None \<Rightarrow> Halt None
     | Some at_end \<Rightarrow>
         if at_end then Halt (Some o')
         else case zcbor_uint32_decode (mv_zcbor env) z of
             (None, z) \<Rightarrow> Halt (Some o')
           | (Some key, z) \<Rightarrow>
               if key = MANIFEST_KEY_COMPONENTS
               then case zcbor_list_start_decode (mv_zcbor env) z of
                   (ok, z) \<Rightarrow>
                     if \<not> ok then Halt (Some o')
                     else case rounds (components_round env) (z, o') of
                         None \<Rightarrow> Hang
                       | Some None \<Rightarrow> Halt None
                       | Some (Some (False, z, o')) \<Rightarrow> Halt (Some o')
                       | Some (Some (True, z, o')) \<Rightarrow>
                           (case golioth_ota_manifest_complete (mv_handlers env) o' of
                              None \<Rightarrow> Halt None
                            | Some o' \<Rightarrow>
                                (case zcbor_list_or_map_end (mv_zcbor env) z of
                                   None \<Rightarrow> Halt None
                                 | Some ok \<Rightarrow> if ok then Again (z, o') else Halt (Some o')))
               else case zcbor_any_skip (mv_zcbor env) z of
                   (ok, z) \<Rightarrow> if ok then Again (z, o') else Halt (Some o'))"

definition ota_receive_manifest ::
  "('z, 'a) manifest_env \<Rightarrow> u32 \<Rightarrow> byte list option \<Rightarrow> size_t \<Rightarrow> bool \<Rightarrow> 'a ota \<Rightarrow> 'a ota run" where
  "ota_receive_manifest env i data len is_last o' =
     (case (case data of None \<Rightarrow> if len = 0 then Some [] else None | Some xs \<Rightarrow> mem_read 0 len xs) of
        None \<Rightarrow> Some None
      | Some xs \<Rightarrow>
          (case zcbor_map_start_decode (mv_zcbor env) (zcbor_new_decode_state (mv_zcbor env) 3 xs) of
             (ok, z) \<Rightarrow> if ok then rounds (manifest_round env) (z, o') else Some (Some o')))"

text \<open>The service for the manifest; see \<open>ota_receive_manifest_returns\<close> for the calls that do not return.\<close>

definition ota_manifest_service :: "('z, 'a) manifest_env \<Rightarrow> 'a ota golioth_downlink_service" where
  "ota_manifest_service env =
     \<lparr>svc_path = cstr ''/.u/desired'', svc_start_cb = None,
      svc_data_cb = (\<lambda>i data len is_last o'. Option.bind (ota_receive_manifest env i data len is_last o') id)\<rparr>"

section \<open>Reporting\<close>

fun ota_state_number :: "golioth_ota_state \<Rightarrow> u32" where
  "ota_state_number GOLIOTH_OTA_STATE_IDLE = 0"
| "ota_state_number GOLIOTH_OTA_STATE_DOWNLOADING = 1"
| "ota_state_number GOLIOTH_OTA_STATE_DOWNLOADED = 2"
| "ota_state_number GOLIOTH_OTA_STATE_UPDATING = 3"

text \<open>The status of one component as a CBOR map, in a buffer of 64 bytes.\<close>

definition ota_status :: "'e zcbor_enc_ops \<Rightarrow> cstr \<Rightarrow> cstr \<Rightarrow> cstr \<Rightarrow> golioth_ota_state \<Rightarrow> byte list option" where
  "ota_status enc name current_version target_version state =
     map_option (ze_bytes enc) (encode_all
       ([zcbor_map_start_encode enc 1,
         zcbor_tstr_put enc (cstr ''s''), zcbor_uint32_put enc (ota_state_number state),
         zcbor_tstr_put enc (cstr ''r''), zcbor_uint32_put enc 0,
         zcbor_tstr_put enc (cstr ''pkg''), zcbor_tstr_put enc name,
         zcbor_tstr_put enc (cstr ''v''), zcbor_tstr_put enc current_version]
        @ (if state \<noteq> GOLIOTH_OTA_STATE_IDLE then [zcbor_tstr_put enc (cstr ''t''), zcbor_tstr_put enc target_version] else [])
        @ [zcbor_map_end_encode enc 1]) (zcbor_new_encode_state enc 1 64))"

text \<open>The path: a zeroed array with the prefix and as much of the name as fits.\<close>

definition ota_status_path :: "ota_config \<Rightarrow> cstr \<Rightarrow> cstr" where
  "ota_status_path oc name = c_string (cstr ''.u/c/'' @ strncpy name (config_ota_max_package_name_len oc) @ [0])"

function ota_uplink_from ::
  "config \<Rightarrow> ota_config \<Rightarrow> 'e zcbor_enc_ops \<Rightarrow> 'a golioth_ota_registered_component list \<Rightarrow> nat \<Rightarrow> 'c node \<Rightarrow> 'c node option" where
  "ota_uplink_from c oc enc rs component_idx s =
     (case golioth_ota_get_status component_idx rs of
        None \<Rightarrow> Some s
      | Some (name, current_version, target_version, state) \<Rightarrow>
          (case ota_status enc name current_version target_version state of
             None \<Rightarrow> Some s
           | Some encode_buf \<Rightarrow>
               do { (_, s) \<leftarrow> pouch_uplink_entry_write c OK (Some (ota_status_path oc name)) POUCH_CONTENT_TYPE_CBOR (Some encode_buf) s;
                    ota_uplink_from c oc enc rs (component_idx + 1) s }))"
  by pat_completeness auto
termination
  by (relation "measure (\<lambda>(c, oc, enc, rs, i, s). length rs - i)")
    (auto simp: golioth_ota_get_status_def split: if_splits)

declare ota_uplink_from.simps [simp del]

definition ota_uplink ::
  "config \<Rightarrow> ota_config \<Rightarrow> 'e zcbor_enc_ops \<Rightarrow> 'a golioth_ota_registered_component list \<Rightarrow> 'c node \<Rightarrow> 'c node option" where
  "ota_uplink c oc enc rs s = ota_uplink_from c oc enc rs 0 s"

section \<open>Termination\<close>

lemma component_entry_decode_ok:
  assumes "zcbor_consumes ops left"
  shows "decoder_ok left (component_entry_decode_value ops array store)"
  by (auto simp: decoder_ok_def component_entry_decode_value_def dest: zcbor_consumesD(6) [OF assms]
      split: prod.splits option.splits bind_splits if_splits)

lemma component_entries_ok:
  assumes "zcbor_consumes ops left"
  shows "list_all (\<lambda>e. decoder_ok left (me_decode e)) (component_entries ops)"
  by (simp add: component_entries_def assms component_entry_decode_ok)

lemma components_round_left:
  assumes "zcbor_consumes (mv_zcbor env) left" "components_round env x = Again y"
  shows "left (fst y) < left (fst x)"
  using assms(2)
  by (cases x) (auto simp: components_round_def Let_def
      dest!: zcbor_map_decode_left [OF assms(1) component_entries_ok [OF assms(1)]]
      split: option.splits if_splits prod.splits ret.splits)

lemma components_return:
  assumes "zcbor_consumes (mv_zcbor env) left"
  shows "rounds (components_round env) x \<noteq> None"
proof (rule rounds_returns [where left = "\<lambda>x. left (fst x)", OF _ components_round_left [OF assms]])
  show "components_round env x \<noteq> Hang" for x
    by (cases x) (simp add: components_round_def Let_def zcbor_map_decode_returns [OF assms component_entries_ok [OF assms]]
        del: not_None_eq split: option.split prod.split ret.split)
qed

lemma components_left:
  assumes "zcbor_consumes (mv_zcbor env) left" "rounds (components_round env) (z, o') = Some (Some (True, z', o''))"
  shows "left z' \<le> left z"
proof -
  obtain y where "left (fst y) \<le> left z" "components_round env y = Halt (Some (True, z', o''))"
    using rounds_left [where left = "\<lambda>x. left (fst x)", OF assms(2) components_round_left [OF assms(1)]] by auto
  then show ?thesis
    by (cases y) (auto simp: components_round_def Let_def split: option.splits if_splits prod.splits ret.splits)
qed

lemma manifest_round_Again:
  assumes "manifest_round env (z, o') = Again (z', o'')"
  shows "\<exists>key z1. zcbor_uint32_decode (mv_zcbor env) z = (Some key, z1) \<and>
    (zcbor_any_skip (mv_zcbor env) z1 = (True, z')
     \<or> (\<exists>z2 o1. zcbor_list_start_decode (mv_zcbor env) z1 = (True, z2) \<and> rounds (components_round env) (z2, o') = Some (Some (True, z', o1))))"
  using assms by (auto simp: manifest_round_def split: option.splits if_splits prod.splits bool.splits)

lemma manifest_round_left:
  assumes "zcbor_consumes (mv_zcbor env) left" "manifest_round env x = Again y"
  shows "left (fst y) < left (fst x)"
proof -
  obtain z o' z' o'' where "x = (z, o')" "y = (z', o'')" by (cases x, cases y)
  with assms(2) manifest_round_Again [of env z o' z' o''] show ?thesis
    by (auto dest!: zcbor_consumesD(2,3,11) [OF assms(1)] components_left [OF assms(1)])
qed

lemma ota_receive_manifest_returns:
  assumes "zcbor_consumes (mv_zcbor env) left"
  shows "ota_receive_manifest env i data len is_last o' \<noteq> None"
proof -
  have hang: "manifest_round env x \<noteq> Hang" for x
    by (cases x) (simp add: manifest_round_def components_return [OF assms] del: not_None_eq split: option.split prod.split bool.split)
  have "rounds (manifest_round env) x \<noteq> None" for x
    by (rule rounds_returns [where left = "\<lambda>x. left (fst x)", OF hang manifest_round_left [OF assms]])
  then show ?thesis by (simp add: ota_receive_manifest_def del: not_None_eq split: option.split prod.split)
qed

section \<open>What a manifest does\<close>

text \<open>Nothing is read behind the components: the loop ends with the round that has read them.\<close>

lemma manifest_components_last:
  assumes "zcbor_list_or_map_end (mv_zcbor env) z = Some False"
    "zcbor_uint32_decode (mv_zcbor env) z = (Some MANIFEST_KEY_COMPONENTS, z1)"
    "zcbor_list_start_decode (mv_zcbor env) z1 = (True, z2)"
    "rounds (components_round env) (z2, o') = Some (Some (True, z3, o1))"
    "golioth_ota_manifest_complete (mv_handlers env) o1 = Some o2"
  shows "rounds (manifest_round env) (z, o') = Some (Some o2)"
proof -
  obtain y where "components_round env y = Halt (Some (True, z3, o1))"
    using rounds_invariant [where P = "\<lambda>_. True", OF assms(4)] by auto
  then have e: "zcbor_list_or_map_end (mv_zcbor env) z3 = Some True"
    by (cases y) (auto simp: components_round_def Let_def split: option.splits if_splits prod.splits ret.splits)
  have "manifest_round env (z, o') = Again (z3, o2)"
    using assms e by (simp add: manifest_round_def)
  moreover have "manifest_round env (z3, o2) = Halt (Some o2)"
    using e by (simp add: manifest_round_def)
  ultimately show ?thesis by simp
qed

text \<open>The components that the library reads from a list, up to its end.\<close>

inductive components_read :: "('z, 'a) manifest_env \<Rightarrow> 'z \<Rightarrow> golioth_ota_component list \<Rightarrow> 'z \<Rightarrow> bool" for env where
  components_read_end: "zcbor_list_or_map_end (mv_zcbor env) z = Some True \<Longrightarrow> components_read env z [] z"
| components_read_one: "zcbor_list_or_map_end (mv_zcbor env) z = Some False
    \<Longrightarrow> zcbor_map_decode (mv_zcbor env) (component_entries (mv_zcbor env)) (mv_stack_key env) z
          \<lparr>cl_component = empty_component (mv_config env), cl_hash_str = mv_stack_hash env\<rparr> = Some (Some (OK, d, z1, l))
    \<Longrightarrow> hash = hex2bin env (take GOLIOTH_OTA_COMPONENT_HASH_HEX_LEN (cl_hash_str l)) GOLIOTH_OTA_COMPONENT_HASH_BIN_LEN
    \<Longrightarrow> length hash = GOLIOTH_OTA_COMPONENT_HASH_BIN_LEN
    \<Longrightarrow> components_read env z1 ms z2
    \<Longrightarrow> components_read env z ((cl_component l)\<lparr>oc_hash := hash\<rparr> # ms) z2"

text \<open>What the manifest does to the registry.\<close>

definition with_target :: "ota_config \<Rightarrow> golioth_ota_component \<Rightarrow> 'a golioth_ota_registered_component \<Rightarrow> 'a golioth_ota_registered_component" where
  "with_target oc m r =
     (if rc_name r = c_string (oc_package m)
      then r\<lparr>rc_data := (rc_data r)\<lparr>rd_target := strncpy (c_string (oc_version m)) (config_ota_max_version_len oc - 1) @ [0],
                                    rd_target_hash := oc_hash m, rd_size := unat (oc_size m)\<rparr>\<rparr>
      else r)"

lemma with_target_fields [simp]: "rc_name (with_target oc m r) = rc_name r" "rc_receive (with_target oc m r) = rc_receive r"
  by (simp_all add: with_target_def)

lemma registry_ok_with_target:
  assumes "registry_ok oc rs" "length (oc_hash m) = GOLIOTH_OTA_COMPONENT_HASH_BIN_LEN"
  shows "registry_ok oc (map (with_target oc m) rs)"
  using assms by (auto simp: registry_ok_def comp_def list_all_iff) (auto simp: with_target_def)

lemma components_rounds_eq:
  assumes "components_read env z ms z'" "registry_ok (mv_config env) (ot_components o')"
  shows "rounds (components_round env) (z, o') =
    Some (Some (True, z', o'\<lparr>ot_components := map (\<lambda>r. fold (with_target (mv_config env)) ms r) (ot_components o')\<rparr>))"
  using assms
proof (induction arbitrary: o' rule: components_read.induct)
  case (components_read_end z)
  then show ?case by (simp add: components_round_def)
next
  case (components_read_one z d z1 l hash ms z2)
  let ?m = "(cl_component l)\<lparr>oc_hash := hash\<rparr>"
  let ?rs = "map (with_target (mv_config env) ?m) (ot_components o')"
  have "golioth_ota_manifest_receive_one ?m (ot_components o') = Some ?rs"
    using manifest_receive_one_eq [OF components_read_one.prems, of ?m] components_read_one(4) by (simp add: with_target_def)
  then have "components_round env (z, o') = Again (z1, o'\<lparr>ot_components := ?rs\<rparr>)"
    using components_read_one(1-4) by (simp add: components_round_def Let_def)
  moreover have "registry_ok (mv_config env) ?rs"
    using components_read_one(4) by (intro registry_ok_with_target components_read_one.prems) simp
  ultimately show ?case by (simp add: components_read_one.IH comp_def)
qed

end
