(* ===== verification/Reports.thy ===== *)
theory Reports
  imports Settings Ota_Manifest Uplink_Runs "HOL-Library.Sublist"
begin

text \<open>
  The status reports: what the uplink callbacks of the settings and the OTA service, run by \<open>golioth_sync_to_cloud\<close>, write to
  the uplink. The contract between the dispatcher and such a callback is the locale \<open>uplink_service\<close>: the
  callback returns, keeps the node consistent, loses no buffer, emits no event, and writes some of its reports, in order.
\<close>

section \<open>The contract\<close>

text \<open>What the transport is about to send, and whose session it is.\<close>

definition transport_kept :: "'c node \<Rightarrow> 'c node \<Rightarrow> bool" where
  "transport_kept s s' \<longleftrightarrow> n_crypto s' = n_crypto s \<and> session_is_active s' = session_is_active s \<and> pending s' = pending s
     \<and> up_header (n_up s') = up_header (n_up s)"

lemma app_frame_transport_kept: "app_frame s s' \<Longrightarrow> transport_kept s s'"
  by (simp add: transport_kept_def app_frameD)

definition reported :: "config \<Rightarrow> 'c node \<Rightarrow> pouch_entry list \<Rightarrow> 'c node \<Rightarrow> bool" where
  "reported c s es s' \<longleftrightarrow> node_inv c s' \<and> balance s' = balance s \<and> entry_log s' = entry_log s @ concat (map entry_image es)
     \<and> n_event_q s' = n_event_q s \<and> malloc_ok (n_heap s') = malloc_ok (n_heap s) \<and> transport_kept s s'"

lemma reported_Nil: "node_inv c s \<Longrightarrow> reported c s [] s"
  by (simp add: reported_def transport_kept_def)

lemma reported_append: "reported c s es s1 \<Longrightarrow> reported c s1 fs s2 \<Longrightarrow> reported c s (es @ fs) s2"
  by (simp add: reported_def transport_kept_def)

text \<open>There is memory for every one of the entries, and each of them fits into a block.\<close>

definition roomy :: "config \<Rightarrow> 'c node \<Rightarrow> pouch_entry list \<Rightarrow> bool" where
  "roomy c s es \<longleftrightarrow> (\<forall>n. malloc_ok (n_heap s) n) \<and> list_all (\<lambda>e. pe_data e \<noteq> [] \<and> length (entry_image e) \<le> MAX_BLOCK_PAYLOAD_SIZE c) es"

text \<open>Some of the reports have been written, in their order, and all of them if there was room.\<close>

definition reports_written :: "config \<Rightarrow> pouch_entry list \<Rightarrow> 'c node \<Rightarrow> pouch_entry list \<Rightarrow> 'c node \<Rightarrow> bool" where
  "reports_written c reports s es s' \<longleftrightarrow> subseq es reports \<and> reported c s es s' \<and> (roomy c s reports \<longrightarrow> es = reports)"

lemma reports_written_Nil: "node_inv c s \<Longrightarrow> reports_written c [] s [] s"
  by (simp add: reports_written_def reported_Nil)

lemma reports_written_append:
  assumes "reports_written c rs s es s1" "reports_written c rs' s1 fs s2"
  shows "reports_written c (rs @ rs') s (es @ fs) s2"
proof -
  have "roomy c s rs" "roomy c s1 rs'" if "roomy c s (rs @ rs')"
    using that assms(1) by (simp_all add: roomy_def reports_written_def reported_def)
  with assms show ?thesis by (auto simp: reports_written_def intro: list_emb_append_mono reported_append)
qed

lemma reports_written_inv: "reports_written c rs s es s' \<Longrightarrow> node_inv c s'"
  by (simp add: reports_written_def reported_def)

locale uplink_service =
  fixes c :: config and cb :: "'c node \<Rightarrow> 'c node option" and reports :: "pouch_entry list"
  assumes writes: "node_inv c s \<Longrightarrow> \<exists>s' es. cb s = Some s' \<and> reports_written c reports s es s'"
begin

lemma run_first:
  assumes "node_inv c s"
  shows "\<exists>s1 es. run_uplink_services (Some cb # cbs) s = run_uplink_services cbs s1 \<and> reports_written c reports s es s1"
  using writes [OF assms] by auto

end

definition is_service :: "config \<Rightarrow> ('c node \<Rightarrow> 'c node option) option \<Rightarrow> pouch_entry list \<Rightarrow> bool" where
  "is_service c cb reports \<longleftrightarrow> (case cb of None \<Rightarrow> reports = [] | Some f \<Rightarrow> uplink_service c f reports)"

lemma run_services:
  assumes "list_all2 (is_service c) cbs reports" "node_inv c s"
  shows "\<exists>s' es. run_uplink_services cbs s = Some s' \<and> reports_written c (concat reports) s es s'"
  using assms
proof (induction arbitrary: s rule: list_all2_induct)
  case Nil
  then show ?case using reports_written_Nil by fastforce
next
  case (Cons cb cbs r reports)
  obtain s1 es where 1: "run_uplink_services (cb # cbs) s = run_uplink_services cbs s1" "reports_written c r s es s1"
  proof (cases cb)
    case None
    with Cons that [of s "[]"] show ?thesis by (simp add: is_service_def reports_written_Nil)
  next
    case (Some f)
    with Cons.hyps(1) Cons.prems that show ?thesis using uplink_service.run_first by (fastforce simp: is_service_def)
  qed
  from Cons.IH [OF reports_written_inv [OF 1(2)]] 1 show ?case by (auto intro: reports_written_append)
qed

lemma entry_block_close_frame:
  "entry_block_close lock s = Some (r, s') \<Longrightarrow> n_event_q s' = n_event_q s \<and> n_heap s' = n_heap s \<and> app_frame s s'"
  by (auto simp: app_frame_def entry_block_close_def Let_def uplink_enqueue_def map_up_def split: if_splits option.splits bind_splits)

lemma set_flag_frame: "n_event_q (set_flag f s) = n_event_q s" "n_heap (set_flag f s) = n_heap s"
  by (simp_all add: set_flag_def map_up_def)

lemma close_reported:
  assumes "valid_config c" "node_inv c s"
  shows "\<exists>r s'. pouch_uplink_close lock s = Some (r, s') \<and> reported c s [] s' \<and> pouch_is_closing s'
    \<and> (r = OK \<longrightarrow> n_block s' = None)"
proof (cases "pouch_is_closing s")
  case True
  with assms show ?thesis by (simp add: pouch_uplink_close_def reported_Nil)
next
  case False
  let ?s = "set_flag POUCH_CLOSING s"
  have "node_inv c ?s" using assms(2) by simp
  then obtain r s' where e: "entry_block_close lock ?s = Some (r, s')" "node_inv c s'" "balance s' = balance ?s"
    "entry_log s' = entry_log ?s" "r = OK \<longrightarrow> n_block s' = None" "up_flags (n_up s') = up_flags (n_up ?s)"
    using entry_block_close_spec [OF assms(1)] by blast
  have "pouch_uplink_close lock s = Some (r, work_submit s')" using False e(1) by (simp add: pouch_uplink_close_def)
  then show ?thesis
    using e entry_block_close_frame [OF e(1)] set_flag_frame [of POUCH_CLOSING s] False
    by (auto simp: reported_def work_submit_def node_inv_def balance_def owned_def entry_log_def flag_tests flag_numbers
        transport_kept_def app_frame_def pending_def)
qed

lemma sync_to_cloud:
  assumes "valid_config c" "list_all2 (is_service c) cbs reports" "node_inv c s"
  shows "\<exists>s' es. golioth_sync_to_cloud cbs s = Some (OK, s') \<and> reports_written c (concat reports) s es s' \<and> pouch_is_closing s'"
proof -
  obtain s1 es where 1: "run_uplink_services cbs s = Some s1" "reports_written c (concat reports) s es s1"
    using run_services [OF assms(2,3)] by blast
  obtain r s2 where 2: "pouch_uplink_close OK s1 = Some (r, s2)" "reported c s1 [] s2" "pouch_is_closing s2"
    using close_reported [OF assms(1) reports_written_inv [OF 1(2)]] by blast
  then have "reports_written c [] s1 [] s2" by (simp add: reports_written_def)
  with 1 2 show ?thesis using reports_written_append [of c "concat reports" s es s1 "[]" "[]" s2] by (auto simp: golioth_sync_to_cloud_def)
qed

section \<open>The services\<close>

text \<open>One report: it is written or it is not.\<close>

lemma block_alloc_malloc_ok: "block_alloc c h = Some (b, h') \<Longrightarrow> malloc_ok h' = malloc_ok h"
  by (auto simp: block_alloc_def buf_alloc_def malloc_def Let_def split: if_splits option.splits bind_splits prod.splits)

lemma entry_write_frame_heap:
  assumes "pouch_uplink_entry_write c lock path ct data s = Some (r, s')"
  shows "n_event_q s' = n_event_q s" "malloc_ok (n_heap s') = malloc_ok (n_heap s)"
  using assms by (auto simp: pouch_uplink_entry_write_def Let_def uplink_enqueue_def map_up_def dest!: block_alloc_malloc_ok
      split: option.splits if_splits bind_splits)

lemma write_reported:
  fixes ct :: u16
  assumes "valid_config c" "node_inv c s" "length path + length data + 5 < SIZE_MOD"
  defines "e \<equiv> \<lparr>pe_path = path, pe_content_type = ct, pe_data = data\<rparr>"
  shows "\<exists>r s'. pouch_uplink_entry_write c lock (Some path) ct (Some data) s = Some (r, s')
    \<and> reported c s (if r = OK then [e] else []) s' \<and> (lock = OK \<longrightarrow> reports_written c [e] s (if r = OK then [e] else []) s')"
proof -
  have "5 + length path + length data < SIZE_MOD" using assms(3) by simp
  from entry_write_spec [OF assms(1,2) this, of lock ct, folded e_def]
  obtain r s' where w: "pouch_uplink_entry_write c lock (Some path) ct (Some data) s = Some (r, s')" "node_inv c s'" "balance s' = balance s"
    "entry_log s' = entry_log s @ (if r = OK then entry_image e else [])"
    "lock = OK \<longrightarrow> data \<noteq> [] \<longrightarrow> length (entry_image e) \<le> MAX_BLOCK_PAYLOAD_SIZE c \<longrightarrow> (\<forall>n. malloc_ok (n_heap s) n) \<longrightarrow> r = OK"
    by blast
  then have rep: "reported c s (if r = OK then [e] else []) s'"
    using entry_write_frame_heap [OF w(1)] app_frame_transport_kept [OF entry_write_frame [OF w(1)]] by (auto simp: reported_def)
  moreover have "lock = OK \<longrightarrow> roomy c s [e] \<longrightarrow> r = OK" using w(5) by (auto simp: roomy_def e_def)
  ultimately show ?thesis using w(1) by (auto simp: reports_written_def)
qed

definition settings_reports :: "'e zcbor_enc_ops \<Rightarrow> u64 \<Rightarrow> pouch_entry list" where
  "settings_reports enc version =
     (case settings_status enc version of
        None \<Rightarrow> [] | Some buf \<Rightarrow> [\<lparr>pe_path = cstr ''.c/status'', pe_content_type = POUCH_CONTENT_TYPE_CBOR, pe_data = buf\<rparr>])"

definition report_of ::
  "ota_config \<Rightarrow> 'e zcbor_enc_ops \<Rightarrow> 'a golioth_ota_registered_component \<Rightarrow> pouch_entry option" where
  "report_of oc enc r =
     map_option (\<lambda>buf. \<lparr>pe_path = ota_status_path oc (rc_name r), pe_content_type = POUCH_CONTENT_TYPE_CBOR, pe_data = buf\<rparr>)
       (ota_status enc (rc_name r) (rc_version r) (c_string (rd_target (rc_data r))) (rd_state (rc_data r)))"

text \<open>The reports on the components, up to the first one that cannot be encoded.\<close>

fun ota_reports :: "ota_config \<Rightarrow> 'e zcbor_enc_ops \<Rightarrow> 'a golioth_ota_registered_component list \<Rightarrow> pouch_entry list" where
  "ota_reports oc enc [] = []"
| "ota_reports oc enc (r # rs) = (case report_of oc enc r of None \<Rightarrow> [] | Some e \<Rightarrow> e # ota_reports oc enc rs)"

lemma settings_status_size:
  assumes "zcbor_enc_sized enc cap" "settings_status enc version = Some buf"
  shows "length buf \<le> 64"
proof -
  obtain e where e: "encode_all [zcbor_map_start_encode enc 2, zcbor_tstr_put enc (cstr ''version''),
        if 0 \<le> sint version then zcbor_int64_put enc version else zcbor_nil_put enc, zcbor_map_end_encode enc 2]
      (zcbor_new_encode_state enc 3 64) = Some e" "buf = ze_bytes enc e"
    using assms(2) by (auto simp: settings_status_def simp del: encode_all.simps)
  have "cap e = 64"
    using encode_all_size [of enc cap "[0, length (cstr ''version''), 0, 0]", OF _ e(1)] assms(1)
    by (simp add: zcbor_enc_sized_def)
  with assms(1) e(2) show ?thesis by (metis zcbor_enc_sized_def)
qed

lemma ota_status_size:
  assumes "zcbor_enc_sized enc cap" "ota_status enc name current target state = Some buf"
  shows "length buf \<le> 64" "6 + length name + length current + (if state = GOLIOTH_OTA_STATE_IDLE then 0 else 1 + length target) \<le> 64"
proof -
  let ?t = "if state \<noteq> GOLIOTH_OTA_STATE_IDLE then [zcbor_tstr_put enc (cstr ''t''), zcbor_tstr_put enc target] else []"
  let ?n = "if state \<noteq> GOLIOTH_OTA_STATE_IDLE then [1, length target] else []"
  obtain e where e: "encode_all ([zcbor_map_start_encode enc 1,
         zcbor_tstr_put enc (cstr ''s''), zcbor_uint32_put enc (ota_state_number state),
         zcbor_tstr_put enc (cstr ''r''), zcbor_uint32_put enc 0,
         zcbor_tstr_put enc (cstr ''pkg''), zcbor_tstr_put enc name,
         zcbor_tstr_put enc (cstr ''v''), zcbor_tstr_put enc current] @ ?t @ [zcbor_map_end_encode enc 1])
      (zcbor_new_encode_state enc 1 64) = Some e" "buf = ze_bytes enc e"
    using assms(2) by (auto simp: ota_status_def simp del: encode_all.simps append_Cons)
  have put: "zcbor_put_ok enc cap (length s) (zcbor_tstr_put enc s)" for s using assms(1) by (simp add: zcbor_enc_sized_def)
  have "list_all2 (zcbor_put_ok enc cap) ([0, 1, 0, 1, 0, 3, length name, 1, length current] @ ?n @ [0])
      ([zcbor_map_start_encode enc 1,
         zcbor_tstr_put enc (cstr ''s''), zcbor_uint32_put enc (ota_state_number state),
         zcbor_tstr_put enc (cstr ''r''), zcbor_uint32_put enc 0,
         zcbor_tstr_put enc (cstr ''pkg''), zcbor_tstr_put enc name,
         zcbor_tstr_put enc (cstr ''v''), zcbor_tstr_put enc current] @ ?t @ [zcbor_map_end_encode enc 1])"
    using assms(1) put [of name] put [of current] put [of target] put [of "cstr ''s''"] put [of "cstr ''r''"] put [of "cstr ''v''"]
      put [of "cstr ''t''"] put [of "cstr ''pkg''"] by (simp add: zcbor_enc_sized_def cstr_def eval_nat_numeral)
  from encode_all_size [OF this e(1)] have "cap e = 64"
    and le: "6 + length name + length current + sum_list ?n \<le> length (ze_bytes enc e)"
    using assms(1) by (simp_all add: zcbor_enc_sized_def)
  then have "length (ze_bytes enc e) \<le> 64" using assms(1) by (metis zcbor_enc_sized_def)
  with le e(2) show "length buf \<le> 64" "6 + length name + length current + (if state = GOLIOTH_OTA_STATE_IDLE then 0 else 1 + length target) \<le> 64"
    by (auto split: if_splits)
qed

lemma settings_uplink_service:
  assumes "valid_config c" "zcbor_enc_sized enc cap"
  shows "uplink_service c (settings_uplink c enc version :: 'c node \<Rightarrow> 'c node option) (settings_reports enc version)"
proof
  fix s :: "'c node"
  assume inv: "node_inv c s"
  show "\<exists>s' es. settings_uplink c enc version s = Some s' \<and> reports_written c (settings_reports enc version) s es s'"
  proof (cases "settings_status enc version")
    case None
    with inv show ?thesis by (auto simp: settings_uplink_def settings_reports_def intro: reports_written_Nil)
  next
    case (Some buf)
    then have "length buf \<le> 64" using settings_status_size [OF assms(2)] by blast
    then have "length (cstr ''.c/status'') + length buf + 5 < SIZE_MOD" by (simp add: cstr_def SIZE_MOD_def)
    from write_reported [OF assms(1) inv this, of OK POUCH_CONTENT_TYPE_CBOR] Some show ?thesis
      by (auto simp: settings_uplink_def settings_reports_def)
  qed
qed

lemma ota_status_path_length: "length (ota_status_path oc name) \<le> 5 + config_ota_max_package_name_len oc"
  using length_c_string_zero [of "cstr ''.u/c/'' @ strncpy name (config_ota_max_package_name_len oc)" "[]"]
  by (simp add: ota_status_path_def cstr_def)

lemma ota_uplink_from_reported:
  assumes "valid_config c" "zcbor_enc_sized enc cap" "config_ota_max_package_name_len oc + 80 < SIZE_MOD" "node_inv c s"
  shows "\<exists>s' es. ota_uplink_from c oc enc rs i s = Some s' \<and> reports_written c (ota_reports oc enc (drop i rs)) s es s'"
  using assms(4)
proof (induction "length rs - i" arbitrary: i s)
  case 0
  then show ?case by (auto simp: ota_uplink_from.simps golioth_ota_get_status_def intro: reports_written_Nil)
next
  case (Suc n)
  then have i: "i < length rs" by simp
  let ?r = "rs ! i"
  have dr: "drop i rs = ?r # drop (Suc i) rs" using i by (simp add: Cons_nth_drop_Suc)
  show ?case
  proof (cases "ota_status enc (rc_name ?r) (rc_version ?r) (c_string (rd_target (rc_data ?r))) (rd_state (rc_data ?r))")
    case None
    then have "ota_uplink_from c oc enc rs i s = Some s"
      using i by (subst ota_uplink_from.simps) (simp add: golioth_ota_get_status_def Let_def)
    with Suc.prems None show ?thesis by (auto simp: dr report_of_def intro: reports_written_Nil)
  next
    case (Some buf)
    let ?e = "\<lparr>pe_path = ota_status_path oc (rc_name ?r), pe_content_type = POUCH_CONTENT_TYPE_CBOR, pe_data = buf\<rparr>"
    have "length (ota_status_path oc (rc_name ?r)) + length buf + 5 < SIZE_MOD"
      using ota_status_size(1) [OF assms(2) Some] ota_status_path_length [of oc "rc_name ?r"] assms(3) by simp
    from write_reported [OF assms(1) Suc.prems this, of OK POUCH_CONTENT_TYPE_CBOR] obtain r s1
      where 1: "pouch_uplink_entry_write c OK (Some (ota_status_path oc (rc_name ?r))) POUCH_CONTENT_TYPE_CBOR (Some buf) s = Some (r, s1)"
        "reports_written c [?e] s (if r = OK then [?e] else []) s1" by blast
    have "n = length rs - Suc i" using Suc.hyps(2) by simp
    then obtain s2 es where 2: "ota_uplink_from c oc enc rs (Suc i) s1 = Some s2" "reports_written c (ota_reports oc enc (drop (Suc i) rs)) s1 es s2"
      using Suc.hyps(1) reports_written_inv [OF 1(2)] by blast
    have "ota_uplink_from c oc enc rs i s = Some s2"
      using i Some 1(1) 2(1) by (subst ota_uplink_from.simps) (simp add: golioth_ota_get_status_def Let_def)
    moreover have "ota_reports oc enc (drop i rs) = [?e] @ ota_reports oc enc (drop (Suc i) rs)" using Some by (simp add: dr report_of_def)
    ultimately show ?thesis using reports_written_append [OF 1(2) 2(2)] by auto
  qed
qed

lemma ota_uplink_service:
  assumes "valid_config c" "zcbor_enc_sized enc cap" "config_ota_max_package_name_len oc + 80 < SIZE_MOD"
  shows "uplink_service c (ota_uplink c oc enc rs) (ota_reports oc enc rs)"
  using ota_uplink_from_reported [OF assms, where i = 0] by unfold_locales (simp add: ota_uplink_def)

lemma golioth_services:
  assumes "valid_config c" "zcbor_enc_sized enc cap" "config_ota_max_package_name_len oc + 80 < SIZE_MOD"
  shows "list_all2 (is_service c) [Some (ota_uplink c oc enc rs), Some (settings_uplink c enc version)]
    [ota_reports oc enc rs, settings_reports enc version]"
  using assms by (simp add: is_service_def ota_uplink_service settings_uplink_service)

text \<open>A component whose names do not fit the encoding buffer ends the report: those behind it are left out.\<close>

lemma long_status_ends_reports:
  assumes "zcbor_enc_sized enc cap" "58 < length (rc_name r) + length (rc_version r)"
  shows "ota_reports oc enc (ps @ r # rs) = ota_reports oc enc ps"
proof -
  have "ota_status enc (rc_name r) (rc_version r) t st = None" for t st
    using ota_status_size(2) [OF assms(1), of "rc_name r" "rc_version r" t st] assms(2)
    by (cases "ota_status enc (rc_name r) (rc_version r) t st") auto
  then show ?thesis by (induction ps) (auto simp: report_of_def split: option.split)
qed

end
