(* ===== verification/Parsing.thy ===== *)
theory Parsing
  imports Entry
begin

text \<open>
  Which received blocks the parser of \<^verbatim>\<open>entry.c\<close> can take: a predicate on the bytes of a block that holds exactly
  where the parser stays inside the block's storage, if the handlers do not fault.
\<close>

definition handlers_total :: "'a pouch_downlink_handler list \<Rightarrow> bool" where
  "handlers_total hs \<longleftrightarrow> (\<forall>h \<in> set hs. (\<forall>i path ct a. start_cb h i path ct a \<noteq> None) \<and> (\<forall>i data n l a. data_cb h i data n l a \<noteq> None))"

text \<open>
  An identifier byte; behind it entries with complete headers and paths, or, in the first block of a stream, a complete header and path.
\<close>

definition parseable :: "byte list \<Rightarrow> bool" where
  "parseable xs \<longleftrightarrow> 3 \<le> length xs \<and>
     (let bid = xs ! 2; payload = drop 3 xs in
      if bid AND BLOCK_ID_MASK = BLOCK_ID_ENTRY then parse_entries payload \<noteq> None
      else bid AND FIRST_DATA_MASK \<noteq> 0 \<longrightarrow> 3 \<le> length payload \<and> 3 + unat (payload ! 2) \<le> length payload)"

lemma downlink_total:
  assumes "handlers_total hs"
  shows "\<exists>a'. downlink_start hs i path ct a = Some a'" "\<exists>a'. downlink_data hs i data n l a = Some a'"
  using assms
proof (induction hs arbitrary: a)
  case (Cons h hs)
  {
    case 1
    then have "start_cb h i path ct a \<noteq> None" "handlers_total hs" by (simp_all add: handlers_total_def)
    with Cons.IH(1) show ?case by auto
  next
    case 2
    then have "data_cb h i data n l a \<noteq> None" "handlers_total hs" by (simp_all add: handlers_total_def)
    with Cons.IH(2) show ?case by auto
  }
qed simp_all

lemma deliver_entries_total: "handlers_total hs \<Longrightarrow> \<exists>a'. deliver_entries hs evs a = Some a'"
proof (induction evs arbitrary: a)
  case (Cons ev evs)
  obtain path ct data n where ev: "ev = (path, ct, data, n)" by (cases ev)
  obtain a1 where "downlink_start hs 0 path ct a = Some a1" using downlink_total(1) [OF Cons.prems] by blast
  moreover obtain a2 where "downlink_data hs 0 data n True a1 = Some a2" using downlink_total(2) [OF Cons.prems] by blast
  ultimately show ?case using Cons ev by (simp add: deliver_entry_def)
qed simp

lemma block_decode_hdr_eq:
  assumes "wf_buf b" "3 \<le> pb_bytes b"
  shows "\<exists>n. block_decode_hdr (pouch_bufview_init (Some b)) =
    Some (n, contents b ! 2 AND BLOCK_ID_MASK, contents b ! 2 AND BLOCK_ID_MASK \<noteq> BLOCK_ID_ENTRY,
      contents b ! 2 AND FIRST_DATA_MASK \<noteq> 0, contents b ! 2 AND LAST_DATA_MASK \<noteq> 0, view_advance 3 (pouch_bufview_init (Some b)))"
proof -
  let ?v = "pouch_bufview_init (Some b)"
  have v: "view_ok ?v" "view_rest ?v = contents b" "length (contents b) = pb_bytes b" using assms(1) by simp_all
  have "drop 2 (contents b) = contents b ! 2 # drop 3 (contents b)" using v(3) assms(2) by (simp add: Cons_nth_drop_Suc [symmetric] numeral_3_eq_3)
  then have "pouch_bufview_read_byte (view_advance 2 ?v) = Some (contents b ! 2, view_advance 1 (view_advance 2 ?v))"
    using v assms(2) by (intro pouch_bufview_read_byte_eq) simp_all
  moreover have "pouch_bufview_read_be16 ?v = Some (sys_get_be16 (contents b), view_advance 2 ?v)"
    using v assms(2) by (simp add: pouch_bufview_read_be16_eq)
  moreover have "bv_offset ?v = 0" by (simp add: pouch_bufview_init_def)
  ultimately show ?thesis by (simp add: block_decode_hdr_def view_advance_add Let_def)
qed

lemma take_2_be16: "2 \<le> length xs \<Longrightarrow> take 2 xs = sys_put_be16 (sys_get_be16 xs)"
proof -
  assume "2 \<le> length xs"
  then obtain x y ys where "xs = x # y # ys" by (metis Suc_le_length_iff numeral_2_eq_2)
  then show ?thesis using sys_put_get_be16 [of x y] sys_get_be_take(1) [of xs] by simp
qed

text \<open>A payload as the header of a stream and data.\<close>

lemma stream_payload_split:
  assumes "3 \<le> length payload" "3 + unat (payload ! 2) \<le> length payload"
  shows "\<exists>ct path data. payload = stream_header_image ct path @ data \<and> length path = unat (payload ! 2)"
proof -
  let ?n = "unat (payload ! 2)"
  have "drop 2 payload = payload ! 2 # drop 3 payload"
    using assms(1) by (simp add: Cons_nth_drop_Suc [symmetric] numeral_3_eq_3)
  moreover have "drop 3 payload = take ?n (drop 3 payload) @ drop (3 + ?n) payload" by (simp add: add.commute [of 3] flip: drop_drop)
  moreover have "payload = take 2 payload @ drop 2 payload" by simp
  ultimately have "payload = take 2 payload @ payload ! 2 # take ?n (drop 3 payload) @ drop (3 + ?n) payload" by metis
  moreover have "take 2 payload = sys_put_be16 (sys_get_be16 payload)" using assms(1) take_2_be16 by simp
  moreover have "length (take ?n (drop 3 payload)) = ?n" using assms by simp
  ultimately show ?thesis
    by (intro exI [of _ "sys_get_be16 payload"] exI [of _ "take ?n (drop 3 payload)"] exI [of _ "drop (3 + ?n) payload"])
       (simp add: stream_header_image_def)
qed

lemma stream_push_long_path:
  assumes "view_ok v" "3 \<le> length (view_rest v)" "length (view_rest v) < 3 + unat (view_rest v ! 2)"
  shows "pouch_downlink_stream_push hs v i True is_last a = None"
proof -
  have r1: "pouch_bufview_read_be16 v = Some (sys_get_be16 (view_rest v), view_advance 2 v)"
    using assms(1,2) by (simp add: pouch_bufview_read_be16_eq)
  have "drop 2 (view_rest v) = view_rest v ! 2 # drop 3 (view_rest v)"
    using assms(2) by (simp add: Cons_nth_drop_Suc [symmetric] numeral_3_eq_3)
  then have r2: "pouch_bufview_read_byte (view_advance 2 v) = Some (view_rest v ! 2, view_advance 3 v)"
    using assms(1,2) by (subst pouch_bufview_read_byte_eq) (auto simp: view_advance_add)
  have r3: "pouch_bufview_read (unat (view_rest v ! 2)) (view_advance 3 v) = Some (None, view_advance 3 v)"
    using assms by (subst pouch_bufview_read_eq) auto
  from r1 r2 r3 show ?thesis by (simp add: pouch_downlink_stream_push_def path_null_term_def)
qed

lemma stream_push_cont_total:
  assumes "view_ok v" "handlers_total hs"
  shows "pouch_downlink_stream_push hs v i False is_last a \<noteq> None"
proof -
  let ?n = "unat (word_of_nat (length (view_rest v)) :: u16)"
  have "?n \<le> length (view_rest v)" by (simp add: unat_of_nat)
  then have "pouch_bufview_read ?n v = Some (Some (bv_offset v), view_advance ?n v)"
    "view_bytes (Some (bv_offset v)) ?n (view_advance ?n v) = Some (Some (take ?n (view_rest v)))"
    using assms(1) by (simp_all add: pouch_bufview_read_eq view_bytes_def bufview_read_eq)
  with downlink_total(2) [OF assms(2)] show ?thesis
    by (simp add: pouch_downlink_stream_push_def view_available [OF assms(1)] Let_def)
qed

lemma stream_push_total:
  assumes "view_ok v" "handlers_total hs"
    and "is_first \<longrightarrow> 3 \<le> length (view_rest v) \<and> 3 + unat (view_rest v ! 2) \<le> length (view_rest v)"
  shows "pouch_downlink_stream_push hs v i is_first is_last a \<noteq> None"
proof (cases is_first)
  case False
  with stream_push_cont_total [OF assms(1,2)] show ?thesis by simp
next
  case True
  then obtain ct path data where p: "view_rest v = stream_header_image ct path @ data" "length path = unat (view_rest v ! 2)"
    using stream_payload_split assms(3) by blast
  obtain a1 where "downlink_start hs i (takeWhile (\<lambda>x. x \<noteq> 0) path) ct a = Some a1" using downlink_total(1) [OF assms(2)] by blast
  moreover have "length path < 256" by (simp add: p(2))
  moreover have "view_ok (view_advance (length path + 3) v)" using assms(1) p(1) by simp
  ultimately show ?thesis
    using stream_push_header_cont [OF assms(1) p(1), of hs i is_last a] stream_push_cont_total [OF _ assms(2)] True by simp
qed

lemma stream_push_iff:
  assumes "view_ok v" "bv_buf v = Some b" "capacity b < 65536" "handlers_total hs"
  shows "pouch_downlink_stream_push hs v i is_first is_last a \<noteq> None \<longleftrightarrow>
    (is_first \<longrightarrow> 3 \<le> length (view_rest v) \<and> 3 + unat (view_rest v ! 2) \<le> length (view_rest v))"
proof
  assume "is_first \<longrightarrow> 3 \<le> length (view_rest v) \<and> 3 + unat (view_rest v ! 2) \<le> length (view_rest v)"
  then show "pouch_downlink_stream_push hs v i is_first is_last a \<noteq> None" by (rule stream_push_total [OF assms(1,4)])
next
  assume ok: "pouch_downlink_stream_push hs v i is_first is_last a \<noteq> None"
  have v: "bv_offset v \<le> pb_bytes b" "pb_bytes b \<le> capacity b" "length (view_rest v) = pb_bytes b - bv_offset v"
    using assms(1,2) by (auto simp: view_ok_def view_rest_def wf_buf_def)
  show "is_first \<longrightarrow> 3 \<le> length (view_rest v) \<and> 3 + unat (view_rest v ! 2) \<le> length (view_rest v)"
  proof (intro impI conjI)
    assume "is_first"
    show 3: "3 \<le> length (view_rest v)"
      using stream_push_overrun [OF assms(2), of True hs i is_last a] v assms(3) ok \<open>is_first\<close> by (cases "3 \<le> length (view_rest v)") auto
    show "3 + unat (view_rest v ! 2) \<le> length (view_rest v)"
      using stream_push_long_path [OF assms(1) 3] ok \<open>is_first\<close> by (metis not_less)
  qed
qed

lemma block_push_cases:
  assumes "wf_buf b" "3 \<le> pb_bytes b"
  defines "v \<equiv> view_advance 3 (pouch_bufview_init (Some b))" and "bid \<equiv> contents b ! 2"
  shows "view_ok v" "view_rest v = drop 3 (contents b)" "bv_buf v = Some b"
    and "pouch_downlink_block_push hs b a =
      (if bid AND BLOCK_ID_MASK = BLOCK_ID_ENTRY then do { evs \<leftarrow> parse_entries (drop 3 (contents b)); deliver_entries hs evs a }
       else pouch_downlink_stream_push hs v (unat (bid AND BLOCK_ID_MASK)) (bid AND FIRST_DATA_MASK \<noteq> 0) (bid AND LAST_DATA_MASK \<noteq> 0) a)"
proof -
  show v: "view_ok v" "view_rest v = drop 3 (contents b)" "bv_buf v = Some b"
    using assms(1,2) by (simp_all add: v_def) (simp add: pouch_bufview_init_def)
  show "pouch_downlink_block_push hs b a =
      (if bid AND BLOCK_ID_MASK = BLOCK_ID_ENTRY then do { evs \<leftarrow> parse_entries (drop 3 (contents b)); deliver_entries hs evs a }
       else pouch_downlink_stream_push hs v (unat (bid AND BLOCK_ID_MASK)) (bid AND FIRST_DATA_MASK \<noteq> 0) (bid AND LAST_DATA_MASK \<noteq> 0) a)"
    using block_decode_hdr_eq [OF assms(1,2)] entries_push_parse [OF v(1), of hs a] v(2)
    by (auto simp: pouch_downlink_block_push_def v_def bid_def)
qed

text \<open>The parser is memory safe on a block if the block is parseable, and on no other block of a size that occurs.\<close>

lemma block_push_total:
  assumes "wf_buf b" "handlers_total hs" "parseable (contents b)"
  shows "pouch_downlink_block_push hs b a \<noteq> None"
proof -
  have 3: "3 \<le> pb_bytes b" using assms(1,3) by (simp add: parseable_def)
  note b = block_push_cases [OF assms(1) 3]
  show ?thesis
  proof (cases "contents b ! 2 AND BLOCK_ID_MASK = BLOCK_ID_ENTRY")
    case True
    with assms(3) obtain evs where "parse_entries (drop 3 (contents b)) = Some evs" by (auto simp: parseable_def)
    with True deliver_entries_total [OF assms(2)] show ?thesis by (simp add: b(4))
  next
    case False
    with assms(3) have "contents b ! 2 AND FIRST_DATA_MASK \<noteq> 0 \<longrightarrow>
        3 \<le> length (drop 3 (contents b)) \<and> 3 + unat (drop 3 (contents b) ! 2) \<le> length (drop 3 (contents b))"
      unfolding parseable_def Let_def by (simp only: if_False) blast
    from stream_push_total [OF b(1) assms(2), unfolded b(2), OF this] False show ?thesis by (simp add: b(4) del: not_None_eq)
  qed
qed

lemma block_push_iff:
  assumes "wf_buf b" "capacity b < 65536" "handlers_total hs"
  shows "pouch_downlink_block_push hs b a \<noteq> None \<longleftrightarrow> parseable (contents b)"
proof
  assume ok: "pouch_downlink_block_push hs b a \<noteq> None"
  have 3: "3 \<le> pb_bytes b" using block_push_too_short [of b hs a] assms(2) ok by (cases "3 \<le> pb_bytes b") auto
  note b = block_push_cases [OF assms(1) 3]
  show "parseable (contents b)"
  proof (cases "contents b ! 2 AND BLOCK_ID_MASK = BLOCK_ID_ENTRY")
    case True
    with ok 3 assms(1) show ?thesis by (cases "parse_entries (drop 3 (contents b))") (simp_all add: b(4) parseable_def)
  next
    case False
    with ok 3 assms(1) show ?thesis
      unfolding parseable_def Let_def b(4) by (simp only: stream_push_iff [OF b(1,3) assms(2,3)] b(2) if_False contents_length simp_thms)
  qed
next
  assume "parseable (contents b)"
  then show "pouch_downlink_block_push hs b a \<noteq> None" by (rule block_push_total [OF assms(1,3)])
qed

end
