(* ===== verification/Module.thy ===== *)
theory Module
  imports Uplink_Runs Parsing Saead
begin

text \<open>
  The library as a whole, \<^verbatim>\<open>src/pouch.c\<close>: the uplink and the downlink over one allocator and one crypto module. A state of the
  module is the environment of the uplink, the static variables of the downlink and what the downlink handlers keep;
  a downlink operation works on a copy of the downlink that has the shared parts put in. \<open>p_abandoned\<close> counts the receive
  buffers that \<^verbatim>\<open>pouch_downlink_start\<close> has overwritten.

  Shown here: the two invariants hold together in every reachable state of any interleaving of uplink and downlink calls and work
  items, and every live buffer is accounted for.
\<close>

section \<open>State\<close>

record ('c, 'a) pouch =
  p_env :: "'c env"
  p_down :: "'c downlink"
  p_app :: 'a
  p_abandoned :: nat

definition down_view :: "('c, 'a) pouch \<Rightarrow> 'c downlink" where
  "down_view p = (p_down p)\<lparr>dl_heap := n_heap (e_node (p_env p)), dl_crypto := n_crypto (e_node (p_env p))\<rparr>"

definition put_down :: "'c downlink \<Rightarrow> ('c, 'a) pouch \<Rightarrow> ('c, 'a) pouch" where
  "put_down d p = p\<lparr>p_down := d,
     p_env := (p_env p)\<lparr>e_node := (e_node (p_env p))\<lparr>n_heap := dl_heap d, n_crypto := dl_crypto d\<rparr>\<rparr>\<rparr>"

text \<open>The static initialisers.\<close>

definition boot_downlink :: "heap \<Rightarrow> 'c \<Rightarrow> 'c downlink" where
  "boot_downlink h cr = \<lparr>dl_buf = None, dl_header = False, dl_decrypt_queue = [], dl_decrypt_work = False,
     dl_consume_queue = [], dl_consume_work = False, dl_heap = h, dl_crypto = cr\<rparr>"

definition boot_pouch :: "heap \<Rightarrow> 'c \<Rightarrow> 'a \<Rightarrow> ('c, 'a) pouch" where
  "boot_pouch h cr a = \<lparr>p_env = boot_env h cr, p_down = boot_downlink h cr, p_app = a, p_abandoned = 0\<rparr>"

definition pouch_init ::
  "(pouch_config \<Rightarrow> 'c \<Rightarrow> (ret \<times> 'c) option) \<Rightarrow> pouch_config \<Rightarrow> ('c, 'a) pouch \<Rightarrow> (ret \<times> ('c, 'a) pouch) option" where
  "pouch_init crypto_init cfg p =
     (let p = p\<lparr>p_down := downlink_init (p_down p)\<rparr>;
          s = uplink_init (e_node (p_env p)) in
      do { (err, cr) \<leftarrow> crypto_init cfg (n_crypto s);
           Some (err, p\<lparr>p_env := (p_env p)\<lparr>e_node := s\<lparr>n_crypto := cr\<rparr>\<rparr>\<rparr>) })"

section \<open>Calls\<close>

datatype module_call =
    Up api_call
  | Down_start
  | Down_push "byte list"
  | Down_finish
  | Decrypt_work
  | Consume_work

text \<open>
  What is asked of a call: of an uplink call what the uplink asks, and of the consuming work item that the block it
  takes is one that the parser can take.
\<close>

fun module_call_ok :: "config \<Rightarrow> module_call \<Rightarrow> ('c, 'a) pouch \<Rightarrow> bool" where
  "module_call_ok c (Up k) p = call_ok c k (p_env p)"
| "module_call_ok c Consume_work p = (case dl_consume_queue (p_down p) of [] \<Rightarrow> True | b # _ \<Rightarrow> parseable (contents b))"
| "module_call_ok c _ p = True"

fun exec_module ::
  "config \<Rightarrow> header_codec \<Rightarrow> 'c crypto_ops \<Rightarrow> 'a pouch_downlink_handler list \<Rightarrow> module_call \<Rightarrow> ('c, 'a) pouch \<Rightarrow> ('c, 'a) pouch option" where
  "exec_module c codec ops hs (Up k) p =
     do { e \<leftarrow> exec_call c codec ops k (p_env p); Some (p\<lparr>p_env := e\<rparr>) }"
| "exec_module c codec ops hs Down_start p =
     Some ((put_down (pouch_downlink_start c (down_view p)) p)
             \<lparr>p_abandoned := p_abandoned p + (if dl_buf (p_down p) = None then 0 else 1)\<rparr>)"
| "exec_module c codec ops hs (Down_push xs) p =
     do { d \<leftarrow> pouch_downlink_push c codec ops xs (down_view p); Some (put_down d p) }"
| "exec_module c codec ops hs Down_finish p = Some (put_down (pouch_downlink_finish (down_view p)) p)"
| "exec_module c codec ops hs Decrypt_work p =
     do { d \<leftarrow> run_decrypt_work ops (down_view p); Some (put_down d p) }"
| "exec_module c codec ops hs Consume_work p =
     do { (d, a) \<leftarrow> run_consume_work hs (down_view p) (p_app p); Some ((put_down d p)\<lparr>p_app := a\<rparr>) }"

inductive module_reachable ::
  "config \<Rightarrow> header_codec \<Rightarrow> 'c crypto_ops \<Rightarrow> 'a pouch_downlink_handler list \<Rightarrow> ('c, 'a) pouch \<Rightarrow> ('c, 'a) pouch \<Rightarrow> bool"
  for c codec ops hs p0 where
  module_init: "module_reachable c codec ops hs p0 p0"
| module_step: "module_reachable c codec ops hs p0 p \<Longrightarrow> module_call_ok c k p \<Longrightarrow> exec_module c codec ops hs k p = Some p'
    \<Longrightarrow> module_reachable c codec ops hs p0 p'"

section \<open>Invariant\<close>

definition dl_held :: "'c downlink \<Rightarrow> int" where
  "dl_held d = own (dl_buf d) + int (length (dl_decrypt_queue d)) + int (length (dl_consume_queue d))"

lemma dl_balance_held: "dl_balance d = bufs (dl_heap d) - dl_held d"
  by (simp add: dl_balance_def dl_held_def)

definition module_inv :: "config \<Rightarrow> ('c \<Rightarrow> bool) \<Rightarrow> ('c, 'a) pouch \<Rightarrow> bool" where
  "module_inv c cinv p \<longleftrightarrow>
     env_inv c cinv (dl_held (p_down p) + int (p_abandoned p)) (p_env p) \<and> downlink_inv c cinv (down_view p)"

lemma env_inv_shared:
  assumes "env_inv c cinv x e" "bufs h - y = bufs (n_heap (e_node e)) - x" "cinv cr"
  shows "env_inv c cinv y (e\<lparr>e_node := (e_node e)\<lparr>n_heap := h, n_crypto := cr\<rparr>\<rparr>)"
  using assms by (auto simp: env_inv_def node_inv_def balance_def owned_def pending_def header_bytes_def flag_tests)

lemma down_view_shared: "downlink_inv c cinv d \<Longrightarrow> cinv cr \<Longrightarrow> downlink_inv c cinv (d\<lparr>dl_heap := h, dl_crypto := cr\<rparr>)"
  by (simp add: downlink_inv_def downlink_core_def rx_room_def)

lemma down_view_fields [simp]:
  "dl_buf (down_view p) = dl_buf (p_down p)" "dl_decrypt_queue (down_view p) = dl_decrypt_queue (p_down p)"
  "dl_consume_queue (down_view p) = dl_consume_queue (p_down p)" "dl_heap (down_view p) = n_heap (e_node (p_env p))"
  "dl_held (down_view p) = dl_held (p_down p)" "dl_crypto (down_view p) = n_crypto (e_node (p_env p))"
  by (simp_all add: down_view_def dl_held_def)

text \<open>A downlink operation that keeps the downlink's invariant and accounts for its buffers keeps that of the module.\<close>

lemma module_inv_put_down:
  assumes "module_inv c cinv p" "downlink_inv c cinv d" "dl_balance d = dl_balance (down_view p) + int k"
  shows "module_inv c cinv ((put_down d p)\<lparr>p_abandoned := p_abandoned p + k\<rparr>)"
proof -
  have "cinv (dl_crypto d)" using assms(2) by (simp add: downlink_inv_def downlink_core_def)
  moreover have "bufs (dl_heap d) - (dl_held d + int (p_abandoned p + k)) =
      bufs (n_heap (e_node (p_env p))) - (dl_held (p_down p) + int (p_abandoned p))"
    using assms(3) by (simp add: dl_balance_held)
  moreover have "env_inv c cinv (dl_held (p_down p) + int (p_abandoned p)) (p_env p)"
    using assms(1) by (simp add: module_inv_def)
  ultimately have "env_inv c cinv (dl_held d + int (p_abandoned p + k))
      ((p_env p)\<lparr>e_node := (e_node (p_env p))\<lparr>n_heap := dl_heap d, n_crypto := dl_crypto d\<rparr>\<rparr>)"
    by (intro env_inv_shared)
  moreover have "down_view ((put_down d p)\<lparr>p_abandoned := p_abandoned p + k\<rparr>) = d"
    by (simp add: down_view_def put_down_def)
  ultimately show ?thesis using assms(2) by (simp add: module_inv_def put_down_def)
qed

lemma module_inv_put_down_0:
  assumes "module_inv c cinv p" "downlink_inv c cinv d" "dl_balance d = dl_balance (down_view p)"
  shows "module_inv c cinv (put_down d p)"
  using module_inv_put_down [OF assms(1,2), of 0] assms(3) by (simp add: put_down_def)

lemma downlink_start_spec:
  assumes "valid_config c" "downlink_inv c cinv d"
  shows "downlink_inv c cinv (pouch_downlink_start c d)"
    and "dl_balance (pouch_downlink_start c d) = dl_balance d + own (dl_buf d)"
proof -
  obtain b h where a: "buf_alloc (MAX_CIPHERTEXT_BLOCK_SIZE c) (dl_heap d) = (b, h)" by fastforce
  have b: "bufs h = bufs (dl_heap d) + own b" using bufs_buf_alloc [OF a] by simp
  have "rx_buf_ok c b"
    using buf_alloc_Some [of "MAX_CIPHERTEXT_BLOCK_SIZE c" "dl_heap d"] a valid_config_sizes [OF assms(1)]
    by (auto simp: rx_buf_ok_def split: option.split)
  with a b assms(2) show "downlink_inv c cinv (pouch_downlink_start c d)"
    "dl_balance (pouch_downlink_start c d) = dl_balance d + own (dl_buf d)"
    by (simp_all add: pouch_downlink_start_def downlink_inv_def downlink_core_def rx_room_def dl_balance_def)
qed

section \<open>Every call keeps the invariant and none faults\<close>

context crypto_provider
begin

lemma exec_module_inv:
  assumes "encoder_bounded codec" "module_inv c cinv p" "module_call_ok c k p" "handlers_total hs"
  shows "\<exists>p'. exec_module c codec ops hs k p = Some p' \<and> module_inv c cinv p'"
proof (cases k)
  case (Up k')
  then obtain e where e: "exec_call c codec ops k' (p_env p) = Some e"
    "env_inv c cinv (dl_held (p_down p) + int (p_abandoned p)) e"
    using exec_call_inv [OF assms(1), of _ "p_env p" k'] assms(2,3) by (auto simp: module_inv_def)
  have "cinv (n_crypto (e_node e))" using e(2) by (simp add: env_inv_def)
  then have "downlink_inv c cinv ((down_view p)\<lparr>dl_heap := n_heap (e_node e), dl_crypto := n_crypto (e_node e)\<rparr>)"
    using assms(2) by (intro down_view_shared) (simp_all add: module_inv_def)
  with e Up show ?thesis by (simp add: module_inv_def down_view_def)
next
  case Down_start
  have "downlink_inv c cinv (down_view p)" using assms(2) by (simp add: module_inv_def)
  note st = downlink_start_spec [OF config_ok this]
  let ?k = "if dl_buf (p_down p) = None then 0 else 1"
  have "module_inv c cinv ((put_down (pouch_downlink_start c (down_view p)) p)\<lparr>p_abandoned := p_abandoned p + ?k\<rparr>)"
    using st(2) by (intro module_inv_put_down [OF assms(2) st(1)]) (auto split: option.splits)
  with Down_start show ?thesis by simp
next
  case (Down_push xs)
  have "downlink_inv c cinv (down_view p)" using assms(2) by (simp add: module_inv_def)
  then obtain bs d where "pouch_downlink_push c codec ops xs (down_view p) = Some d" "push_post c cinv xs (down_view p) bs d"
    using push_spec by blast
  with Down_push assms(2) show ?thesis by (auto simp: push_post_def intro!: module_inv_put_down_0)
next
  case Down_finish
  have "downlink_inv c cinv (down_view p)" using assms(2) by (simp add: module_inv_def)
  from module_inv_put_down_0 [OF assms(2) this] Down_finish show ?thesis by (simp add: pouch_downlink_finish_def)
next
  case Decrypt_work
  have "downlink_inv c cinv (down_view p)" using assms(2) by (simp add: module_inv_def)
  then obtain d where "run_decrypt_work ops (down_view p) = Some d" "downlink_inv c cinv d" "dl_balance d = dl_balance (down_view p)"
    using run_decrypt_spec by blast
  with Decrypt_work assms(2) show ?thesis by (auto intro!: module_inv_put_down_0)
next
  case Consume_work
  have inv: "downlink_inv c cinv (down_view p)" using assms(2) by (simp add: module_inv_def)
  have "list_all wf_buf (dl_consume_queue (p_down p))" using inv by (simp add: downlink_inv_def downlink_core_def)
  then have "run_consume_work hs (down_view p) (p_app p) \<noteq> None"
    using assms(3,4) Consume_work block_push_total [OF _ assms(4)]
    by (cases "dl_consume_queue (p_down p)") (auto simp: run_consume_spec [OF inv])
  then obtain d a where d: "run_consume_work hs (down_view p) (p_app p) = Some (d, a)" by auto
  have "module_inv c cinv (put_down d p)" using module_inv_put_down_0 [OF assms(2) run_consume_inv [OF inv d]] .
  then have "module_inv c cinv ((put_down d p)\<lparr>p_app := a\<rparr>)" by (simp add: module_inv_def down_view_def)
  with Consume_work d show ?thesis by simp
qed

lemma module_reachable_inv:
  assumes "encoder_bounded codec" "module_inv c cinv p0" "handlers_total hs"
  shows "module_reachable c codec ops hs p0 p \<Longrightarrow> module_inv c cinv p"
proof (induction rule: module_reachable.induct)
  case module_init
  show ?case by (rule assms(2))
next
  case (module_step p k p')
  then show ?case using exec_module_inv [OF assms(1), of p k hs] assms(3) by auto
qed

lemma module_reachable_safe:
  assumes "encoder_bounded codec" "module_inv c cinv p0" "handlers_total hs" "module_reachable c codec ops hs p0 p" "module_call_ok c k p"
  shows "exec_module c codec ops hs k p \<noteq> None"
  using exec_module_inv [OF assms(1) module_reachable_inv [OF assms(1-4)] assms(5,3)] by auto

end

text \<open>The live buffers are those that the uplink, its streams and the downlink hold, and those that have been overwritten.\<close>

lemma module_inv_bufs:
  "module_inv c cinv p \<Longrightarrow> bufs (n_heap (e_node (p_env p))) =
     owned (e_node (p_env p)) + int (length (e_streams (p_env p))) + dl_held (p_down p) + int (p_abandoned p)"
  by (simp add: module_inv_def env_inv_def balance_def)

section \<open>Start-up\<close>

lemma pouch_init_boot:
  assumes "bufs h = 0" "crypto_init cfg cr = Some (err, cr')" "cinv cr'"
  shows "\<exists>p. pouch_init crypto_init cfg (boot_pouch h cr a) = Some (err, p) \<and> module_inv c cinv p"
proof -
  let ?e = "boot_env h cr"
  have u: "uplink_init (e_node ?e) = e_node ?e" by (simp add: boot_env_def boot_node_def uplink_init_def map_up_def)
  have "env_inv c cinv 0 (boot_env h cr')" using assms(1,3) by (rule env_inv_boot)
  moreover have "boot_env h cr' = ?e\<lparr>e_node := (e_node ?e)\<lparr>n_crypto := cr'\<rparr>\<rparr>"
    by (simp add: boot_env_def boot_node_def uplink_init_def map_up_def)
  ultimately show ?thesis
    using assms(2,3) u
    by (auto simp: pouch_init_def boot_pouch_def Let_def boot_downlink_def downlink_init_def buf_queue_init_def module_inv_def
        down_view_def dl_held_def downlink_inv_def downlink_core_def rx_room_def rx_buf_ok_def boot_env_def boot_node_def uplink_init_def map_up_def)
qed

text \<open>With the encrypted module.\<close>

lemma pouch_init_saead:
  assumes "pouch_init (saead_crypto_init tls) cfg (boot_pouch h cr x) = Some (r, p)" "saead_inv cr" "bufs h = 0"
  shows "module_inv c saead_inv p"
proof -
  obtain cr' where "saead_crypto_init tls cfg cr = Some (r, cr')"
    using assms(1) by (auto simp: pouch_init_def boot_pouch_def Let_def boot_env_def boot_node_def uplink_init_def map_up_def split: bind_splits)
  moreover from this have "saead_inv cr'" using assms(2) by (rule saead_crypto_init_inv)
  ultimately show ?thesis
    using pouch_init_boot [where crypto_init = "saead_crypto_init tls" and cinv = saead_inv and cr = cr and a = x and c = c, OF assms(3)] assms(1) by fastforce
qed

end
