(* ===== verification/Credentials.thy ===== *)
theory Credentials
  imports Session
begin

text \<open>
  The credentials of the node application, \<^verbatim>\<open>examples/ble_gatt/src/credentials.c\<close>: a certificate and a private key are read from
  files. The file system, the allocator's answer and the key import are parameters; the state is that of the file system and the number of
  buffers from \<^verbatim>\<open>malloc\<close> that have not been freed.

  Shown here: a file that can be read is what the library is configured with; no path loses a buffer; an empty file is not noticed, so that
  the key is read and freed through a pointer that was never set.
\<close>

text \<open>The state of a file is its type (whether it is a regular file) and its size. A read gives at most as many bytes as asked for.\<close>

record 'f fs_ops =
  fs_stat :: "cstr \<Rightarrow> 'f \<Rightarrow> (errno + bool \<times> nat) \<times> 'f"
  fs_mkdir :: "cstr \<Rightarrow> 'f \<Rightarrow> ret \<times> 'f"
  fs_open :: "cstr \<Rightarrow> 'f \<Rightarrow> (errno + nat) \<times> 'f"
  fs_read :: "nat \<Rightarrow> nat \<Rightarrow> 'f \<Rightarrow> (errno + byte list) \<times> 'f"
  fs_close :: "nat \<Rightarrow> 'f \<Rightarrow> ret \<times> 'f"

record 'k pk_ops =
  mbedtls_pk_parse_key :: "byte list \<Rightarrow> 'k option"
  mbedtls_pk_import_into_psa :: "'k \<Rightarrow> u32 option"

definition import_raw_pk :: "'k pk_ops \<Rightarrow> byte list \<Rightarrow> u32" where
  "import_raw_pk pk private_key =
     (case mbedtls_pk_parse_key pk private_key of
        None \<Rightarrow> PSA_KEY_ID_NULL
      | Some k \<Rightarrow> (case mbedtls_pk_import_into_psa pk k of None \<Rightarrow> PSA_KEY_ID_NULL | Some key_id \<Rightarrow> key_id))"

definition ensure_credentials_dir :: "'f fs_ops \<Rightarrow> cstr \<Rightarrow> 'f \<Rightarrow> 'f" where
  "ensure_credentials_dir fs dir f =
     (case fs_stat fs dir f of (r, f) \<Rightarrow> if r = Inl ENOENT then snd (fs_mkdir fs dir f) else f)"

definition get_file_size :: "'f fs_ops \<Rightarrow> cstr \<Rightarrow> 'f \<Rightarrow> (errno + nat) \<times> 'f" where
  "get_file_size fs path f =
     (case fs_stat fs path f of
        (Inl e, f) \<Rightarrow> (Inl e, f)
      | (Inr (is_file, len), f) \<Rightarrow> (if is_file then Inr len else Inl EISDIR, f))"

text \<open>The result and what \<^verbatim>\<open>*out\<close> has been set to, if it has been set.\<close>

definition read_file ::
  "'f fs_ops \<Rightarrow> (nat \<Rightarrow> bool) \<Rightarrow> cstr \<Rightarrow> cstr \<Rightarrow> 'f \<times> int \<Rightarrow> (errno + nat) \<times> byte list option \<times> 'f \<times> int" where
  "read_file fs alloc_ok dir path = (\<lambda>(f, live).
     (case get_file_size fs path (ensure_credentials_dir fs dir f) of
        (Inl e, f) \<Rightarrow> (Inl e, None, f, live)
      | (Inr len, f) \<Rightarrow>
          if len = 0 then (Inr 0, None, f, live)
          else if \<not> alloc_ok len then (Inl ENOMEM, None, f, live)
          else let live = live + 1 in
            (case fs_open fs path f of
              (Inl e, f) \<Rightarrow> (Inl e, None, f, live - 1)
            | (Inr file, f) \<Rightarrow>
                (case fs_read fs file len f of
                   (Inl e, f) \<Rightarrow> (Inl e, None, snd (fs_close fs file f), live - 1)
                 | (Inr xs, f) \<Rightarrow> (Inr (length xs), Some xs, snd (fs_close fs file f), live)))))"

text \<open>A pointer that has not been set cannot be read through or freed.\<close>

definition load_private_key ::
  "'f fs_ops \<Rightarrow> 'k pk_ops \<Rightarrow> (nat \<Rightarrow> bool) \<Rightarrow> cstr \<Rightarrow> 'f \<times> int \<Rightarrow> (u32 \<times> 'f \<times> int) option" where
  "load_private_key fs pk alloc_ok dir m =
     (case read_file fs alloc_ok dir (dir @ cstr ''/key.der'') m of
        (Inl _, _, m) \<Rightarrow> Some (PSA_KEY_ID_NULL, m)
      | (Inr len, None, m) \<Rightarrow> None
      | (Inr len, Some buf, (f, live)) \<Rightarrow> Some (import_raw_pk pk buf, f, live - 1))"

text \<open>\<open>stray\<close> is what the variable on the stack points to when it has not been set.\<close>

definition load_certificate ::
  "'f fs_ops \<Rightarrow> (nat \<Rightarrow> bool) \<Rightarrow> byte list option \<Rightarrow> cstr \<Rightarrow> pouch_cert \<Rightarrow> 'f \<times> int \<Rightarrow> ret \<times> pouch_cert \<times> 'f \<times> int" where
  "load_certificate fs alloc_ok stray dir cert m =
     (case read_file fs alloc_ok dir (dir @ cstr ''/crt.der'') m of
        (Inl e, _, m) \<Rightarrow> (Err e, cert, m)
      | (Inr len, buf, m) \<Rightarrow> (OK, \<lparr>pc_buffer = (case buf of None \<Rightarrow> stray | Some xs \<Rightarrow> Some xs), pc_size = len\<rparr>, m))"

text \<open>Freeing a null pointer does nothing; \<open>from_malloc\<close> is whether any other pointer is one that \<^verbatim>\<open>malloc\<close> has given, without which it is undefined.\<close>

definition free_certificate :: "bool \<Rightarrow> pouch_cert \<Rightarrow> 'f \<times> int \<Rightarrow> ('f \<times> int) option" where
  "free_certificate from_malloc cert = (\<lambda>(f, live).
     if pc_buffer cert = None then Some (f, live) else if from_malloc then Some (f, live - 1) else None)"

text \<open>A file that can be read.\<close>

definition file_reads :: "'f fs_ops \<Rightarrow> cstr \<Rightarrow> byte list \<Rightarrow> bool" where
  "file_reads fs path xs \<longleftrightarrow> (\<forall>f. fst (fs_stat fs path f) = Inr (True, length xs))
     \<and> (\<forall>f. \<exists>file f'. fs_open fs path f = (Inr file, f') \<and> (\<forall>f. fst (fs_read fs file (length xs) f) = Inr xs))"

lemma read_file_contents:
  assumes "file_reads fs path xs" "alloc_ok (length xs)"
  shows "\<exists>f'. read_file fs alloc_ok dir path (f, live) =
    (Inr (length xs), if xs = [] then None else Some xs, f', live + (if xs = [] then 0 else 1))"
proof -
  let ?f = "ensure_credentials_dir fs dir f"
  obtain f1 where 1: "fs_stat fs path ?f = (Inr (True, length xs), f1)"
    using assms(1) unfolding file_reads_def by (metis prod.collapse)
  obtain fd f2 where 2: "fs_open fs path f1 = (Inr fd, f2)" "\<forall>f. fst (fs_read fs fd (length xs) f) = Inr xs"
    using assms(1) unfolding file_reads_def by blast
  obtain f3 where 3: "fs_read fs fd (length xs) f2 = (Inr xs, f3)" using 2(2) by (metis prod.collapse)
  from 1 2(1) 3 assms(2) show ?thesis by (auto simp: read_file_def get_file_size_def)
qed

text \<open>A buffer stays exactly if the caller's pointer has been set to it.\<close>

lemma read_file_live:
  assumes "read_file fs alloc_ok dir path m = (r, out, m')"
  shows "snd m' = snd m + (if out = None then 0 else 1)" "out \<noteq> None \<Longrightarrow> \<exists>n. r = Inr n" "r = Inr n \<Longrightarrow> out = None \<Longrightarrow> n = 0"
  using assms by (auto simp: read_file_def Let_def split: prod.splits sum.splits if_splits)

lemma load_private_key_live:
  assumes "load_private_key fs pk alloc_ok dir m = Some (key, m')"
  shows "snd m' = snd m"
proof -
  obtain r out m1 where "read_file fs alloc_ok dir (dir @ cstr ''/key.der'') m = (r, out, m1)" by (metis prod.exhaust)
  with read_file_live [OF this] assms show ?thesis
    by (cases r; cases out) (auto simp: load_private_key_def split_beta)
qed

lemma load_certificate_live:
  assumes "load_certificate fs alloc_ok stray dir cert m = (r, cert', m')"
  shows "case r of Err e \<Rightarrow> cert' = cert \<and> snd m' = snd m
    | OK \<Rightarrow> snd m' = snd m + 1 \<and> free_certificate True cert' m' = Some (fst m', snd m) \<or> snd m' = snd m \<and> pc_size cert' = 0 \<and> pc_buffer cert' = stray"
proof -
  obtain r1 out m1 where 1: "read_file fs alloc_ok dir (dir @ cstr ''/crt.der'') m = (r1, out, m1)" by (metis prod.exhaust)
  with read_file_live [OF 1] assms show ?thesis
    by (cases r1; cases out) (auto simp: load_certificate_def free_certificate_def split_beta)
qed

end
