(* ===== verification/App.thy ===== *)
theory App
  imports Reports Module Credentials
begin

text \<open>
  The node application, \<^verbatim>\<open>examples/ble_gatt/src/main.c\<close> with its sensors, \<^verbatim>\<open>sensors/sensors.c\<close> and \<^verbatim>\<open>sensors/water_sensor.c\<close>, and the
  registration of the BLE service, \<^verbatim>\<open>src/transport/ble_gatt/peripheral.c\<close>. The board (Bluetooth, GPIO, and whether a mutex can be had
  without waiting) is a parameter; a delayable work item is whether it is scheduled.

  Shown here: the event handler meets the contract of the event loop; a session start appends the water report and the status
  reports to the uplink and closes it; \<^verbatim>\<open>main\<close> gets to its loop with the library initialised.
\<close>

section \<open>State\<close>

record 'b board_ops =
  bt_gatt_service_register :: "'b \<Rightarrow> ret \<times> 'b"
  bt_enable :: "'b \<Rightarrow> ret \<times> 'b"
  bt_le_adv_start :: "byte option \<Rightarrow> 'b \<Rightarrow> ret \<times> 'b"
  bt_le_adv_update_data :: "byte \<Rightarrow> 'b \<Rightarrow> ret \<times> 'b"
  has_led :: bool
  led_configure :: "'b \<Rightarrow> ret \<times> 'b"
  led_set :: "bool \<Rightarrow> 'b \<Rightarrow> 'b"
  water_port :: bool
  water_ready :: "'b \<Rightarrow> bool"
  water_configure :: "'b \<Rightarrow> ret \<times> 'b"
  water_get :: "'b \<Rightarrow> int \<times> 'b"
  entry_lock_no_wait :: "'b \<Rightarrow> ret"

text \<open>
  Advertising starts with the service data, of which the flags vary, or without it; the flags are all that an update changes.
\<close>

record 'b app =
  ap_board :: 'b
  service_flags :: byte
  sync_request_work :: bool
  disconnect_work :: bool
  pouch_session_active :: bool
  last_water_state :: bool
  water_report_work :: bool

section \<open>The water sensor\<close>

definition POUCH_CONTENT_TYPE_JSON :: u16 where
  "POUCH_CONTENT_TYPE_JSON = 50"

definition water_payload :: "bool \<Rightarrow> byte list" where
  "water_payload wet = cstr ''{'' @ [0x22] @ cstr ''water_present'' @ [0x22] @ (if wet then cstr '':true}'' else cstr '':false}'')"

definition water_report_internal :: "config \<Rightarrow> 'b board_ops \<Rightarrow> 'c node \<times> 'b app \<Rightarrow> ('c node \<times> 'b app) option" where
  "water_report_internal c bd = (\<lambda>(s, a).
     if \<not> water_port bd \<or> \<not> water_ready bd (ap_board a) then Some (s, a)
     else case water_get bd (ap_board a) of
         (val, b) \<Rightarrow>
           let a = a\<lparr>ap_board := b\<rparr> in
           if val < 0 then Some (s, a)
           else let water_detected = (val > 0);
                    a = (if water_detected \<noteq> last_water_state a then a\<lparr>last_water_state := water_detected\<rparr> else a) in
             if pouch_session_active a
             then do { (_, s) \<leftarrow> pouch_uplink_entry_write c (entry_lock_no_wait bd (ap_board a)) (Some (cstr ''.s/water''))
                                   POUCH_CONTENT_TYPE_JSON (Some (water_payload water_detected)) s;
                       Some (s, a) }
             else Some (s, a))"

definition water_report_work_handler :: "config \<Rightarrow> 'b board_ops \<Rightarrow> 'c node \<times> 'b app \<Rightarrow> ('c node \<times> 'b app) option" where
  "water_report_work_handler c bd x =
     do { (s, a) \<leftarrow> water_report_internal c bd x; Some (s, a\<lparr>water_report_work := True\<rparr>) }"

definition water_sensor_init :: "'b board_ops \<Rightarrow> 'b app \<Rightarrow> ret \<times> 'b app" where
  "water_sensor_init bd a =
     (if \<not> water_port bd then (Err ENODEV, a)
      else if \<not> water_ready bd (ap_board a) then (Err ENODEV, a)
      else case water_configure bd (ap_board a) of
          (Err e, b) \<Rightarrow> (Err e, a\<lparr>ap_board := b\<rparr>)
        | (OK, b) \<Rightarrow>
            (case water_get bd b of
               (val, b) \<Rightarrow> (OK, a\<lparr>ap_board := b, last_water_state := (\<not> val < 0 \<and> val > 0), water_report_work := True\<rparr>)))"

definition water_sensor_pouch_session_start :: "config \<Rightarrow> 'b board_ops \<Rightarrow> 'c node \<times> 'b app \<Rightarrow> ('c node \<times> 'b app) option" where
  "water_sensor_pouch_session_start c bd = (\<lambda>(s, a). water_report_internal c bd (s, a\<lparr>pouch_session_active := True\<rparr>))"

definition water_sensor_pouch_session_end :: "'b app \<Rightarrow> 'b app" where
  "water_sensor_pouch_session_end a = a\<lparr>pouch_session_active := False\<rparr>"

definition sensors_init_all :: "'b board_ops \<Rightarrow> 'b app \<Rightarrow> ret \<times> 'b app" where
  "sensors_init_all bd a = (case water_sensor_init bd a of (Err e, a) \<Rightarrow> (Err e, a) | (OK, a) \<Rightarrow> (OK, a))"

definition sensors_pouch_session_start :: "config \<Rightarrow> 'b board_ops \<Rightarrow> 'c node \<times> 'b app \<Rightarrow> ('c node \<times> 'b app) option" where
  "sensors_pouch_session_start c bd x = water_sensor_pouch_session_start c bd x"

definition sensors_pouch_session_end :: "'b app \<Rightarrow> 'b app" where
  "sensors_pouch_session_end a = water_sensor_pouch_session_end a"

section \<open>Callbacks and work items\<close>

definition connected :: "'b app \<Rightarrow> 'b app" where
  "connected a = a"

definition disconnect_work_handler :: "'b board_ops \<Rightarrow> 'b app \<Rightarrow> 'b app" where
  "disconnect_work_handler bd a = a\<lparr>ap_board := snd (bt_le_adv_start bd (Some (service_flags a)) (ap_board a))\<rparr>"

definition disconnected :: "'b app \<Rightarrow> 'b app" where
  "disconnected a = a\<lparr>disconnect_work := True\<rparr>"

definition sync_request_work_handler :: "'b board_ops \<Rightarrow> 'b app \<Rightarrow> 'b app" where
  "sync_request_work_handler bd a =
     (let a = a\<lparr>service_flags := 0x01\<rparr> in a\<lparr>ap_board := snd (bt_le_adv_update_data bd (service_flags a) (ap_board a))\<rparr>)"

definition pouch_event_handler ::
  "config \<Rightarrow> 'b board_ops \<Rightarrow> ('c node \<Rightarrow> 'c node option) option list \<Rightarrow> ('c, 'b app) event_handler" where
  "pouch_event_handler c bd services event x =
     do { (s, a) \<leftarrow> (if event = POUCH_EVENT_SESSION_START
                     then do { (s, a) \<leftarrow> sensors_pouch_session_start c bd x;
                               (_, s) \<leftarrow> golioth_sync_to_cloud services s;
                               Some (s, a) }
                     else Some x);
          Some (if event = POUCH_EVENT_SESSION_END
                then let a = (sensors_pouch_session_end a)\<lparr>service_flags := 0x00\<rparr>;
                         a = a\<lparr>ap_board := snd (bt_le_adv_update_data bd (service_flags a) (ap_board a))\<rparr> in
                     (s, a\<lparr>sync_request_work := True\<rparr>)
                else (s, a)) }"

definition led_setting_cb :: "'b board_ops \<Rightarrow> bool \<Rightarrow> 'b app \<Rightarrow> (ret \<times> 'b app) option" where
  "led_setting_cb bd new_value a =
     Some (OK, if has_led bd then a\<lparr>ap_board := led_set bd new_value (ap_board a)\<rparr> else a)"

definition led_handler :: "'b board_ops \<Rightarrow> 'b app golioth_settings_handler" where
  "led_handler bd = GOLIOTH_SETTINGS_HANDLER (cstr ''LED'') (Bool_cb (led_setting_cb bd))"

section \<open>Start-up\<close>

definition golioth_ble_gatt_peripheral_init :: "'b board_ops \<Rightarrow> 'b \<Rightarrow> ret \<times> 'b" where
  "golioth_ble_gatt_peripheral_init bd b = bt_gatt_service_register bd b"

fun blink :: "'b board_ops \<Rightarrow> nat \<Rightarrow> 'b \<Rightarrow> 'b" where
  "blink bd 0 b = b"
| "blink bd (Suc n) b = blink bd n (led_set bd False (led_set bd True b))"

text \<open>
  The application, the library, and the files the credentials come from. The result of \<^verbatim>\<open>main\<close> is whether it got to its endless loop.
\<close>

record ('c, 'b, 'f, 'k) main_env =
  me_board :: "'b board_ops"
  me_fs :: "'f fs_ops"
  me_pk :: "'k pk_ops"
  me_alloc_ok :: "nat \<Rightarrow> bool"
  me_stray :: "byte list option"
  me_dir :: cstr
  me_crypto_init :: "pouch_config \<Rightarrow> 'c \<Rightarrow> (ret \<times> 'c) option"

definition app_main ::
  "('c, 'b, 'f, 'k) main_env \<Rightarrow> 'f \<times> int \<Rightarrow> 'b app \<Rightarrow> ('c, 'x) pouch \<Rightarrow> (bool \<times> 'b app \<times> ('c, 'x) pouch) option" where
  "app_main env f a p =
     (let bd = me_board env;
          b = (if has_led bd
               then case led_configure bd (ap_board a) of (r, b) \<Rightarrow> if r = OK then blink bd 3 b else b
               else ap_board a) in
      case golioth_ble_gatt_peripheral_init bd b of
        (Err _, b) \<Rightarrow> Some (False, a\<lparr>ap_board := b\<rparr>, p)
      | (OK, b) \<Rightarrow>
      (case bt_enable bd b of
        (Err _, b) \<Rightarrow> Some (False, a\<lparr>ap_board := b\<rparr>, p)
      | (OK, b) \<Rightarrow>
      (case load_certificate (me_fs env) (me_alloc_ok env) (me_stray env) (me_dir env) \<lparr>pc_buffer = None, pc_size = 0\<rparr> f of
        (Err _, _, f) \<Rightarrow> Some (False, a\<lparr>ap_board := b\<rparr>, p)
      | (OK, cert, f) \<Rightarrow>
      (case load_private_key (me_fs env) (me_pk env) (me_alloc_ok env) (me_dir env) f of
        None \<Rightarrow> None
      | Some (key, f) \<Rightarrow>
          if key = PSA_KEY_ID_NULL then Some (False, a\<lparr>ap_board := b\<rparr>, p)
          else
      (case pouch_init (me_crypto_init env) \<lparr>cfg_device_id = None, cfg_certificate = cert, cfg_private_key = key\<rparr> p of
        None \<Rightarrow> None
      | Some (Err _, p) \<Rightarrow> Some (False, a\<lparr>ap_board := b\<rparr>, p)
      | Some (OK, p) \<Rightarrow>
      (case bt_le_adv_start bd None b of
        (Err _, b) \<Rightarrow> Some (False, a\<lparr>ap_board := b\<rparr>, p)
      | (OK, b) \<Rightarrow>
          let b = (if has_led bd then snd (led_configure bd b) else b);
              a = snd (sensors_init_all bd (a\<lparr>ap_board := b\<rparr>)) in
          Some (True, a\<lparr>sync_request_work := True\<rparr>, p)))))))"

section \<open>Events\<close>

datatype app_event = Connected | Disconnected | Disconnect_work | Sync_work | Water_work

text \<open>A work item runs if it is scheduled.\<close>

fun exec_app :: "config \<Rightarrow> 'b board_ops \<Rightarrow> app_event \<Rightarrow> 'c node \<times> 'b app \<Rightarrow> ('c node \<times> 'b app) option" where
  "exec_app c bd Connected (s, a) = Some (s, connected a)"
| "exec_app c bd Disconnected (s, a) = Some (s, disconnected a)"
| "exec_app c bd Disconnect_work (s, a) =
     Some (s, if disconnect_work a then disconnect_work_handler bd (a\<lparr>disconnect_work := False\<rparr>) else a)"
| "exec_app c bd Sync_work (s, a) =
     Some (s, if sync_request_work a then sync_request_work_handler bd (a\<lparr>sync_request_work := False\<rparr>) else a)"
| "exec_app c bd Water_work (s, a) =
     (if water_report_work a then water_report_work_handler c bd (s, a\<lparr>water_report_work := False\<rparr>) else Some (s, a))"

section \<open>Lemmas\<close>

definition water_entry :: "bool \<Rightarrow> pouch_entry" where
  "water_entry wet = \<lparr>pe_path = cstr ''.s/water'', pe_content_type = POUCH_CONTENT_TYPE_JSON, pe_data = water_payload wet\<rparr>"

text \<open>The fields of the application that the sensor does not touch.\<close>

definition sensor_frame :: "'b app \<Rightarrow> 'b app \<Rightarrow> bool" where
  "sensor_frame a a' \<longleftrightarrow> service_flags a' = service_flags a \<and> sync_request_work a' = sync_request_work a
     \<and> pouch_session_active a' = pouch_session_active a \<and> water_report_work a' = water_report_work a"

text \<open>The sensor can be read and the lock of the entry block can be had.\<close>

definition sensor_works :: "'b board_ops \<Rightarrow> 'b app \<Rightarrow> bool" where
  "sensor_works bd a \<longleftrightarrow> water_port bd \<and> water_ready bd (ap_board a) \<and> 0 \<le> fst (water_get bd (ap_board a))
     \<and> entry_lock_no_wait bd (snd (water_get bd (ap_board a))) = OK"

text \<open>
  A report: a reading outside a session only updates the state, one in a session is written as an entry or lost; it is not lost
  if the sensor works and there is room.
\<close>

lemma water_report_spec:
  assumes "valid_config c" "node_inv c s"
  shows "\<exists>s' a' es. water_report_internal c bd (s, a) = Some (s', a') \<and> reported c s es s' \<and> sensor_frame a a'
    \<and> subseq es [water_entry (last_water_state a')] \<and> (\<not> pouch_session_active a \<longrightarrow> s' = s)
    \<and> (pouch_session_active a \<and> sensor_works bd a \<longrightarrow> last_water_state a' = (0 < fst (water_get bd (ap_board a)))
         \<and> reports_written c [water_entry (last_water_state a')] s es s')"
proof (cases "\<not> water_port bd \<or> \<not> water_ready bd (ap_board a) \<or> fst (water_get bd (ap_board a)) < 0 \<or> \<not> pouch_session_active a")
  case True
  then show ?thesis
    using reported_Nil [OF assms(2)] by (fastforce simp: water_report_internal_def Let_def sensor_frame_def sensor_works_def split: prod.split)
next
  case False
  obtain val b where g: "water_get bd (ap_board a) = (val, b)" by fastforce
  let ?a = "a\<lparr>ap_board := b, last_water_state := val > 0\<rparr>"
  have "length (cstr ''.s/water'') + length (water_payload (val > 0)) + 5 < SIZE_MOD"
    by (simp add: cstr_def water_payload_def SIZE_MOD_def)
  from write_reported [OF assms this, of "entry_lock_no_wait bd b" POUCH_CONTENT_TYPE_JSON, folded water_entry_def] obtain r s' where
    w: "pouch_uplink_entry_write c (entry_lock_no_wait bd b) (Some (cstr ''.s/water'')) POUCH_CONTENT_TYPE_JSON
          (Some (water_payload (val > 0))) s = Some (r, s')"
      "reported c s (if r = OK then [water_entry (val > 0)] else []) s'"
      "entry_lock_no_wait bd b = OK \<longrightarrow> reports_written c [water_entry (val > 0)] s (if r = OK then [water_entry (val > 0)] else []) s'" by blast
  have "water_report_internal c bd (s, a) = Some (s', ?a)"
    using False g w(1) by (auto simp: water_report_internal_def Let_def)
  moreover have "sensor_works bd a \<longrightarrow> reports_written c [water_entry (last_water_state ?a)] s (if r = OK then [water_entry (val > 0)] else []) s'"
    using w(3) g by (simp add: sensor_works_def)
  ultimately show ?thesis
    using w(2) False g by (intro exI [of _ s'] exI [of _ ?a] exI [of _ "if r = OK then [water_entry (val > 0)] else []"]) (simp add: sensor_frame_def)
qed

text \<open>The session start: the water report, then the status reports, and the uplink is closing.\<close>

lemma session_start_event_spec:
  assumes "valid_config c" "list_all2 (is_service c) services reports" "node_inv c s"
  shows "\<exists>s' a' es. pouch_event_handler c bd services POUCH_EVENT_SESSION_START (s, a) = Some (s', a')
    \<and> reported c s es s' \<and> subseq es (water_entry (last_water_state a') # concat reports)
    \<and> pouch_is_closing s' \<and> pouch_session_active a' \<and> sensor_frame (a\<lparr>pouch_session_active := True\<rparr>) a'
    \<and> (sensor_works bd a \<longrightarrow> last_water_state a' = (0 < fst (water_get bd (ap_board a)))
         \<and> reports_written c (water_entry (last_water_state a') # concat reports) s es s')"
proof -
  let ?a = "a\<lparr>pouch_session_active := True\<rparr>"
  obtain s1 a1 es where 1: "water_report_internal c bd (s, ?a) = Some (s1, a1)" "reported c s es s1"
    "sensor_frame ?a a1" "subseq es [water_entry (last_water_state a1)]"
    "sensor_works bd ?a \<longrightarrow> last_water_state a1 = (0 < fst (water_get bd (ap_board ?a))) \<and> reports_written c [water_entry (last_water_state a1)] s es s1"
    using water_report_spec [OF assms(1,3), of bd ?a] by auto
  have "node_inv c s1" using 1(2) by (simp add: reported_def)
  then obtain s2 fs where 2: "golioth_sync_to_cloud services s1 = Some (OK, s2)" "reports_written c (concat reports) s1 fs s2"
    "pouch_is_closing s2" using sync_to_cloud [OF assms(1,2)] by blast
  have run: "pouch_event_handler c bd services POUCH_EVENT_SESSION_START (s, a) = Some (s2, a1)"
    using 1(1) 2(1) by (simp add: pouch_event_handler_def sensors_pouch_session_start_def water_sensor_pouch_session_start_def)
  have rep: "reported c s (es @ fs) s2" "subseq (es @ fs) (water_entry (last_water_state a1) # concat reports)"
    using 1(2,4) 2(2) reported_append list_emb_append_mono [OF 1(4)] by (auto simp: reports_written_def)
  have wr: "sensor_works bd a \<longrightarrow> last_water_state a1 = (0 < fst (water_get bd (ap_board a)))
      \<and> reports_written c (water_entry (last_water_state a1) # concat reports) s (es @ fs) s2"
    using 1(5) 2(2) reports_written_append [of c "[water_entry (last_water_state a1)]" s es s1 "concat reports" fs s2]
    by (auto simp: sensor_works_def)
  have "pouch_session_active a1" using 1(3) by (simp add: sensor_frame_def)
  with run rep wr 1(3) 2(3) show ?thesis by blast
qed

lemma app_event_handlers:
  fixes services :: "('c node \<Rightarrow> 'c node option) option list"
  assumes "valid_config c" "list_all2 (is_service c) services reports"
  shows "event_handlers [pouch_event_handler c (bd :: 'b board_ops) services] (\<lambda>s a. node_inv c s)"
proof
  fix s :: "'c node" and a :: "'b app" and e
  assume inv: "node_inv c s"
  show "\<exists>s' a'. foreach_event_handler [pouch_event_handler c bd services] e (s, a) = Some (s', a') \<and> node_inv c s' \<and> n_event_q s' = n_event_q s"
  proof (cases e)
    case POUCH_EVENT_SESSION_START
    then show ?thesis using session_start_event_spec [OF assms inv, of bd a] by (auto simp: reported_def)
  next
    case POUCH_EVENT_SESSION_END
    with inv show ?thesis by (simp add: pouch_event_handler_def Let_def)
  qed
qed (simp_all add: node_inv_def)

text \<open>Once \<^verbatim>\<open>main\<close> is in its loop, the library is initialised with the credentials and a sync request is scheduled.\<close>

lemma app_main_running:
  assumes "app_main env f a (boot_pouch h cr x) = Some (True, a', p)" "bufs h = 0"
    and "\<And>cfg cr'. me_crypto_init env cfg cr = Some (OK, cr') \<Longrightarrow> cinv cr'"
  shows "module_inv c cinv p \<and> sync_request_work a'"
proof -
  obtain cfg where "pouch_init (me_crypto_init env) cfg (boot_pouch h cr x) = Some (OK, p)" "sync_request_work a'"
    using assms(1) by (auto simp: app_main_def Let_def split: prod.splits ret.splits option.splits if_splits)
  moreover from this obtain cr' where "me_crypto_init env cfg cr = Some (OK, cr')"
    by (auto simp: pouch_init_def boot_pouch_def Let_def boot_env_def boot_node_def uplink_init_def map_up_def split: bind_splits)
  ultimately show ?thesis
    using pouch_init_boot [OF assms(2), of "me_crypto_init env" cfg cr OK cr' cinv x c] assms(3) by auto
qed

end
