(* ===== verification/Node_Runs.thy ===== *)
theory Node_Runs
  imports App
begin

text \<open>
  The whole node: the library of \<open>Module\<close> and the application of \<open>App\<close> in one run. The handlers of the downlink work on the state of the
  Golioth services and on the application; the event work item calls the application's event handler with the events that the
  library has queued; the services report from the state that the downlink has left.

  Shown here: every call and every work item of the node keeps the invariant of the library, and returns; what the application writes
  from its event handler and its work items does not touch what the transport is sending; a sync request is always advertised or scheduled.
\<close>

section \<open>Runs\<close>

type_synonym ('c, 'd, 'b) whole = "('c, 'd \<times> 'b app) pouch"

datatype node_call = Library module_call | Event_work | Application app_event

definition put_app :: "'c node \<times> 'b app \<Rightarrow> ('c, 'd, 'b) whole \<Rightarrow> ('c, 'd, 'b) whole" where
  "put_app = (\<lambda>(s, a) p. p\<lparr>p_env := (p_env p)\<lparr>e_node := s\<rparr>, p_app := (fst (p_app p), a)\<rparr>)"

fun node_call_ok :: "config \<Rightarrow> node_call \<Rightarrow> ('c, 'd, 'b) whole \<Rightarrow> bool" where
  "node_call_ok c (Library k) p = module_call_ok c k p"
| "node_call_ok c _ p = True"

text \<open>A call gives no result if it faults or does not return.\<close>

fun exec_node ::
  "config \<Rightarrow> header_codec \<Rightarrow> 'c crypto_ops \<Rightarrow> ('d \<times> 'b app) pouch_downlink_handler list \<Rightarrow> 'b board_ops
     \<Rightarrow> ('d \<Rightarrow> ('c node \<Rightarrow> 'c node option) option list) \<Rightarrow> node_call \<Rightarrow> ('c, 'd, 'b) whole \<Rightarrow> ('c, 'd, 'b) whole option" where
  "exec_node c codec ops hs bd services (Library k) p = exec_module c codec ops hs k p"
| "exec_node c codec ops hs bd services Event_work p =
     do { r \<leftarrow> run_event_work [pouch_event_handler c bd (services (fst (p_app p)))] (e_node (p_env p), snd (p_app p));
          x \<leftarrow> r;
          Some (put_app x p) }"
| "exec_node c codec ops hs bd services (Application e) p =
     do { x \<leftarrow> exec_app c bd e (e_node (p_env p), snd (p_app p)); Some (put_app x p) }"

inductive node_reachable ::
  "config \<Rightarrow> header_codec \<Rightarrow> 'c crypto_ops \<Rightarrow> ('d \<times> 'b app) pouch_downlink_handler list \<Rightarrow> 'b board_ops
     \<Rightarrow> ('d \<Rightarrow> ('c node \<Rightarrow> 'c node option) option list) \<Rightarrow> ('c, 'd, 'b) whole \<Rightarrow> ('c, 'd, 'b) whole \<Rightarrow> bool"
  for c codec ops hs bd services p0 where
  node_init: "node_reachable c codec ops hs bd services p0 p0"
| node_step: "node_reachable c codec ops hs bd services p0 p \<Longrightarrow> node_call_ok c k p \<Longrightarrow> exec_node c codec ops hs bd services k p = Some p'
    \<Longrightarrow> node_reachable c codec ops hs bd services p0 p'"

text \<open>The node when \<^verbatim>\<open>main\<close> is in its loop: what it has made of the application, beside the services.\<close>

definition running :: "'b app \<Rightarrow> ('c, 'd, 'b) whole \<Rightarrow> ('c, 'd, 'b) whole" where
  "running a p = p\<lparr>p_app := (fst (p_app p), a)\<rparr>"

section \<open>What the application changes\<close>

definition extends :: "config \<Rightarrow> 'c node \<Rightarrow> 'c node \<Rightarrow> bool" where
  "extends c s s' \<longleftrightarrow> node_inv c s' \<and> balance s' = balance s \<and> transport_kept s s'"

lemma extends_refl: "node_inv c s \<Longrightarrow> extends c s s"
  by (simp add: extends_def transport_kept_def)

lemma extends_trans: "extends c s s1 \<Longrightarrow> extends c s1 s2 \<Longrightarrow> extends c s s2"
  by (simp add: extends_def transport_kept_def)

lemma reported_extends: "reported c s es s' \<Longrightarrow> extends c s s'"
  by (simp add: reported_def extends_def)

lemma event_q_irrelevant:
  "node_inv c (s\<lparr>n_event_q := q\<rparr>) = node_inv c s" "node_inv c (s\<lparr>n_event_work := w\<rparr>) = node_inv c s"
  "balance (s\<lparr>n_event_q := q\<rparr>) = balance s" "balance (s\<lparr>n_event_work := w\<rparr>) = balance s"
  "transport_kept s0 (s\<lparr>n_event_q := q\<rparr>) = transport_kept s0 s" "transport_kept s0 (s\<lparr>n_event_work := w\<rparr>) = transport_kept s0 s"
  by (simp_all add: node_inv_def balance_def owned_def transport_kept_def pending_def flag_tests)

lemma extends_event_q: "extends c s s' \<Longrightarrow> extends c s (s'\<lparr>n_event_q := q\<rparr>)" "extends c s s' \<Longrightarrow> extends c s (s'\<lparr>n_event_work := w\<rparr>)"
  by (simp_all add: extends_def event_q_irrelevant)

text \<open>A sync request is advertised, or the work item that advertises it is scheduled.\<close>

definition sync_pending :: "'b app \<Rightarrow> bool" where
  "sync_pending a \<longleftrightarrow> service_flags a = 1 \<or> sync_request_work a"

lemma sensor_frame_pending: "sensor_frame a a' \<Longrightarrow> sync_pending a' = sync_pending a"
  by (simp add: sensor_frame_def sync_pending_def)

definition goes_on :: "config \<Rightarrow> bool \<Rightarrow> 'c node \<Rightarrow> 'c node \<times> 'b app \<Rightarrow> bool" where
  "goes_on c sync s0 = (\<lambda>(s, a). extends c s0 s \<and> (sync \<longrightarrow> sync_pending a))"

lemma event_handler_goes_on:
  assumes "valid_config c" "list_all2 (is_service c) services reports" "goes_on c sync s0 (s, a)"
  shows "\<exists>s' a'. pouch_event_handler c bd services e (s, a) = Some (s', a') \<and> goes_on c sync s0 (s', a') \<and> n_event_q s' = n_event_q s"
proof (cases e)
  case POUCH_EVENT_SESSION_START
  have "node_inv c s" using assms(3) by (simp add: goes_on_def extends_def)
  then obtain s' a' es where "pouch_event_handler c bd services POUCH_EVENT_SESSION_START (s, a) = Some (s', a')" "reported c s es s'"
    "sensor_frame (a\<lparr>pouch_session_active := True\<rparr>) a'"
    using session_start_event_spec [OF assms(1,2), of s bd a] by blast
  moreover from this have "extends c s s'" "n_event_q s' = n_event_q s" "sync_pending a' = sync_pending a"
    by (simp_all add: reported_extends sensor_frame_pending) (simp_all add: reported_def sync_pending_def)
  ultimately show ?thesis using POUCH_EVENT_SESSION_START assms(3) by (auto simp: goes_on_def intro: extends_trans)
next
  case POUCH_EVENT_SESSION_END
  with assms(3) show ?thesis by (simp add: pouch_event_handler_def Let_def goes_on_def sync_pending_def)
qed

lemma whole_event_handlers:
  fixes s0 :: "'c node" and bd :: "'b board_ops"
  assumes "valid_config c" "list_all2 (is_service c) services reports"
  shows "event_handlers [pouch_event_handler c bd services] (\<lambda>s a. goes_on c sync s0 (s, a))"
proof
  fix s :: "'c node" and a :: "'b app" and e
  assume "goes_on c sync s0 (s, a)"
  from event_handler_goes_on [OF assms this, of bd e]
  show "\<exists>s' a'. foreach_event_handler [pouch_event_handler c bd services] e (s, a) = Some (s', a') \<and> goes_on c sync s0 (s', a') \<and> n_event_q s' = n_event_q s"
    by auto
qed (simp_all add: goes_on_def extends_event_q)

lemma exec_app_goes_on:
  assumes "valid_config c" "node_inv c s" "sync \<longrightarrow> sync_pending a"
  shows "\<exists>x. exec_app c bd e (s, a) = Some x \<and> goes_on c sync s x"
proof (cases e)
  case Water_work
  obtain s' a' es where "water_report_internal c bd (s, a\<lparr>water_report_work := False\<rparr>) = Some (s', a')" "reported c s es s'"
    "sensor_frame (a\<lparr>water_report_work := False\<rparr>) a'"
    using water_report_spec [OF assms(1,2), of bd "a\<lparr>water_report_work := False\<rparr>"] by blast
  with Water_work assms(3) extends_refl [OF assms(2)] show ?thesis
    by (auto simp: water_report_work_handler_def goes_on_def sync_pending_def sensor_frame_def dest: reported_extends)
qed (use assms(3) extends_refl [OF assms(2)] in \<open>auto simp: goes_on_def sync_pending_def connected_def disconnected_def
    disconnect_work_handler_def sync_request_work_handler_def Let_def\<close>)

section \<open>What the downlink handlers change\<close>

definition handlers_keep :: "('a \<Rightarrow> bool) \<Rightarrow> 'a pouch_downlink_handler list \<Rightarrow> bool" where
  "handlers_keep P hs \<longleftrightarrow> (\<forall>h \<in> set hs. (\<forall>i path ct a a'. start_cb h i path ct a = Some a' \<longrightarrow> P a \<longrightarrow> P a')
     \<and> (\<forall>i data n l a a'. data_cb h i data n l a = Some a' \<longrightarrow> P a \<longrightarrow> P a'))"

lemma downlink_start_keeps: "handlers_keep P hs \<Longrightarrow> downlink_start hs i path ct a = Some a' \<Longrightarrow> P a \<Longrightarrow> P a'"
  by (induction hs arbitrary: a) (auto simp: handlers_keep_def split: bind_splits)

lemma downlink_data_keeps: "handlers_keep P hs \<Longrightarrow> downlink_data hs i data n l a = Some a' \<Longrightarrow> P a \<Longrightarrow> P a'"
  by (induction hs arbitrary: a) (auto simp: handlers_keep_def split: bind_splits)

lemma entries_push_keeps: "pouch_downlink_entries_push hs v a = Some a' \<Longrightarrow> handlers_keep P hs \<Longrightarrow> P a \<Longrightarrow> P a'"
proof (induction hs v a rule: pouch_downlink_entries_push.induct)
  case (1 hs v a)
  show ?case
  proof (cases "pouch_bufview_available v = 0")
    case True
    with 1 show ?thesis by (simp add: pouch_downlink_entries_push.simps)
  next
    case False
    then obtain v1 a1 where o: "entries_push_one hs v a = Some (v1, a1)" "pouch_downlink_entries_push hs v1 a1 = Some a'"
      using "1.prems"(1) by (subst (asm) pouch_downlink_entries_push.simps) (auto split: option.splits)
    have "P a1"
      using o(1) "1.prems"(2,3) by (auto simp: entries_push_one_def Let_def split: bind_splits dest!: downlink_start_keeps [OF "1.prems"(2)] downlink_data_keeps [OF "1.prems"(2)])
    with 1(1) [OF False o(1) refl o(2)] "1.prems"(2) show ?thesis by blast
  qed
qed

lemma block_push_keeps:
  assumes "handlers_keep P hs"
  shows "pouch_downlink_block_push hs b a = Some a' \<Longrightarrow> P a \<Longrightarrow> P a'"
  by (auto simp: pouch_downlink_block_push_def pouch_downlink_stream_push_def Let_def split: bind_splits if_splits
      dest!: downlink_start_keeps [OF assms] downlink_data_keeps [OF assms] entries_push_keeps [OF _ assms])

lemma exec_module_keeps:
  assumes "exec_module c codec ops hs k p = Some p'" "handlers_keep P hs" "P (p_app p)"
  shows "P (p_app p')"
  using assms by (cases k) (auto simp: put_down_def run_consume_work_def consume_blocks_def Let_def dest: block_push_keeps [OF assms(2)]
      split: bind_splits if_splits option.splits prod.splits)

section \<open>Every call keeps the invariant and none faults\<close>

definition whole_inv :: "config \<Rightarrow> ('c \<Rightarrow> bool) \<Rightarrow> bool \<Rightarrow> ('c, 'd, 'b) whole \<Rightarrow> bool" where
  "whole_inv c cinv sync p \<longleftrightarrow> module_inv c cinv p \<and> (sync \<longrightarrow> sync_pending (snd (p_app p)))"

lemma whole_inv_put_app:
  assumes "whole_inv c cinv sync p" "goes_on c sync (e_node (p_env p)) x"
  shows "whole_inv c cinv sync (put_app x p)"
proof -
  obtain s a where x: "x = (s, a)" by (cases x)
  have e: "extends c (e_node (p_env p)) s" "sync \<longrightarrow> sync_pending a" using assms(2) by (simp_all add: x goes_on_def)
  have m: "env_inv c cinv (dl_held (p_down p) + int (p_abandoned p)) (p_env p)" "downlink_inv c cinv (down_view p)"
    using assms(1) by (simp_all add: whole_inv_def module_inv_def)
  have env: "env_inv c cinv (dl_held (p_down p) + int (p_abandoned p)) ((p_env p)\<lparr>e_node := s\<rparr>)"
    using m(1) e(1) by (simp add: env_inv_def extends_def transport_kept_def header_bytes_def)
  have "cinv (n_crypto s)" using env by (simp add: env_inv_def)
  from down_view_shared [OF m(2) this, of "n_heap s"] env e(2) show ?thesis
    by (simp add: whole_inv_def module_inv_def put_app_def x down_view_def)
qed

context crypto_provider
begin

lemma exec_node_inv:
  assumes "encoder_bounded codec" "handlers_total hs" "sync \<longrightarrow> handlers_keep (\<lambda>(_, a). sync_pending a) hs"
    and "\<And>d. \<exists>reports. list_all2 (is_service c) (services d) reports" "whole_inv c cinv sync p" "node_call_ok c k p"
  shows "\<exists>p'. exec_node c codec ops hs bd services k p = Some p' \<and> whole_inv c cinv sync p'"
proof -
  have m: "module_inv c cinv p" "sync \<longrightarrow> sync_pending (snd (p_app p))" using assms(5) by (simp_all add: whole_inv_def)
  have n: "node_inv c (e_node (p_env p))" using m(1) by (simp add: module_inv_def env_inv_def)
  show ?thesis
  proof (cases k)
    case (Library k')
    then obtain p' where p: "exec_module c codec ops hs k' p = Some p'" "module_inv c cinv p'"
      using exec_module_inv [OF assms(1) m(1) _ assms(2)] assms(6) by auto
    with Library m(2) assms(3) exec_module_keeps [OF p(1), of "\<lambda>(_, a). sync_pending a"] show ?thesis
      by (auto simp: whole_inv_def split_beta)
  next
    case Event_work
    obtain reports where r: "list_all2 (is_service c) (services (fst (p_app p))) reports" using assms(4) by blast
    have "goes_on c sync (e_node (p_env p)) (e_node (p_env p), snd (p_app p))"
      using m(2) extends_refl [OF n] by (simp add: goes_on_def)
    from event_handlers.event_work_spec [OF whole_event_handlers [OF config_ok r] this, of bd]
    obtain s' a' where "run_event_work [pouch_event_handler c bd (services (fst (p_app p)))] (e_node (p_env p), snd (p_app p)) = Some (Some (s', a'))"
      "goes_on c sync (e_node (p_env p)) (s', a')" by blast
    with Event_work whole_inv_put_app [OF assms(5), of "(s', a')"] show ?thesis by simp
  next
    case (Application e)
    with exec_app_goes_on [OF config_ok n m(2), of bd e] whole_inv_put_app [OF assms(5)] show ?thesis by auto
  qed
qed

lemma node_reachable_inv:
  assumes "encoder_bounded codec" "handlers_total hs" "sync \<longrightarrow> handlers_keep (\<lambda>(_, a). sync_pending a) hs"
    and "\<And>d. \<exists>reports. list_all2 (is_service c) (services d) reports" "whole_inv c cinv sync p0"
  shows "node_reachable c codec ops hs bd services p0 p \<Longrightarrow> whole_inv c cinv sync p"
proof (induction rule: node_reachable.induct)
  case node_init
  show ?case by (rule assms(5))
next
  case (node_step p k p')
  obtain q where "exec_node c codec ops hs bd services k p = Some q" "whole_inv c cinv sync q"
    using exec_node_inv [where bd = bd and services = services, OF assms(1-4) node_step.IH node_step.hyps(2)] by blast
  with node_step.hyps(3) show ?case by simp
qed

end

section \<open>The Golioth services of the encrypted build\<close>

definition golioth_uplinks ::
  "config \<Rightarrow> ota_config \<Rightarrow> 'e zcbor_enc_ops \<Rightarrow> ('d \<Rightarrow> 'r golioth_ota_registered_component list) \<Rightarrow> ('d \<Rightarrow> u64) \<Rightarrow> 'd
     \<Rightarrow> ('c node \<Rightarrow> 'c node option) option list" where
  "golioth_uplinks c oc enc registry version d = [Some (ota_uplink c oc enc (registry d)), Some (settings_uplink c enc (version d))]"

lemma golioth_uplinks_services:
  assumes "valid_config c" "zcbor_enc_sized enc cap" "config_ota_max_package_name_len oc + 80 < SIZE_MOD"
  shows "\<exists>reports. list_all2 (is_service c) (golioth_uplinks c oc enc registry version d) reports"
  unfolding golioth_uplinks_def using golioth_services [OF assms] by blast

text \<open>From \<^verbatim>\<open>main\<close> on.\<close>

lemma golioth_node_inv:
  assumes "saead_config c" "psa_sized psa" "encoder_bounded codec" "handlers_total hs" "sync \<longrightarrow> handlers_keep (\<lambda>(_, a). sync_pending a) hs"
    and "zcbor_enc_sized enc cap" "config_ota_max_package_name_len oc + 80 < SIZE_MOD" "saead_inv cr" "bufs h = 0"
    and "me_crypto_init env = saead_crypto_init tls" "app_main env f a (boot_pouch h cr x) = Some (True, a0, p0)"
    and "node_reachable c codec (saead_ops c psa alg) hs bd (golioth_uplinks c oc enc registry version) (running a0 p0) p"
  shows "whole_inv c saead_inv sync p"
proof -
  have vc: "valid_config c" using assms(1) by (simp add: saead_config_def)
  have "module_inv c saead_inv p0 \<and> sync_request_work a0"
    using app_main_running [OF assms(11,9)] saead_crypto_init_inv [OF _ assms(8)] assms(10) by metis
  then have "whole_inv c saead_inv sync (running a0 p0)"
    by (simp add: whole_inv_def module_inv_def running_def down_view_def sync_pending_def)
  from crypto_provider.node_reachable_inv [OF saead_provider [OF assms(1,2)] assms(3-5) golioth_uplinks_services [OF vc assms(6,7)] this assms(12)]
  show ?thesis .
qed

lemma golioth_node_safe:
  assumes "saead_config c" "psa_sized psa" "encoder_bounded codec" "handlers_total hs"
    and "zcbor_enc_sized enc cap" "config_ota_max_package_name_len oc + 80 < SIZE_MOD" "whole_inv c saead_inv False p" "node_call_ok c k p"
  shows "exec_node c codec (saead_ops c psa alg) hs bd (golioth_uplinks c oc enc registry version) k p \<noteq> None"
proof -
  have vc: "valid_config c" using assms(1) by (simp add: saead_config_def)
  from crypto_provider.exec_node_inv [where sync = False and bd = bd and services = "golioth_uplinks c oc enc registry version",
      OF saead_provider [OF assms(1,2), of alg] assms(3,4) _ golioth_uplinks_services [OF vc assms(5,6)] assms(7,8)]
  show ?thesis by auto
qed

end
