(* ===== verification/Fw_Update.thy ===== *)
theory Fw_Update
  imports Ota_Manifest
begin

text \<open>
  The firmware update of the node application, \<^verbatim>\<open>examples/ble_gatt/src/fw_update.c\<close>: the handler of manifests and the receiver of the
  component \<^verbatim>\<open>main\<close>. Zephyr's flash image and boot functions are a parameter. Rebooting does not return; the model records it.

  Shown here: a download writes exactly the bytes of its chunks to the image and then requests the upgrade; a chunk that could not
  be written is left out without notice, and the upgrade is requested all the same; which components a manifest marks for download.
\<close>

section \<open>Receiving an image\<close>

record 'f flash_ops =
  flash_img_init :: "'f \<Rightarrow> ret \<times> 'f"
  flash_img_buffered_write :: "byte list \<Rightarrow> bool \<Rightarrow> 'f \<Rightarrow> ret \<times> 'f"
  boot_request_upgrade :: "'f \<Rightarrow> ret \<times> 'f"

record 'f updater =
  fu_flash :: 'f
  fu_rebooted :: bool

definition ota_main_receive ::
  "'f flash_ops \<Rightarrow> byte list option \<Rightarrow> size_t \<Rightarrow> size_t \<Rightarrow> bool \<Rightarrow> 'f updater \<Rightarrow> 'f updater option" where
  "ota_main_receive fl data offset len is_last u =
     (case (if offset = 0 then flash_img_init fl (fu_flash u) else (OK, fu_flash u)) of
        (Err _, f) \<Rightarrow> Some (u\<lparr>fu_flash := f\<rparr>)
      | (OK, f) \<Rightarrow>
          do { xs \<leftarrow> (case data of None \<Rightarrow> if len = 0 then Some [] else None | Some xs \<Rightarrow> mem_read 0 len xs);
               case flash_img_buffered_write fl xs is_last f of
                 (Err _, f) \<Rightarrow> Some (u\<lparr>fu_flash := f\<rparr>)
               | (OK, f) \<Rightarrow>
                   if is_last
                   then (case boot_request_upgrade fl f of
                           (Err _, f) \<Rightarrow> Some (u\<lparr>fu_flash := f\<rparr>)
                         | (OK, f) \<Rightarrow> Some (u\<lparr>fu_flash := f, fu_rebooted := True\<rparr>))
                   else Some (u\<lparr>fu_flash := f\<rparr>) })"

text \<open>
  What the flash functions do, seen through the image that has been written and whether an upgrade to it is requested: starting empties
  the image, a write that succeeds adds its bytes, one that fails leaves the image as it was.
\<close>

definition flash_appends :: "'f flash_ops \<Rightarrow> ('f \<Rightarrow> byte list) \<Rightarrow> ('f \<Rightarrow> bool) \<Rightarrow> bool" where
  "flash_appends fl img upgrade \<longleftrightarrow>
     (\<forall>f f'. flash_img_init fl f = (OK, f') \<longrightarrow> img f' = [] \<and> upgrade f' = upgrade f)
     \<and> (\<forall>xs l f r f'. flash_img_buffered_write fl xs l f = (r, f') \<longrightarrow>
          img f' = img f @ (if r = OK then xs else []) \<and> upgrade f' = upgrade f)
     \<and> (\<forall>f f'. boot_request_upgrade fl f = (OK, f') \<longrightarrow> img f' = img f \<and> upgrade f')"

text \<open>The writes of a download that has been started, and which of them succeed.\<close>

fun write_results :: "'f flash_ops \<Rightarrow> byte list list \<Rightarrow> 'f \<Rightarrow> bool list" where
  "write_results fl [] f = []"
| "write_results fl (xs # chunks) f =
     (case flash_img_buffered_write fl xs (chunks = []) f of (r, f) \<Rightarrow> (r = OK) # write_results fl chunks f)"

fun keep :: "bool list \<Rightarrow> 'x list list \<Rightarrow> 'x list" where
  "keep (b # bs) (xs # xss) = (if b then xs else []) @ keep bs xss"
| "keep _ _ = []"

lemma keep_all: "keep (replicate (length xss) True) xss = concat xss"
  by (induction xss) simp_all

lemma list_all_id_replicate: "list_all id bs \<Longrightarrow> bs = replicate (length bs) True"
  by (induction bs) simp_all

lemma length_write_results [simp]: "length (write_results fl chunks f) = length chunks"
  by (induction chunks arbitrary: f) (simp_all split: prod.split)

text \<open>The chunks behind the first one. The upgrade is requested if and only if the last write succeeds and the request does.\<close>

lemma receive_rest:
  assumes "flash_appends fl img upgrade" "0 < offset" "chunks \<noteq> []" "\<forall>xs \<in> set chunks. length xs < SIZE_MOD"
    and "\<forall>f. fst (boot_request_upgrade fl f) = OK"
  shows "\<exists>u'. download_calls (ota_main_receive fl) offset chunks u = Some u'
    \<and> img (fu_flash u') = img (fu_flash u) @ keep (write_results fl chunks (fu_flash u)) chunks
    \<and> (fu_rebooted u' \<longleftrightarrow> fu_rebooted u \<or> last (write_results fl chunks (fu_flash u)))
    \<and> (last (write_results fl chunks (fu_flash u)) \<longrightarrow> upgrade (fu_flash u'))"
  using assms(2-4)
proof (induction chunks arbitrary: offset u)
  case Nil
  then show ?case by simp
next
  case (Cons xs chunks)
  obtain r f where w: "flash_img_buffered_write fl xs (chunks = []) (fu_flash u) = (r, f)" by fastforce
  have im: "img f = img (fu_flash u) @ (if r = OK then xs else [])"
    using assms(1) w unfolding flash_appends_def by blast
  have xs: "mem_read 0 (length xs) xs = Some xs" using Cons.prems by (simp add: mem_read_def)
  show ?case
  proof (cases "chunks = []")
    case True
    obtain r2 f2 where b: "boot_request_upgrade fl f = (r2, f2)" by fastforce
    with assms(5) have "r2 = OK" by (metis fst_conv)
    with b have "img f2 = img f \<and> upgrade f2" using assms(1) unfolding flash_appends_def by blast
    with \<open>r2 = OK\<close> b w im xs True Cons.prems(1) show ?thesis
      by (cases r) (simp_all add: ota_main_receive_def)
  next
    case False
    let ?u = "u\<lparr>fu_flash := f\<rparr>"
    have call: "ota_main_receive fl (Some xs) offset (length xs) False u = Some ?u"
      using w xs False Cons.prems(1) by (cases r) (simp_all add: ota_main_receive_def)
    have "0 < offset + length xs" using Cons.prems(1) by simp
    from Cons.IH [OF this False, of ?u] Cons.prems(3) obtain u' where
      "download_calls (ota_main_receive fl) (offset + length xs) chunks ?u = Some u'"
      "img (fu_flash u') = img f @ keep (write_results fl chunks f) chunks"
      "fu_rebooted u' \<longleftrightarrow> fu_rebooted u \<or> last (write_results fl chunks f)"
      "last (write_results fl chunks f) \<longrightarrow> upgrade (fu_flash u')" by auto
    moreover have "write_results fl chunks f \<noteq> []" using False by (metis length_0_conv length_write_results)
    ultimately show ?thesis using call w im False by simp
  qed
qed

text \<open>Only a zero offset makes a difference.\<close>

lemma download_calls_offset:
  "0 < n \<Longrightarrow> 0 < m \<Longrightarrow> download_calls (ota_main_receive fl) n chunks u = download_calls (ota_main_receive fl) m chunks u"
proof (induction chunks arbitrary: n m u)
  case (Cons xs chunks)
  have "ota_main_receive fl (Some xs) n (length xs) l v = ota_main_receive fl (Some xs) m (length xs) l v" for l v
    using Cons.prems by (simp add: ota_main_receive_def)
  moreover have "download_calls (ota_main_receive fl) (n + length xs) chunks = download_calls (ota_main_receive fl) (m + length xs) chunks"
    using Cons.prems by (intro ext Cons.IH) auto
  ultimately show ?case by simp
qed simp

lemma receive_image:
  assumes "flash_appends fl img upgrade" "xs \<noteq> []" "\<forall>ys \<in> set (xs # chunks). length ys < SIZE_MOD"
    and "flash_img_init fl (fu_flash u) = (OK, f0)" "\<forall>f. fst (boot_request_upgrade fl f) = OK"
  defines "results \<equiv> write_results fl (xs # chunks) f0"
  shows "\<exists>u'. download_calls (ota_main_receive fl) 0 (xs # chunks) u = Some u'
    \<and> img (fu_flash u') = keep results (xs # chunks)
    \<and> (fu_rebooted u' \<longleftrightarrow> fu_rebooted u \<or> last results) \<and> (last results \<longrightarrow> upgrade (fu_flash u'))"
proof -
  let ?u = "u\<lparr>fu_flash := f0\<rparr>"
  have "ota_main_receive fl (Some xs) 0 (length xs) l u = ota_main_receive fl (Some xs) 1 (length xs) l ?u" for l
    using assms(4) by (auto simp: ota_main_receive_def split: prod.split ret.split bind_splits)
  moreover have "download_calls (ota_main_receive fl) (length xs) chunks = download_calls (ota_main_receive fl) (1 + length xs) chunks"
    using assms(2) by (intro ext download_calls_offset) auto
  ultimately have "download_calls (ota_main_receive fl) 0 (xs # chunks) u = download_calls (ota_main_receive fl) 1 (xs # chunks) ?u" by simp
  moreover have "img f0 = []" using assms(1,4) unfolding flash_appends_def by blast
  ultimately show ?thesis
    using receive_rest [OF assms(1) _ _ assms(3,5), of 1 ?u] by (simp add: results_def)
qed

section \<open>Manifests\<close>

fun ota_manifest_receive :: "golioth_ota_manifest_component list \<Rightarrow> 'a ota \<Rightarrow> 'a ota option" where
  "ota_manifest_receive [] o' = Some o'"
| "ota_manifest_receive (m # ms) o' =
     ota_manifest_receive ms
       (if mc_current m \<noteq> mc_target m
        then o'\<lparr>ot_components := snd (golioth_ota_mark_for_download (mc_name m) (ot_components o'))\<rparr> else o')"

definition marked :: "'a golioth_ota_registered_component \<Rightarrow> 'a golioth_ota_registered_component" where
  "marked r = r\<lparr>rc_data := (rc_data r)\<lparr>rd_state := GOLIOTH_OTA_STATE_DOWNLOADING\<rparr>\<rparr>"

definition wants_update :: "'a golioth_ota_registered_component \<Rightarrow> bool" where
  "wants_update r \<longleftrightarrow> rc_version r \<noteq> c_string (rd_target (rc_data r))"

lemma mark_for_download_eq:
  assumes "distinct (map rc_name rs)" "r \<in> set rs"
  shows "snd (golioth_ota_mark_for_download (rc_name r) rs) = map (\<lambda>q. if rc_name q = rc_name r then marked q else q) rs"
proof -
  obtain j where j: "j < length rs" "rs ! j = r" using assms(2) by (metis in_set_conv_nth)
  have "rc_name (rs ! k) = rc_name r \<longleftrightarrow> k = j" if "k < length rs" for k
    using assms(1) j that by (auto simp: distinct_conv_nth)
  then have "rs[j := marked r] = map (\<lambda>q. if rc_name q = rc_name r then marked q else q) rs"
    using j by (intro nth_equalityI) (auto simp: nth_list_update)
  with set_status_found [OF assms(1) j(1)] j(2) show ?thesis
    by (simp add: golioth_ota_mark_for_download_def marked_def)
qed

text \<open>The handler marks the components whose target differs from the running version, and changes nothing else.\<close>

lemma manifest_receive_eq:
  assumes "distinct (map rc_name (ps @ rs))" "ot_components o' = map (\<lambda>r. if wants_update r then marked r else r) ps @ rs"
  shows "ota_manifest_receive (map manifest_component rs) o' =
    Some (o'\<lparr>ot_components := map (\<lambda>r. if wants_update r then marked r else r) (ps @ rs)\<rparr>)"
  using assms
proof (induction rs arbitrary: ps o')
  case Nil
  then show ?case by simp
next
  case (Cons r rs)
  let ?f = "\<lambda>r. if wants_update r then marked r else r"
  have nm: "rc_name (?f q) = rc_name q" for q :: "'a golioth_ota_registered_component" by (simp add: marked_def)
  have dist: "distinct (map rc_name (map ?f ps @ r # rs))" using Cons.prems(1) by (simp add: comp_def nm)
  have "map (\<lambda>q. if rc_name q = rc_name r then marked q else q) (map ?f ps @ r # rs) = map ?f ps @ marked r # rs"
    using Cons.prems(1) by (auto simp: nm intro!: map_idI) (metis image_eqI)+
  then have "snd (golioth_ota_mark_for_download (rc_name r) (map ?f ps @ r # rs)) = map ?f ps @ marked r # rs"
    using mark_for_download_eq [OF dist, of r] by simp
  then have step: "(if mc_current (manifest_component r) \<noteq> mc_target (manifest_component r)
       then o'\<lparr>ot_components := snd (golioth_ota_mark_for_download (mc_name (manifest_component r)) (ot_components o'))\<rparr> else o') =
     o'\<lparr>ot_components := map ?f (ps @ [r]) @ rs\<rparr>"
    using Cons.prems(2) by (simp add: manifest_component_def wants_update_def)
  have "ota_manifest_receive (map manifest_component rs) (o'\<lparr>ot_components := map ?f (ps @ [r]) @ rs\<rparr>) =
      Some (o'\<lparr>ot_components := map ?f ((ps @ [r]) @ rs)\<rparr>)"
    using Cons.IH [of "ps @ [r]" "o'\<lparr>ot_components := map ?f (ps @ [r]) @ rs\<rparr>"] Cons.prems(1) by simp
  then show ?case using step by simp
qed

end
