(* ===== verification/Channel.thy ===== *)
theory Channel
  imports Saead Parsing "HOL-Library.Sublist"
begin

text \<open>
  The encrypted channel: on the uplink the processing queue and the crypto module, on the downlink the receive buffer, the two work items and
  the crypto module together.
  A pouch is what a sender seals: \<open>seal\<close> is the sequence of blocks that the AEAD function of the session key gives for a list of plaintexts,
  each with the nonce of its position and with the tag of the block before it as additional data.

  Shown here: what the uplink sends is the sealing of the blocks that were queued; whatever blocks arrive, those that the module
  accepts are the sealing of the plaintexts it hands on, in order and from the start of the pouch; a sealed pouch is accepted completely;
  and the entries in it reach the handlers, however its bytes are cut into pieces.
\<close>

section \<open>Sealing\<close>

definition sized :: "byte list \<Rightarrow> byte list" where
  "sized xs = sys_put_be16 (word_of_nat (length xs)) @ xs"

definition next_block :: "byte list \<Rightarrow> session \<Rightarrow> session" where
  "next_block tag ss = ss\<lparr>ss_ad := tag, ss_block_index := ss_block_index ss + 1\<rparr>"

type_synonym aead = "byte list \<Rightarrow> byte list \<Rightarrow> byte list \<Rightarrow> byte list"

fun seal :: "aead \<Rightarrow> pouch_role \<Rightarrow> session \<Rightarrow> byte list list \<Rightarrow> byte list list" where
  "seal E sender ss [] = []"
| "seal E sender ss (x # xs) =
     (let y = E (nonce_generate ss sender) (block_ad ss) x in sized y # seal E sender (next_block (drop (length x) y) ss) xs)"

text \<open>
  What is relied on from the AEAD of PSA, for one key: there is a function \<open>E\<close> of nonce, additional data and plaintext such that a
  ciphertext that decrypts is the value of \<open>E\<close>, with a tag of 16 bytes behind the text; and that decryption inverts \<open>E\<close>.
\<close>

definition aead_sound :: "'p psa_ops \<Rightarrow> 'p \<Rightarrow> psa_key_id \<Rightarrow> psa_algorithm \<Rightarrow> aead \<Rightarrow> bool" where
  "aead_sound psa p k alg E \<longleftrightarrow> (\<forall>n ad x. length (E n ad x) = length x + AUTH_TAG_LEN)
     \<and> (\<forall>n ad x y m. psa_aead_decrypt psa p k alg n ad y m = Some x \<longrightarrow> y = E n ad x)"

definition aead_complete :: "'p psa_ops \<Rightarrow> 'p \<Rightarrow> psa_key_id \<Rightarrow> psa_algorithm \<Rightarrow> aead \<Rightarrow> bool" where
  "aead_complete psa p k alg E \<longleftrightarrow> (\<forall>n ad x. psa_aead_decrypt psa p k alg n ad (E n ad x) (length x) = Some x)"

text \<open>Only the position in the pouch and the previous tag matter.\<close>

lemma seal_cong:
  "ss_pouch_id ss = ss_pouch_id ss' \<Longrightarrow> ss_block_index ss = ss_block_index ss' \<Longrightarrow> ss_ad ss = ss_ad ss' \<Longrightarrow>
     seal E sender ss xs = seal E sender ss' xs"
  by (induction xs arbitrary: ss ss') (simp_all add: nonce_generate_def block_ad_def next_block_def Let_def)

lemma length_sized [simp]: "length (sized xs) = length xs + 2"
  by (simp add: sized_def)

lemma framed_is_sized:
  assumes "framed xs"
  shows "xs = sized (drop 2 xs)"
proof -
  have "word_of_nat (unat (sys_get_be16 xs)) = sys_get_be16 xs" by simp
  then have "sys_get_be16 xs = word_of_nat (length xs - 2)" using assms unfolding framed_def by metis
  moreover have "take 2 xs = sys_put_be16 (sys_get_be16 xs)" using assms by (intro take_2_be16) (simp add: framed_def)
  ultimately have "take 2 xs = sys_put_be16 (word_of_nat (length (drop 2 xs)))" by simp
  then show ?thesis by (metis append_take_drop_id sized_def)
qed

lemma length_seal [simp]: "length (seal E sender ss xs) = length xs"
  by (induction xs arbitrary: ss) (simp_all add: Let_def)

section \<open>Accepting\<close>

text \<open>Decrypting one received block after the other; of those that are accepted, the bytes received and the plaintext.\<close>

fun decrypt_run ::
  "config \<Rightarrow> 'p psa_ops \<Rightarrow> pouch_buf list \<Rightarrow> heap \<Rightarrow> ('x, 'p) saead \<Rightarrow> ((byte list \<times> byte list) list \<times> heap \<times> ('x, 'p) saead) option" where
  "decrypt_run c psa [] h s = Some ([], h, s)"
| "decrypt_run c psa (b # bs) h s =
     do { (r, h, s) \<leftarrow> saead_downlink_block_decrypt c psa (Some b) h s;
          (acc, h, s) \<leftarrow> decrypt_run c psa bs h s;
          Some (case r of None \<Rightarrow> acc | Some d \<Rightarrow> (contents b, drop 2 (contents d)) # acc, h, s) }"

lemma saead_decrypt_cases:
  assumes "saead_config c" "psa_sized psa" "saead_inv s" "received c b"
    and "aead_sound psa (sa_psa s) (ss_key (sa_downlink s)) (ss_algorithm (sa_downlink s)) E"
  obtains (refused) h' where "saead_downlink_block_decrypt c psa (Some b) h s = Some (None, h', s)" "malloc_ok h' = malloc_ok h"
      "malloc_ok h (mallocs h) \<longrightarrow> framed (contents b) \<longrightarrow> AUTH_TAG_LEN + 2 < pb_bytes b \<longrightarrow>
         (\<forall>xs. psa_aead_decrypt psa (sa_psa s) (ss_key (sa_downlink s)) (ss_algorithm (sa_downlink s))
           (nonce_generate (sa_downlink s) POUCH_ROLE_SERVER) (block_ad (sa_downlink s)) (drop 2 (contents b)) (pb_bytes b - 2 - AUTH_TAG_LEN) = Some xs
           \<longrightarrow> length xs \<noteq> pb_bytes b - 2 - AUTH_TAG_LEN)"
  | (accepted) d h' s' x where "saead_downlink_block_decrypt c psa (Some b) h s = Some (Some d, h', s')" "malloc_ok h' = malloc_ok h"
      "wf_buf d" "contents d = sized x" "contents b = sized (E (nonce_generate (sa_downlink s) POUCH_ROLE_SERVER) (block_ad (sa_downlink s)) x)"
      "x \<noteq> []" "saead_inv s'" "sa_psa s' = sa_psa s"
      "sa_downlink s' = (next_block (drop (length x) (drop 2 (contents b))) (sa_downlink s))\<lparr>ss_flags := ss_flags (sa_downlink s')\<rparr>"
proof -
  have ad: "length (ss_ad (sa_downlink s)) = AUTH_TAG_LEN" using assms(3) by (simp add: saead_inv_def)
  have b: "wf_buf b" "2 \<le> pb_bytes b" "pb_bytes b \<le> MAX_CIPHERTEXT_BLOCK_SIZE c" using assms(4) by (simp_all add: received_def)
  from assms(1,2) b ad show thesis
  proof (cases rule: session_decrypt_cases [where p = "sa_psa s" and h = h])
    case (fail h')
    then show thesis by (intro refused [of "buf_free (Some b) h'"]) (simp_all add: saead_downlink_block_decrypt_def buf_free_def)
  next
    case (ok d h' x)
    let ?dn = "(sa_downlink s)\<lparr>ss_ad := drop (pb_bytes b - AUTH_TAG_LEN) (contents b), ss_block_index := ss_block_index (sa_downlink s) + 1,
         ss_flags := set_bit SESSION_HAS_POUCH_FLAG (set_bit SESSION_VALID_FLAG (set_bit SESSION_VALID_FLAG (ss_flags (sa_downlink s))))\<rparr>"
    obtain s' where s': "saead_downlink_block_decrypt c psa (Some b) h s = Some (Some d, buf_free (Some b) h', s')" "sa_downlink s' = ?dn"
      "sa_psa s' = sa_psa s" "sa_uplink s' = sa_uplink s" "sa_cert s' = sa_cert s"
      using ok(1) by (simp add: saead_downlink_block_decrypt_def Let_def)
    have y: "drop 2 (contents b) = E (nonce_generate (sa_downlink s) POUCH_ROLE_SERVER) (block_ad (sa_downlink s)) x"
      using assms(5) ok(7) unfolding aead_sound_def by blast
    have cb: "contents b = sized (drop 2 (contents b))" using ok(5) by (rule framed_is_sized)
    have ne: "x \<noteq> []" using ok(6,8) by auto
    have tag: "drop (pb_bytes b - AUTH_TAG_LEN) (contents b) = drop (length x) (drop 2 (contents b))"
    proof -
      have "length x + 2 = pb_bytes b - AUTH_TAG_LEN" using ok(6,8) by simp
      then show ?thesis by simp
    qed
    have "saead_inv s'" using assms(3) s' b(1) ok(6) by (simp add: saead_inv_def)
    with s' ok(3,4,9) y cb ne tag show thesis
      by (intro accepted [of d "buf_free (Some b) h'" s' x]) (simp_all add: buf_free_def sized_def next_block_def)
  qed
qed

lemma decrypt_run_sealed:
  assumes "saead_config c" "psa_sized psa"
  shows "saead_inv s \<Longrightarrow> list_all (received c) bs \<Longrightarrow> aead_sound psa (sa_psa s) (ss_key (sa_downlink s)) (ss_algorithm (sa_downlink s)) E
    \<Longrightarrow> \<exists>acc h' s'. decrypt_run c psa bs h s = Some (acc, h', s') \<and> subseq (map fst acc) (map contents bs)
      \<and> map fst acc = seal E POUCH_ROLE_SERVER (sa_downlink s) (map snd acc)"
proof (induction bs arbitrary: h s)
  case Nil
  then show ?case by simp
next
  case (Cons b bs)
  have b: "received c b" "list_all (received c) bs" using Cons.prems(2) by simp_all
  from assms Cons.prems(1) b(1) Cons.prems(3) show ?case
  proof (cases rule: saead_decrypt_cases [where h = h])
    case (refused h')
    with Cons.IH [OF Cons.prems(1) b(2) Cons.prems(3), of h'] show ?thesis by auto
  next
    case (accepted d h' s' x)
    have k: "ss_key (sa_downlink s') = ss_key (sa_downlink s)" "ss_algorithm (sa_downlink s') = ss_algorithm (sa_downlink s)"
      by (subst accepted(9), simp add: next_block_def)+
    obtain acc h2 s2 where r: "decrypt_run c psa bs h' s' = Some (acc, h2, s2)" "subseq (map fst acc) (map contents bs)"
      "map fst acc = seal E POUCH_ROLE_SERVER (sa_downlink s') (map snd acc)"
      using Cons.IH [OF accepted(7) b(2), of h'] Cons.prems(3) accepted(8) k by auto
    let ?y = "E (nonce_generate (sa_downlink s) POUCH_ROLE_SERVER) (block_ad (sa_downlink s)) x"
    have dy: "drop 2 (contents b) = ?y" "drop 2 (contents d) = x" by (simp_all add: accepted(4,5) sized_def)
    have "seal E POUCH_ROLE_SERVER (sa_downlink s') (map snd acc) =
        seal E POUCH_ROLE_SERVER (next_block (drop (length x) ?y) (sa_downlink s)) (map snd acc)"
      by (rule seal_cong) (subst accepted(9), simp add: next_block_def dy(1))+
    with accepted(1,5) r dy(2) show ?thesis by (simp add: Let_def)
  qed
qed

text \<open>A sealed block is accepted if memory is available.\<close>

lemma saead_decrypt_sealed:
  assumes "saead_config c" "psa_sized psa" "saead_inv s" "received c b" "malloc_ok h (mallocs h)"
    and "aead_complete psa (sa_psa s) (ss_key (sa_downlink s)) (ss_algorithm (sa_downlink s)) E"
    and "aead_sound psa (sa_psa s) (ss_key (sa_downlink s)) (ss_algorithm (sa_downlink s)) E"
    and "contents b = sized (E (nonce_generate (sa_downlink s) POUCH_ROLE_SERVER) (block_ad (sa_downlink s)) x)" "x \<noteq> []"
  shows "\<exists>d h' s'. saead_downlink_block_decrypt c psa (Some b) h s = Some (Some d, h', s') \<and> malloc_ok h' = malloc_ok h
    \<and> wf_buf d \<and> contents d = sized x \<and> saead_inv s' \<and> sa_psa s' = sa_psa s
    \<and> sa_downlink s' = (next_block (drop (length x) (drop 2 (contents b))) (sa_downlink s))\<lparr>ss_flags := ss_flags (sa_downlink s')\<rparr>"
proof -
  let ?y = "E (nonce_generate (sa_downlink s) POUCH_ROLE_SERVER) (block_ad (sa_downlink s)) x"
  have ly: "length ?y = length x + AUTH_TAG_LEN" using assms(7) by (simp add: aead_sound_def)
  have b: "wf_buf b" "2 \<le> pb_bytes b" "pb_bytes b \<le> MAX_CIPHERTEXT_BLOCK_SIZE c" using assms(4) by (simp_all add: received_def)
  have pb: "pb_bytes b = length x + AUTH_TAG_LEN + 2" "drop 2 (contents b) = ?y"
    using assms(8) ly contents_length [OF b(1)] by (simp_all add: sized_def)
  from assms(1-4,7) show ?thesis
  proof (cases rule: saead_decrypt_cases [where h = h])
    case (accepted d h' s' x')
    then have "?y = E (nonce_generate (sa_downlink s) POUCH_ROLE_SERVER) (block_ad (sa_downlink s)) x'"
      using assms(8) by (simp add: sized_def pb(2))
    then have "x' = x" using assms(6) assms(7) unfolding aead_complete_def aead_sound_def by (metis add_right_cancel option.inject)
    with accepted show ?thesis by blast
  next
    case (refused h')
    have "pb_bytes b \<le> 65537" using b(3) assms(1) valid_config_sizes(1) [of c] by (auto simp: saead_config_def)
    then have "framed (contents b)" using framed_sized [of ?y] assms(8) pb(1) ly by (simp add: sized_def)
    moreover have "psa_aead_decrypt psa (sa_psa s) (ss_key (sa_downlink s)) (ss_algorithm (sa_downlink s))
        (nonce_generate (sa_downlink s) POUCH_ROLE_SERVER) (block_ad (sa_downlink s)) (drop 2 (contents b)) (pb_bytes b - 2 - AUTH_TAG_LEN) = Some x"
      using assms(6) pb by (simp add: aead_complete_def)
    ultimately show ?thesis using refused(3) assms(5,9) pb(1) by auto
  qed
qed

section \<open>Sending\<close>

text \<open>What is relied on from encryption: the output is the value of \<open>E\<close>; and, for a block not to be lost, that it succeeds if the output fits.\<close>

definition aead_encrypts :: "'p psa_ops \<Rightarrow> 'p \<Rightarrow> psa_key_id \<Rightarrow> psa_algorithm \<Rightarrow> aead \<Rightarrow> bool" where
  "aead_encrypts psa p k alg E \<longleftrightarrow> (\<forall>n ad x. length (E n ad x) = length x + AUTH_TAG_LEN)
     \<and> (\<forall>n ad x y m. psa_aead_encrypt psa p k alg n ad x m = Some y \<longrightarrow> y = E n ad x)"

definition aead_available :: "'p psa_ops \<Rightarrow> 'p \<Rightarrow> psa_key_id \<Rightarrow> psa_algorithm \<Rightarrow> bool" where
  "aead_available psa p k alg \<longleftrightarrow> (\<forall>n ad x. psa_aead_encrypt psa p k alg n ad x (length x + AUTH_TAG_LEN) \<noteq> None)"

lemma aead_encryptsD:
  assumes "aead_encrypts psa p k alg E" "psa_aead_encrypt psa p k alg n ad x m = Some y"
  shows "y = E n ad x" "length y = length x + AUTH_TAG_LEN"
  using assms unfolding aead_encrypts_def by blast+

definition body :: "pouch_buf \<Rightarrow> byte list" where
  "body b = drop 2 (contents b)"

text \<open>The blocks that are sent are the sealing of blocks that were queued, in order; none is lost if there is memory.\<close>

lemma encrypt_all_sealed:
  assumes "saead_config c" "psa_sized psa"
  shows "list_all (sendable c) bs \<Longrightarrow> bit (ss_flags (sa_uplink s)) SESSION_ACTIVE_FLAG
    \<Longrightarrow> aead_encrypts psa (sa_psa s) (ss_key (sa_uplink s)) (ss_algorithm (sa_uplink s)) E
    \<Longrightarrow> \<exists>es h' s' sent. encrypt_all (saead_ops c psa alg) bs h s = Some (es, h', s') \<and> subseq sent bs
      \<and> map contents es = seal E POUCH_ROLE_DEVICE (sa_uplink s) (map body sent)
      \<and> ((\<forall>n. malloc_ok h n) \<and> aead_available psa (sa_psa s) (ss_key (sa_uplink s)) (ss_algorithm (sa_uplink s)) \<longrightarrow> sent = bs)"
proof (induction bs arbitrary: h s)
  case Nil
  then show ?case by (simp, intro exI [of _ "[]"]) simp
next
  case (Cons b bs)
  let ?up = "sa_uplink s"
  have b: "sendable c b" "list_all (sendable c) bs" using Cons.prems(1) by simp_all
  have bl: "length (body b) = pb_bytes b - 2" using b(1) by (simp add: body_def sendable_def)
  from assms b(1) show ?case
  proof (cases rule: session_encrypt_cases [where p = "sa_psa s" and ss = ?up and h = h])
    case (fail h1)
    then have step: "crypto_encrypt_block (saead_ops c psa alg) b h s = Some (None, buf_free (Some b) h1, s)"
      using Cons.prems(2) by (simp add: saead_ops_def saead_uplink_encrypt_block_def)
    have "\<not> ((\<forall>n. malloc_ok h n) \<and> aead_available psa (sa_psa s) (ss_key ?up) (ss_algorithm ?up))"
    proof
      assume all: "(\<forall>n. malloc_ok h n) \<and> aead_available psa (sa_psa s) (ss_key ?up) (ss_algorithm ?up)"
      have m: "length (body b) + AUTH_TAG_LEN = pb_bytes b - 2 + AUTH_TAG_LEN" using bl by simp
      obtain xs where xs: "psa_aead_encrypt psa (sa_psa s) (ss_key ?up) (ss_algorithm ?up) (nonce_generate ?up POUCH_ROLE_DEVICE) (block_ad ?up)
          (body b) (pb_bytes b - 2 + AUTH_TAG_LEN) = Some xs" using all unfolding aead_available_def m [symmetric] by blast
      then have "length xs = pb_bytes b - 2 + AUTH_TAG_LEN" using aead_encryptsD(2) [OF Cons.prems(3)] bl by simp
      with fail(4) all xs show False by (simp add: body_def)
    qed
    moreover obtain es h' s' sent where "encrypt_all (saead_ops c psa alg) bs (buf_free (Some b) h1) s = Some (es, h', s')" "subseq sent bs"
      "map contents es = seal E POUCH_ROLE_DEVICE ?up (map body sent)"
      using Cons.IH [OF b(2) Cons.prems(2,3), of "buf_free (Some b) h1"] by blast
    ultimately show ?thesis using step by (intro exI [of _ es] exI [of _ h'] exI [of _ s'] exI [of _ sent]) auto
  next
    case (ok e h1 xs)
    let ?y = "E (nonce_generate ?up POUCH_ROLE_DEVICE) (block_ad ?up) (body b)"
    let ?s = "s\<lparr>sa_uplink := next_block (drop (length (body b)) ?y) ?up\<rparr>"
    have y: "xs = ?y" using aead_encryptsD(1) [OF Cons.prems(3) ok(5)] by (simp add: body_def)
    have step: "crypto_encrypt_block (saead_ops c psa alg) b h s = Some (Some e, buf_free (Some b) h1, ?s)"
      using Cons.prems(2) ok(1) y bl by (simp add: saead_ops_def saead_uplink_encrypt_block_def next_block_def)
    have f: "bit (ss_flags (sa_uplink ?s)) SESSION_ACTIVE_FLAG" "sa_psa ?s = sa_psa s" "ss_key (sa_uplink ?s) = ss_key ?up"
      "ss_algorithm (sa_uplink ?s) = ss_algorithm ?up" "malloc_ok (buf_free (Some b) h1) = malloc_ok h"
      using Cons.prems(2) ok(3) by (simp_all add: next_block_def buf_free_def)
    obtain es h' s' sent where r: "encrypt_all (saead_ops c psa alg) bs (buf_free (Some b) h1) ?s = Some (es, h', s')" "subseq sent bs"
      "map contents es = seal E POUCH_ROLE_DEVICE (sa_uplink ?s) (map body sent)"
      "(\<forall>n. malloc_ok h n) \<and> aead_available psa (sa_psa s) (ss_key ?up) (ss_algorithm ?up) \<longrightarrow> sent = bs"
      using Cons.IH [OF b(2) f(1), of "buf_free (Some b) h1", unfolded f(2-5)] Cons.prems(3) by blast
    have "contents e = sized ?y" using ok(7) y by (simp add: sized_def)
    with step r show ?thesis by (intro exI [of _ "e # es"] exI [of _ h'] exI [of _ s'] exI [of _ "b # sent"]) (auto simp: Let_def)
  qed
qed

section \<open>The downlink until it is idle\<close>

text \<open>The work queue runs the items that are submitted, decryption first, until none is.\<close>

definition downlink_round ::
  "'c crypto_ops \<Rightarrow> 'a pouch_downlink_handler list \<Rightarrow> 'c downlink \<times> 'a \<Rightarrow> ('c downlink \<times> 'a, 'c downlink \<times> 'a) round" where
  "downlink_round ops hs = (\<lambda>(d, a).
     if dl_decrypt_work d then (case run_decrypt_work ops d of None \<Rightarrow> Halt None | Some d \<Rightarrow> Again (d, a))
     else if dl_consume_work d then (case run_consume_work hs d a of None \<Rightarrow> Halt None | Some x \<Rightarrow> Again x)
     else Halt (Some (d, a)))"

definition run_downlink :: "'c crypto_ops \<Rightarrow> 'a pouch_downlink_handler list \<Rightarrow> 'c downlink \<times> 'a \<Rightarrow> ('c downlink \<times> 'a) run" where
  "run_downlink ops hs x = rounds (downlink_round ops hs) x"

text \<open>The blocks of entries of a pouch: the plaintext behind the size field, and what the handlers are to see.\<close>

definition entries_body :: "pouch_entry list \<Rightarrow> byte list" where
  "entries_body es = 0xC0 # concat (map entry_image es)"

fun deliver_pouch :: "'a pouch_downlink_handler list \<Rightarrow> pouch_entry list list \<Rightarrow> 'a \<Rightarrow> 'a option" where
  "deliver_pouch hs [] a = Some a"
| "deliver_pouch hs (es # ess) a = do { a \<leftarrow> deliver_entries hs (map entry_event_of es) a; deliver_pouch hs ess a }"

lemma sized_entries_body: "sized (entries_body es) = block_image 0xC0 (concat (map entry_image es))"
  by (simp add: sized_def entries_body_def block_image_def)

definition entries_block :: "pouch_buf \<Rightarrow> pouch_entry list \<Rightarrow> bool" where
  "entries_block b es \<longleftrightarrow> wf_buf b \<and> contents b = block_image 0xC0 (concat (map entry_image es)) \<and> list_all valid_entry es
     \<and> length (concat (map entry_image es)) < 65535"

text \<open>The consuming half, once nothing is left to decrypt.\<close>

lemma run_consume:
  assumes "list_all2 entries_block (dl_consume_queue d) ess" "\<not> dl_decrypt_work d" "dl_consume_work d = (dl_consume_queue d \<noteq> [])"
  shows "\<exists>d'. run_downlink ops hs (d, a) = Some (map_option (Pair d') (deliver_pouch hs ess a))
    \<and> dl_consume_queue d' = [] \<and> dl_decrypt_queue d' = dl_decrypt_queue d \<and> dl_buf d' = dl_buf d"
  using assms
proof (induction ess arbitrary: d a rule: list.induct)
  case Nil
  have "dl_consume_queue d = []" using Nil.prems(1) by simp
  with Nil.prems(2,3) show ?case by (intro exI [of _ d]) (simp add: run_downlink_def downlink_round_def)
next
  case (Cons es ess)
  then obtain b q where q: "dl_consume_queue d = b # q" "wf_buf b" "contents b = block_image 0xC0 (concat (map entry_image es))"
    "list_all valid_entry es" "length (concat (map entry_image es)) < 65535"
    by (auto simp: list_all2_Cons2 entries_block_def)
  have p: "pouch_downlink_block_push hs b a = deliver_entries hs (map entry_event_of es) a"
    using block_push_entry_block [OF q(2,3,5)] parse_entry_images [OF q(4)] by simp
  let ?d = "d\<lparr>dl_consume_work := q \<noteq> [], dl_consume_queue := q, dl_heap := buf_free (Some b) (dl_heap d)\<rparr>"
  have rc: "run_consume_work hs d a = map_option (Pair ?d) (deliver_entries hs (map entry_event_of es) a)"
    using Cons.prems(3) q(1) p
    by (cases "deliver_entries hs (map entry_event_of es) a"; cases q)
       (simp_all add: run_consume_work_def consume_blocks_def Let_def buf_queue_is_empty_def)
  show ?case
  proof (cases "deliver_entries hs (map entry_event_of es) a")
    case None
    with Cons.prems q(1) rc show ?thesis
      by (intro exI [of _ "d\<lparr>dl_consume_queue := []\<rparr>"]) (simp add: run_downlink_def downlink_round_def)
  next
    case (Some a1)
    have "downlink_round ops hs (d, a) = Again (?d, a1)" using Cons.prems q(1) rc Some by (simp add: downlink_round_def)
    moreover have "list_all2 entries_block (dl_consume_queue ?d) ess" using Cons.prems(1) q(1) by simp
    ultimately show ?thesis using Cons.IH [of ?d a1] Cons.prems(2) Some by (simp add: run_downlink_def)
  qed
qed

text \<open>The decrypting half: a sealed pouch is turned into blocks of entries.\<close>

definition sound_session :: "'p psa_ops \<Rightarrow> aead \<Rightarrow> ('x, 'p) saead \<Rightarrow> bool" where
  "sound_session psa E s \<longleftrightarrow> aead_sound psa (sa_psa s) (ss_key (sa_downlink s)) (ss_algorithm (sa_downlink s)) E
     \<and> aead_complete psa (sa_psa s) (ss_key (sa_downlink s)) (ss_algorithm (sa_downlink s)) E"

definition valid_entries :: "pouch_entry list \<Rightarrow> bool" where
  "valid_entries es \<longleftrightarrow> list_all valid_entry es \<and> length (concat (map entry_image es)) < 65535"

lemma run_decrypt:
  assumes "saead_config c" "psa_sized psa"
  shows "downlink_inv c saead_inv d \<Longrightarrow> dl_decrypt_work d = (dl_decrypt_queue d \<noteq> []) \<Longrightarrow> \<forall>n. malloc_ok (dl_heap d) n
    \<Longrightarrow> sound_session psa E (dl_crypto d) \<Longrightarrow> list_all valid_entries ess
    \<Longrightarrow> map contents (dl_decrypt_queue d) = seal E POUCH_ROLE_SERVER (sa_downlink (dl_crypto d)) (map entries_body ess)
    \<Longrightarrow> \<exists>d' ds. run_downlink (saead_ops c psa alg) hs (d, a) = run_downlink (saead_ops c psa alg) hs (d', a)
      \<and> \<not> dl_decrypt_work d' \<and> dl_decrypt_queue d' = [] \<and> dl_consume_queue d' = dl_consume_queue d @ ds \<and> list_all2 entries_block ds ess
      \<and> dl_consume_work d' = (dl_consume_work d \<or> ds \<noteq> []) \<and> dl_buf d' = dl_buf d"
proof (induction ess arbitrary: d)
  case Nil
  then show ?case by (intro exI [of _ d]) simp
next
  case (Cons es ess)
  let ?s = "dl_crypto d" and ?x = "entries_body es"
  let ?y = "E (nonce_generate (sa_downlink ?s) POUCH_ROLE_SERVER) (block_ad (sa_downlink ?s)) ?x"
  obtain b q where q: "dl_decrypt_queue d = b # q" "contents b = sized ?y"
    "map contents q = seal E POUCH_ROLE_SERVER (next_block (drop (length ?x) ?y) (sa_downlink ?s)) (map entries_body ess)"
    using Cons.prems(6) by (auto simp: Let_def)
  have b: "received c b" "saead_inv ?s" using Cons.prems(1) q(1) by (simp_all add: downlink_inv_def downlink_core_def)
  have ne: "?x \<noteq> []" by (simp add: entries_body_def)
  obtain x h' s' where r: "saead_downlink_block_decrypt c psa (Some b) (dl_heap d) ?s = Some (Some x, h', s')" "malloc_ok h' = malloc_ok (dl_heap d)"
    "wf_buf x" "contents x = sized ?x" "saead_inv s'" "sa_psa s' = sa_psa ?s"
    "sa_downlink s' = (next_block (drop (length ?x) (drop 2 (contents b))) (sa_downlink ?s))\<lparr>ss_flags := ss_flags (sa_downlink s')\<rparr>"
    using saead_decrypt_sealed [where E = E and x = ?x and h = "dl_heap d", OF assms b(2,1)] Cons.prems(3,4) q(2) ne
    unfolding sound_session_def by blast
  let ?d = "d\<lparr>dl_decrypt_work := q \<noteq> [], dl_decrypt_queue := q, dl_heap := h', dl_crypto := s',
     dl_consume_queue := dl_consume_queue d @ [x], dl_consume_work := True\<rparr>"
  have step: "run_decrypt_work (saead_ops c psa alg) d = Some ?d"
    using Cons.prems(2) q(1) r(1)
    by (cases q) (simp_all add: run_decrypt_work_def decrypt_blocks_def saead_ops_def Let_def buf_queue_is_empty_def buf_queue_submit_def)
  then have run: "run_downlink (saead_ops c psa alg) hs (d, a) = run_downlink (saead_ops c psa alg) hs (?d, a)"
    using Cons.prems(2) q(1) by (simp add: run_downlink_def downlink_round_def)
  have "downlink_inv c saead_inv ?d"
    using crypto_provider.run_decrypt_spec [OF saead_provider [OF assms] Cons.prems(1), of alg] step by auto
  moreover have "sound_session psa E (dl_crypto ?d)"
  proof -
    have "ss_key (sa_downlink s') = ss_key (sa_downlink ?s)" "ss_algorithm (sa_downlink s') = ss_algorithm (sa_downlink ?s)"
      by (subst r(7), simp add: next_block_def)+
    with Cons.prems(4) r(6) show ?thesis by (simp add: sound_session_def)
  qed
  moreover have "map contents q = seal E POUCH_ROLE_SERVER (sa_downlink s') (map entries_body ess)"
  proof -
    have "drop 2 (contents b) = ?y" by (simp add: q(2) sized_def)
    then show ?thesis unfolding q(3) by (intro seal_cong) (subst r(7), simp add: next_block_def)+
  qed
  ultimately obtain d' ds where i: "run_downlink (saead_ops c psa alg) hs (?d, a) = run_downlink (saead_ops c psa alg) hs (d', a)"
    "\<not> dl_decrypt_work d'" "dl_decrypt_queue d' = []" "dl_consume_queue d' = dl_consume_queue ?d @ ds" "list_all2 entries_block ds ess"
    "dl_consume_work d' = (dl_consume_work ?d \<or> ds \<noteq> [])" "dl_buf d' = dl_buf ?d"
    using Cons.IH [of ?d] Cons.prems(3,5) r(2) by (auto simp del: append_assoc)
  have "entries_block x es" using r(3,4) Cons.prems(5) by (simp add: entries_block_def valid_entries_def sized_entries_body)
  with run i show ?case by (intro exI [of _ d'] exI [of _ "x # ds"]) simp
qed

text \<open>Both halves.\<close>

lemma run_downlink_sealed:
  assumes "saead_config c" "psa_sized psa" "downlink_inv c saead_inv d" "dl_decrypt_work d = (dl_decrypt_queue d \<noteq> [])"
    "\<forall>n. malloc_ok (dl_heap d) n" "sound_session psa E (dl_crypto d)" "list_all valid_entries ess"
    "map contents (dl_decrypt_queue d) = seal E POUCH_ROLE_SERVER (sa_downlink (dl_crypto d)) (map entries_body ess)"
    "dl_consume_queue d = []" "\<not> dl_consume_work d"
  shows "\<exists>d'. run_downlink (saead_ops c psa alg) hs (d, a) = Some (map_option (Pair d') (deliver_pouch hs ess a))
    \<and> dl_decrypt_queue d' = [] \<and> dl_consume_queue d' = [] \<and> dl_buf d' = dl_buf d"
proof -
  obtain d1 ds where 1: "run_downlink (saead_ops c psa alg) hs (d, a) = run_downlink (saead_ops c psa alg) hs (d1, a)"
    "\<not> dl_decrypt_work d1" "dl_decrypt_queue d1 = []" "dl_consume_queue d1 = ds" "list_all2 entries_block ds ess"
    "dl_consume_work d1 = (ds \<noteq> [])" "dl_buf d1 = dl_buf d"
    using run_decrypt [OF assms(1-8), of alg hs a] assms(9,10) by auto
  have "list_all2 entries_block (dl_consume_queue d1) ess" "dl_consume_work d1 = (dl_consume_queue d1 \<noteq> [])" using 1 by simp_all
  from run_consume [OF this(1) 1(2) this(2), of "saead_ops c psa alg" hs a] 1 show ?thesis by auto
qed

section \<open>From the transport to the handlers\<close>

text \<open>Behind the header a push only moves bytes into the buffer and blocks into the queue.\<close>

definition rx_frame :: "'c downlink \<Rightarrow> 'c downlink \<Rightarrow> bool" where
  "rx_frame d d' \<longleftrightarrow> dl_header d' = dl_header d \<and> dl_crypto d' = dl_crypto d \<and> dl_consume_queue d' = dl_consume_queue d
     \<and> dl_consume_work d' = dl_consume_work d \<and> malloc_ok (dl_heap d') = malloc_ok (dl_heap d)
     \<and> (dl_decrypt_work d' \<or> dl_decrypt_work d' = dl_decrypt_work d \<and> dl_decrypt_queue d' = dl_decrypt_queue d)"

lemma rx_frame_trans: "rx_frame d d1 \<Longrightarrow> rx_frame d1 d2 \<Longrightarrow> rx_frame d d2"
  by (auto simp: rx_frame_def)

lemma push_block_frame: "push_block c b d = Some (go, d') \<Longrightarrow> rx_frame d d'"
  by (auto simp: push_block_def Let_def rx_frame_def block_downlink_push_def decrypt_submit_def decrypt_work_submit_def
      buf_alloc_def malloc_def split: if_splits option.splits bind_splits prod.splits)

lemma push_frame: "pouch_downlink_push c codec ops buf d = Some d' \<Longrightarrow> dl_header d \<Longrightarrow> rx_frame d d'"
proof (induction c codec ops buf d rule: pouch_downlink_push.induct)
  case (1 c codec ops buf d)
  show ?case
  proof (cases "buf = [] \<or> dl_buf d = None \<or> (\<exists>b. dl_buf d = Some b \<and> MAX_CIPHERTEXT_BLOCK_SIZE c \<le> buf_size_get b)")
    case True
    then have "d' = d" using 1(2) by (auto simp: pouch_downlink_push.simps [of c codec ops buf d] split: if_splits)
    then show ?thesis by (simp add: rx_frame_def)
  next
    case False
    then obtain b where b: "buf \<noteq> []" "dl_buf d = Some b" "\<not> MAX_CIPHERTEXT_BLOCK_SIZE c \<le> buf_size_get b" by auto
    define n where "n = min (length buf) (MAX_CIPHERTEXT_BLOCK_SIZE c - buf_size_get b)"
    obtain b1 go d1 where s: "buf_write (take n buf) b = Some b1" "push_block c b1 (d\<lparr>dl_buf := Some b1\<rparr>) = Some (go, d1)"
      "(if \<not> go then Some d1 else pouch_downlink_push c codec ops (drop n buf) d1) = Some d'"
      using 1(2,3) b by (subst (asm) pouch_downlink_push.simps) (auto simp: Let_def n_def push_header_def split: option.splits if_splits)
    have f: "rx_frame d d1" using push_block_frame [OF s(2)] by (simp add: rx_frame_def)
    show ?thesis
    proof (cases go)
      case False
      with s(3) f show ?thesis by simp
    next
      case True
      have "dl_header d1" using f 1(3) by (simp add: rx_frame_def)
      then have "rx_frame d1 d'"
        using 1(1) [OF b(1,2,3) n_def s(1)] s(2,3) True 1(3) by (simp add: push_header_def)
      with f show ?thesis by (rule rx_frame_trans)
    qed
  qed
qed

lemma push_all_frame: "push_all c codec ops pieces d = Some d' \<Longrightarrow> dl_header d \<Longrightarrow> rx_frame d d'"
proof (induction pieces arbitrary: d)
  case Nil
  then show ?case by (simp add: rx_frame_def)
next
  case (Cons p pieces)
  then obtain d1 where "pouch_downlink_push c codec ops p d = Some d1" "push_all c codec ops pieces d1 = Some d'" by (auto split: bind_splits)
  moreover from this have "rx_frame d d1" using push_frame Cons.prems(2) by blast
  ultimately show ?case using Cons.IH [of d1] Cons.prems(2) rx_frame_trans by (auto simp: rx_frame_def)
qed

text \<open>Blocks that arrive one by one are all queued.\<close>

context crypto_provider
begin

lemma push_each_block:
  assumes "downlink_inv c cinv d" "dl_header d" "dl_buf d \<noteq> None" "rx_bytes d = []" "\<forall>n. malloc_ok (dl_heap d) n"
    "list_all (valid_block c) xs" "push_all c codec ops xs d = Some d'"
  shows "map contents (dl_decrypt_queue d') = map contents (dl_decrypt_queue d) @ xs \<and> rx_bytes d' = []"
  using assms
proof (induction xs arbitrary: d)
  case Nil
  then show ?case by simp
next
  case (Cons x xs)
  obtain b where b: "dl_buf d = Some b" "contents b = []" using Cons.prems(3,4) by (auto simp: rx_bytes_def)
  have x: "framed x" "3 \<le> length x" "length x + length [] \<le> MAX_CIPHERTEXT_BLOCK_SIZE c" using Cons.prems(6) by (simp_all add: valid_block_def)
  obtain b' d1 where p: "pouch_downlink_push c codec ops x d = Some d1" "contents b' = x"
    "dl_decrypt_queue d1 = dl_decrypt_queue d @ [b']" "rx_bytes d1 = []" "dl_buf d1 \<noteq> None"
    using push_front_block [OF config_ok Cons.prems(1,2) b Cons.prems(5) x, of codec ops] by auto
  have "downlink_inv c cinv d1" using push_spec [OF Cons.prems(1), of codec x] p(1) by (auto simp: push_post_def)
  moreover have "dl_header d1" "\<forall>n. malloc_ok (dl_heap d1) n"
    using push_frame [OF p(1) Cons.prems(2)] Cons.prems(2,5) by (simp_all add: rx_frame_def)
  ultimately show ?case using Cons.IH [of d1] Cons.prems(6,7) p by simp
qed

end

lemma take_seal: "take k (seal E sender ss xs) = seal E sender ss (take k xs)"
  by (induction xs arbitrary: k ss) (simp_all add: take_Cons' Let_def)

lemma valid_sealed:
  assumes "valid_config c" "\<And>n ad x. length (E n ad x) = length x + AUTH_TAG_LEN"
    "MAX_CIPHERTEXT_BLOCK_SIZE c = MAX_PLAINTEXT_BLOCK_SIZE c + AUTH_TAG_LEN"
    "list_all (\<lambda>x. x \<noteq> [] \<and> length x + 2 \<le> MAX_PLAINTEXT_BLOCK_SIZE c) xs"
  shows "list_all (valid_block c) (seal E sender ss xs)"
  using assms(4)
proof (induction xs arbitrary: ss)
  case (Cons x xs)
  let ?y = "E (nonce_generate ss sender) (block_ad ss) x"
  have "length ?y + 2 \<le> MAX_CIPHERTEXT_BLOCK_SIZE c" "length ?y < 65536"
    using assms(2,3) Cons.prems valid_config_sizes(1) [OF assms(1)] by simp_all
  then have "valid_block c (sized ?y)"
    using framed_sized [of ?y] assms(2) by (simp add: valid_block_def sized_def AUTH_TAG_LEN_def)
  with Cons show ?case by (simp add: Let_def)
qed simp

lemma sealed_pouch_delivered:
  assumes "saead_config c" "psa_sized psa" "downlink_inv c saead_inv d" "dl_header d" "dl_buf d \<noteq> None" "rx_bytes d = []"
    "dl_decrypt_queue d = []" "\<not> dl_decrypt_work d" "dl_consume_queue d = []" "\<not> dl_consume_work d" "\<forall>n. malloc_ok (dl_heap d) n"
    and "sound_session psa E (dl_crypto d)"
    and "list_all (\<lambda>es. list_all valid_entry es \<and> length (concat (map entry_image es)) \<le> MAX_BLOCK_PAYLOAD_SIZE c) ess"
  defines "blocks \<equiv> seal E POUCH_ROLE_SERVER (sa_downlink (dl_crypto d)) (map entries_body ess)"
  assumes "concat pieces = concat blocks"
  shows "\<exists>k d1 d2. push_all c codec (saead_ops c psa alg) pieces d = Some d1
    \<and> run_downlink (saead_ops c psa alg) hs (d1, a) = Some (map_option (Pair d2) (deliver_pouch hs (take k ess) a))
    \<and> rx_bytes d2 = concat (drop k blocks) \<and> dl_decrypt_queue d2 = [] \<and> dl_consume_queue d2 = []
    \<and> (pieces = blocks \<longrightarrow> take k ess = ess)"
proof -
  have vc: "valid_config c" using assms(1) by (simp add: saead_config_def)
  have tag: "length (E n ad x) = length x + AUTH_TAG_LEN" for n ad x using assms(12) by (simp add: sound_session_def aead_sound_def)
  have "list_all (\<lambda>x. x \<noteq> [] \<and> length x + 2 \<le> MAX_PLAINTEXT_BLOCK_SIZE c) (map entries_body ess)"
    using assms(13) by (auto simp: list_all_iff entries_body_def MAX_PLAINTEXT_BLOCK_SIZE_def BLOCK_HEADER_SIZE_def)
  then have vb: "list_all (valid_block c) blocks" unfolding blocks_def by (intro valid_sealed [OF vc tag saead_sizes [OF assms(1)]])
  have cat: "rx_bytes d @ concat pieces = concat blocks" using assms(6,15) by simp
  obtain k bs d1 where 1: "push_all c codec (saead_ops c psa alg) pieces d = Some d1" "dl_decrypt_queue d1 = bs" "map contents bs = take k blocks"
    "rx_bytes d1 = concat (drop k blocks)" "downlink_inv c saead_inv d1"
    using crypto_provider.push_all_spec [OF saead_provider [OF assms(1,2)] assms(3-5,11) vb cat, of codec alg] assms(7) by auto
  have f: "rx_frame d d1" by (rule push_all_frame [OF 1(1) assms(4)])
  have w: "dl_decrypt_work d1 = (dl_decrypt_queue d1 \<noteq> [])"
    using f 1(5) assms(7,8) by (auto simp: rx_frame_def downlink_inv_def downlink_core_def)
  have ve: "list_all valid_entries (take k ess)"
    using assms(13) valid_config_payload [OF vc] by (auto simp: list_all_iff valid_entries_def dest!: in_set_takeD)
  have "map contents (dl_decrypt_queue d1) = seal E POUCH_ROLE_SERVER (sa_downlink (dl_crypto d1)) (map entries_body (take k ess))"
    using f by (simp add: 1(2,3) blocks_def take_seal rx_frame_def take_map)
  then obtain d2 where 2: "run_downlink (saead_ops c psa alg) hs (d1, a) = Some (map_option (Pair d2) (deliver_pouch hs (take k ess) a))"
    "dl_decrypt_queue d2 = []" "dl_consume_queue d2 = []" "dl_buf d2 = dl_buf d1"
    using run_downlink_sealed [OF assms(1,2) 1(5) w, of E "take k ess" alg hs a] f assms(9-12) ve by (auto simp: rx_frame_def)
  have "take k ess = ess" if "pieces = blocks"
  proof -
    have "map contents bs = blocks"
      using crypto_provider.push_each_block [OF saead_provider [OF assms(1,2)] assms(3-6,11) vb, of codec alg d1] 1(1,2) assms(7) that by simp
    then have "length blocks \<le> k" using 1(3) by (metis length_take min.absorb_iff2 min.cobounded2 nat_le_linear)
    then show ?thesis by (simp add: blocks_def)
  qed
  moreover have "rx_bytes d2 = concat (drop k blocks)" using 1(4) 2(4) by (simp add: rx_bytes_def)
  ultimately show ?thesis using 1(1) 2(1-3) by blast
qed

end
