(* ===== verification/Samples.thy ===== *)
theory Samples
  imports Crypto_None Saead Gatt Node_Runs Fw_Update Channel
begin

text \<open>
  Concrete instances of the parameters: an allocator that never fails, a header codec of one byte, a
  PSA stub, and a small CBOR library. They show that the assumptions about external code can hold and serve the examples.
\<close>

definition sample_heap :: heap where
  "sample_heap = \<lparr>bufs = 0, mallocs = 0, malloc_ok = (\<lambda>_. True), junk = (\<lambda>_ _. 0)\<rparr>"

definition sample_header :: pouch_header where
  "sample_header = \<lparr>ph_version = 1, ph_encryption_info = Plaintext_info []\<rparr>"

definition sample_codec :: header_codec where
  "sample_codec = \<lparr>cbor_encode_pouch_header = (\<lambda>n hd. if n = 0 then None else Some [0xA1]),
     cbor_decode_pouch_header = (\<lambda>xs. case xs of [] \<Rightarrow> None | _ \<Rightarrow> Some (sample_header, 1))\<rparr>"

text \<open>An encoder of the header's schema for short versions and ids.\<close>

definition sample_cbor_codec :: header_codec where
  "sample_cbor_codec = sample_codec\<lparr>cbor_encode_pouch_header := (\<lambda>n hd.
     case ph_encryption_info hd of
       Plaintext_info d \<Rightarrow>
         let xs = [0x82, 1, 0x82, 0] @ (if length d < 24 then [0x60 + word_of_nat (length d)] else if length d < 256 then [0x78, word_of_nat (length d)]
             else [0x79] @ sys_put_be16 (word_of_nat (length d))) @ d in
         if length xs \<le> n then Some xs else None
     | Saead_info _ \<Rightarrow> None)\<rparr>"

lemma sample_cbor_codec_ok: "encoder_bounded sample_cbor_codec" "encoder_cbor sample_cbor_codec"
  by (auto simp: encoder_bounded_def encoder_cbor_def sample_cbor_codec_def plaintext_header_size_def cbor_tstr_size_def Let_def
      split: encryption_info.splits if_splits)

definition sample_psa :: "unit psa_ops" where
  "sample_psa = \<lparr>psa_generate_random = (\<lambda>n p. (Some (replicate n 7), p)), psa_destroy_key = (\<lambda>k p. p),
     psa_copy_key = (\<lambda>k u p. (Some k, p)), psa_key_derivation_setup = (\<lambda>p. (True, p)),
     psa_key_derivation_key_agreement = (\<lambda>k xs p. (True, p)), psa_key_derivation_input_bytes = (\<lambda>xs p. (True, p)),
     psa_key_derivation_output_key = (\<lambda>a p. (Some 5, p)), psa_key_derivation_abort = (\<lambda>p. p),
     psa_aead_encrypt = (\<lambda>p k a n ad xs m. if length xs + 16 \<le> m then Some (xs @ replicate 16 0) else None),
     psa_aead_decrypt = (\<lambda>p k a n ad xs m. if length xs = m + 16 then Some (take m xs) else None),
     base64_encode = (\<lambda>xs m. if 24 < m then Some (replicate 24 65) else None)\<rparr>"

definition sample_session :: session where
  "sample_session = \<lparr>ss_id = \<lparr>sid_type = SESSION_ID_TYPE_RANDOM, sid_initiator = POUCH_ROLE_DEVICE, sid_value = replicate 16 0\<rparr>,
     ss_flags = 0, ss_algorithm = PSA_ALG_CHACHA20_POLY1305, ss_key = 0, ss_pouch_id = 0, ss_block_index = 0,
     ss_ad = replicate 16 0\<rparr>"

definition sample_cert :: "unit cert_state" where
  "sample_cert = \<lparr>dev_certificate = \<lparr>pc_buffer = Some [1, 2, 3], pc_size = 3\<rparr>, dev_ref = replicate 32 9,
     srv_pubkey = \<lparr>pk_data = replicate 65 4, pk_len = 65\<rparr>, srv_serial_data = replicate 20 0, srv_serial_len = 0, ca_cert = None\<rparr>"

definition sample_saead :: "(unit, unit) saead" where
  "sample_saead = \<lparr>sa_uplink = sample_session, sa_downlink = sample_session, server_seqnum = 0, server_pouch_id = 0,
     sa_pkey = 1, sa_cert = sample_cert, sa_psa = ()\<rparr>"

definition sample_tls :: "(unit, unit) tls_ops" where
  "sample_tls = \<lparr>raw_ca_cert = [1], mbedtls_x509_crt_parse = (\<lambda>xs. Some ()), mbedtls_x509_crt_verify = (\<lambda>x ca. True),
     crt_serial = (\<lambda>x. [1, 2, 3]), mbedtls_pk_ec = (\<lambda>x. Some ()),
     mbedtls_ecp_write_public_key = (\<lambda>k out. (True, out\<lparr>pk_len := 65\<rparr>)),
     psa_hash_compute = (\<lambda>xs out. (True, 32, replicate (length out) 9))\<rparr>"

definition sample_none :: crypto_none where
  "sample_none = \<lparr>device_id = Some (cstr ''dev'')\<rparr>"

lemma sample_codec_bounded [simp]: "encoder_bounded sample_codec"
  by (simp add: encoder_bounded_def sample_codec_def)

lemma sample_psa_sized [simp]: "psa_sized sample_psa"
  by (auto simp: psa_sized_def sample_psa_def split: if_splits)

lemma sample_saead_inv [simp]: "saead_inv sample_saead"
  by (simp add: saead_inv_def sample_saead_def sample_session_def sample_cert_def AUTH_TAG_LEN_def SIZE_MOD_def)

lemma sample_none_inv [simp]: "none_inv sample_none"
  by (simp add: none_inv_def sample_none_def cstr_def POUCH_DEVICE_ID_MAX_LEN_def)

lemma sample_heap_fields [simp]: "bufs sample_heap = 0" "malloc_ok sample_heap n"
  by (simp_all add: sample_heap_def)

interpretation saead: crypto_provider default_config "saead_ops default_config sample_psa PSA_ALG_CHACHA20_POLY1305" saead_inv
  by (rule saead_provider) simp_all

section \<open>An AEAD\<close>

text \<open>A PSA whose tag depends on the nonce, the additional data and the text, and whose decryption checks it.\<close>

definition sample_aead :: aead where
  "sample_aead n ad x = x @ replicate 15 0 @ [sum_list (n @ ad @ x)]"

definition checking_psa :: "unit psa_ops" where
  "checking_psa = sample_psa\<lparr>psa_aead_encrypt := (\<lambda>p k a n ad xs m. if length xs + 16 \<le> m then Some (sample_aead n ad xs) else None),
     psa_aead_decrypt := (\<lambda>p k a n ad ys m. if length ys = m + 16 \<and> ys = sample_aead n ad (take m ys) then Some (take m ys) else None)\<rparr>"

lemma checking_psa_sized [simp]: "psa_sized checking_psa"
  by (auto simp: psa_sized_def checking_psa_def sample_psa_def sample_aead_def split: if_splits)

lemma checking_psa_sound: "sound_session checking_psa sample_aead s"
  by (auto simp: sound_session_def aead_sound_def aead_complete_def checking_psa_def sample_aead_def AUTH_TAG_LEN_def split: if_splits)

section \<open>A downlink that has seen its header\<close>

definition sample_downlink :: "'c \<Rightarrow> 'c downlink" where
  "sample_downlink cr = \<lparr>dl_buf = None, dl_header = False, dl_decrypt_queue = [], dl_decrypt_work = False,
     dl_consume_queue = [], dl_consume_work = False, dl_heap = sample_heap, dl_crypto = cr\<rparr>"

definition sample_receiving :: "'c \<Rightarrow> 'c downlink" where
  "sample_receiving cr = (sample_downlink cr)\<lparr>dl_header := True,
     dl_buf := Some \<lparr>pb_bytes = 0, pb_data = replicate 531 0\<rparr>, dl_heap := sample_heap\<lparr>bufs := 1\<rparr>\<rparr>"

lemma sample_receiving_fields:
  "dl_header (sample_receiving cr)" "dl_buf (sample_receiving cr) \<noteq> None" "\<forall>n. malloc_ok (dl_heap (sample_receiving cr)) n"
  "rx_bytes (sample_receiving cr) = []" "dl_decrypt_queue (sample_receiving cr) = []"
  by (simp_all add: sample_receiving_def sample_downlink_def rx_bytes_def contents_def)

lemma sample_receiving_idle:
  "\<not> dl_decrypt_work (sample_receiving cr)" "dl_consume_queue (sample_receiving cr) = []" "\<not> dl_consume_work (sample_receiving cr)"
  by (simp_all add: sample_receiving_def sample_downlink_def)

lemma sample_receiving_crypto: "dl_crypto (sample_receiving cr) = cr" "sa_downlink sample_saead = sample_session"
  by (simp_all add: sample_receiving_def sample_downlink_def sample_saead_def)

definition sample_entry :: pouch_entry where
  "sample_entry = \<lparr>pe_path = cstr ''led'', pe_content_type = 50, pe_data = [1, 2]\<rparr>"

lemma sample_receiving_buf:
  "dl_buf (sample_receiving cr) = Some \<lparr>pb_bytes = 0, pb_data = replicate 531 0\<rparr>"
  "contents \<lparr>pb_bytes = 0, pb_data = replicate 531 0\<rparr> = []"
  by (simp_all add: sample_receiving_def contents_def)

lemma sample_receiving_inv: "cinv cr \<Longrightarrow> downlink_inv default_config cinv (sample_receiving cr)"
  by (simp add: sample_receiving_def sample_downlink_def downlink_inv_def downlink_core_def rx_room_def rx_buf_ok_def
      wf_buf_def SIZE_MOD_def)

lemma sample_downlink_started:
  "cinv cr \<Longrightarrow> downlink_inv default_config cinv (pouch_downlink_start default_config (sample_downlink cr))"
  by (simp add: pouch_downlink_start_def sample_downlink_def buf_alloc_def malloc_def sample_heap_def downlink_inv_def
      downlink_core_def rx_room_def rx_buf_ok_def wf_buf_def SIZE_MOD_def)

section \<open>An open session with a block to send\<close>

lemma checking_psa_encrypts: "aead_encrypts checking_psa p k alg sample_aead" "aead_available checking_psa p k alg"
  by (auto simp: aead_encrypts_def aead_available_def checking_psa_def sample_aead_def AUTH_TAG_LEN_def split: if_splits)

definition sample_saead_active :: "(unit, unit) saead" where
  "sample_saead_active = sample_saead\<lparr>sa_uplink := sample_session\<lparr>ss_flags := set_bit SESSION_ACTIVE_FLAG 0\<rparr>\<rparr>"

lemma sample_saead_active_fields:
  "saead_inv sample_saead_active" "bit (ss_flags (sa_uplink sample_saead_active)) SESSION_ACTIVE_FLAG"
  using sample_saead_inv by (simp_all add: sample_saead_active_def saead_inv_def sample_session_def SESSION_ACTIVE_FLAG_def AUTH_TAG_LEN_def)

definition sample_sending :: "'c \<Rightarrow> 'c node" where
  "sample_sending cr = set_flag SESSION_ACTIVE
     (map_up (\<lambda>u. u\<lparr>up_processing_queue := [\<lparr>pb_bytes = 4, pb_data = [0, 2, 0xC0, 5]\<rparr>]\<rparr>) (boot_node (sample_heap\<lparr>bufs := 1\<rparr>) cr))"

lemma sample_sending_fields:
  "n_crypto (sample_sending cr) = cr" "node_inv default_config (sample_sending cr)" "session_is_active (sample_sending cr)"
  "pouch_is_open (sample_sending cr)" "pending (sample_sending cr) = []" "header_bytes (sample_sending cr) = []"
  "map body (up_processing_queue (n_up (sample_sending cr))) = [[0xC0, 5]]" "malloc_ok (n_heap (sample_sending cr)) n"
  by (simp_all add: sample_sending_def boot_node_def uplink_init_def node_inv_def flag_tests flag_numbers wf_reader_def
      buf_queue_init_def pending_def view_rest_def sendable_def framed_def wf_buf_def SIZE_MOD_def contents_def body_def header_bytes_def
      sys_get_be16_def)

section \<open>A closed session with bytes to send\<close>

definition sample_closed :: "'c \<Rightarrow> 'c node" where
  "sample_closed cr = set_flag POUCH_CLOSED (set_flag SESSION_ACTIVE
     (map_up (\<lambda>u. u\<lparr>up_transport_queue := [\<lparr>pb_bytes = 1, pb_data = [0xA1]\<rparr>, \<lparr>pb_bytes = 3, pb_data = [0, 1, 9]\<rparr>]\<rparr>)
        (boot_node (sample_heap\<lparr>bufs := 2\<rparr>) cr)))"

lemma sample_closed_fields:
  "n_crypto (sample_closed cr) = cr" "node_inv c (sample_closed cr)" "session_is_active (sample_closed cr)"
  "\<not> pouch_is_open (sample_closed cr)" "pending (sample_closed cr) = [0xA1, 0, 1, 9]"
  by (simp_all add: sample_closed_def boot_node_def uplink_init_def node_inv_def flag_tests flag_numbers wf_reader_def
      buf_queue_init_def pending_def view_rest_def transportable_def wf_buf_def SIZE_MOD_def contents_def)

definition uplink_packetizer :: "config \<Rightarrow> 'c crypto_ops \<Rightarrow> 'c node golioth_ble_gatt_packetizer" where
  "uplink_packetizer c ops =
     \<lparr>pk_fill = GOLIOTH_BLE_GATT_PACKETIZER_FILL_CALLBACK (uplink_fill_cb c ops True), pk_is_first = True, pk_error = OK\<rparr>"

section \<open>Services\<close>

text \<open>An application that keeps what it is given, behind a service for settings and the service for components.\<close>

definition sample_service :: "byte list ota golioth_downlink_service" where
  "sample_service = \<lparr>svc_path = cstr ''/.c'', svc_start_cb = None,
     svc_data_cb = (\<lambda>i data len is_last o'. Some (o'\<lparr>ot_app := (case data of None \<Rightarrow> [] | Some xs \<Rightarrow> xs)\<rparr>))\<rparr>"

definition sample_component :: "byte list golioth_ota_registered_component" where
  "sample_component = \<lparr>rc_name = cstr ''fw'', rc_version = cstr ''1'',
     rc_receive = (\<lambda>data offset len is_last a. Some (take offset a @ (case data of None \<Rightarrow> [] | Some xs \<Rightarrow> xs))),
     rc_data = \<lparr>rd_target = replicate 32 0, rd_target_hash = replicate 32 0, rd_size = 0, rd_state = GOLIOTH_OTA_STATE_DOWNLOADING\<rparr>\<rparr>"

definition sample_ota :: "byte list ota" where
  "sample_ota = \<lparr>ot_download = \<lparr>cd_downlink_id = DOWNLINK_ID_INVALID, cd_offset = 0, cd_name = replicate 33 0, cd_version = replicate 33 0\<rparr>,
     ot_components = [sample_component], ot_app = []\<rparr>"

definition sample_services :: "byte list ota golioth_downlink_service list" where
  "sample_services = [sample_service, ota_component_service]"

lemma sample_find:
  "find_service sample_services 0 (cstr ''/.c'') = Some (Some (0, False, 3))"
  "find_service sample_services 0 (cstr ''/.config'') = Some (Some (0, False, 3))"
  "find_service sample_services 0 (cstr ''/.u/c/fw@2'') = Some (Some (1, True, 6))"
  "find_service sample_services 0 (cstr ''/.u/c/'') = Some (Some (1, True, 6))"
  by (simp_all add: sample_services_def sample_service_def ota_component_service_def service_prefix_def cstr_def of_char_def)

section \<open>A small CBOR library\<close>

text \<open>
  It reads items of definite length with a short argument. Its state is the input that is left, the number
  of items that are left in the innermost container, those of the containers around it, and the number of containers that may be opened.
\<close>

type_synonym cbor_state = "byte list \<times> nat \<times> nat list \<times> nat"

definition cbor_head :: "byte \<Rightarrow> cbor_state \<Rightarrow> (nat \<times> cbor_state) option" where
  "cbor_head major = (\<lambda>(xs, n, ns, k).
     case xs of [] \<Rightarrow> None
     | x # ys \<Rightarrow>
         if drop_bit 5 x \<noteq> major \<or> n = 0 then None
         else if take_bit 5 x < 24 then Some (unat (take_bit 5 x), ys, n - 1, ns, k)
         else if take_bit 5 x = 24 then (case ys of [] \<Rightarrow> None | y # ys \<Rightarrow> Some (unat y, ys, n - 1, ns, k))
         else None)"

definition cbor_open :: "byte \<Rightarrow> nat \<Rightarrow> cbor_state \<Rightarrow> bool \<times> cbor_state" where
  "cbor_open major width z =
     (case cbor_head major z of
        Some (m, xs, n, ns, Suc k) \<Rightarrow> (True, xs, width * m, n # ns, k) | _ \<Rightarrow> (False, z))"

definition cbor_close :: "bool \<Rightarrow> cbor_state \<Rightarrow> bool \<times> cbor_state" where
  "cbor_close force z = (case z of (xs, n, m # ns, k) \<Rightarrow> if force \<or> n = 0 then (True, xs, m, ns, Suc k) else (False, z) | _ \<Rightarrow> (False, z))"

definition cbor_text :: "cbor_state \<Rightarrow> (u32 \<times> byte list) option \<times> cbor_state" where
  "cbor_text z = (case cbor_head 3 z of
     Some (m, xs, z') \<Rightarrow> if m \<le> length xs then (Some (4096, take m xs), drop m xs, z') else (None, z) | None \<Rightarrow> (None, z))"

definition cbor_uint :: "cbor_state \<Rightarrow> nat option \<times> cbor_state" where
  "cbor_uint z = (case cbor_head 0 z of Some (m, z') \<Rightarrow> (Some m, z') | None \<Rightarrow> (None, z))"

definition cbor_simple :: "nat \<Rightarrow> cbor_state \<Rightarrow> bool \<times> cbor_state" where
  "cbor_simple v z = (case cbor_head 7 z of Some (m, z') \<Rightarrow> if m = v then (True, z') else (False, z) | None \<Rightarrow> (False, z))"

definition cbor_skip :: "cbor_state \<Rightarrow> bool \<times> cbor_state" where
  "cbor_skip z =
     (case cbor_text z of (Some _, z') \<Rightarrow> (True, z') | _ \<Rightarrow>
     (case cbor_uint z of (Some _, z') \<Rightarrow> (True, z') | _ \<Rightarrow>
     (case cbor_head 7 z of Some (_, z') \<Rightarrow> (True, z') | None \<Rightarrow> (False, z))))"

definition sample_zcbor :: "cbor_state zcbor_ops" where
  "sample_zcbor = \<lparr>zcbor_new_decode_state = (\<lambda>k xs. (xs, 1, [], k)), zs_indefinite = (\<lambda>_. False),
     zs_payload = (\<lambda>(xs, _). case xs of [] \<Rightarrow> None | x # _ \<Rightarrow> Some x), zs_elem_count = (\<lambda>(_, n, _). n),
     zcbor_map_start_decode = cbor_open 5 2, zcbor_map_end_decode = cbor_close False, zcbor_list_start_decode = cbor_open 4 1,
     zcbor_list_map_end_force_decode = cbor_close True, zcbor_nil_expect = cbor_simple 22, zcbor_any_skip = cbor_skip,
     zcbor_tstr_decode = cbor_text,
     zcbor_uint32_decode = (\<lambda>z. map_prod (map_option word_of_nat) id (cbor_uint z)),
     zcbor_int32_decode = (\<lambda>z. map_prod (map_option word_of_nat) id (cbor_uint z)),
     zcbor_int64_decode = (\<lambda>z. map_prod (map_option word_of_nat) id (cbor_uint z)),
     zcbor_bool_decode = (\<lambda>z. case cbor_simple 20 z of (True, z') \<Rightarrow> (Some False, z')
        | _ \<Rightarrow> (case cbor_simple 21 z of (True, z') \<Rightarrow> (Some True, z') | _ \<Rightarrow> (None, z))),
     zcbor_float_decode = (\<lambda>z. (None, z))\<rparr>"

definition cbor_left :: "cbor_state \<Rightarrow> nat" where
  "cbor_left z = length (fst z)"

lemma cbor_head_left: "cbor_head m z = Some (n, z') \<Longrightarrow> cbor_left z' < cbor_left z"
  by (auto simp: cbor_head_def cbor_left_def split: list.splits prod.splits if_splits)

lemma cbor_left_cases:
  "cbor_open m w z = (ok, z') \<Longrightarrow> cbor_left z' \<le> cbor_left z" "cbor_close f z = (ok, z') \<Longrightarrow> cbor_left z' \<le> cbor_left z"
  "cbor_text z = (Some v, z') \<Longrightarrow> cbor_left z' < cbor_left z" "cbor_text z = (t, z') \<Longrightarrow> cbor_left z' \<le> cbor_left z"
  "cbor_uint z = (Some n, z') \<Longrightarrow> cbor_left z' < cbor_left z" "cbor_uint z = (u, z') \<Longrightarrow> cbor_left z' \<le> cbor_left z"
  "cbor_simple n z = (ok, z') \<Longrightarrow> cbor_left z' \<le> cbor_left z" "cbor_skip z = (True, z') \<Longrightarrow> cbor_left z' < cbor_left z"
proof -
  show t: "cbor_text z = (Some v, z') \<Longrightarrow> cbor_left z' < cbor_left z" for v z'
    by (auto simp: cbor_text_def cbor_left_def dest!: cbor_head_left split: option.splits if_splits)
  show u: "cbor_uint z = (Some n, z') \<Longrightarrow> cbor_left z' < cbor_left z" for n z'
    by (auto simp: cbor_uint_def dest!: cbor_head_left split: option.splits)
  show "cbor_open m w z = (ok, z') \<Longrightarrow> cbor_left z' \<le> cbor_left z"
    by (auto simp: cbor_open_def cbor_left_def dest!: cbor_head_left split: option.splits nat.splits)
  show "cbor_close f z = (ok, z') \<Longrightarrow> cbor_left z' \<le> cbor_left z"
    by (auto simp: cbor_close_def cbor_left_def split: prod.splits list.splits if_splits)
  show "cbor_text z = (t, z') \<Longrightarrow> cbor_left z' \<le> cbor_left z"
    by (auto simp: cbor_text_def cbor_left_def dest!: cbor_head_left split: option.splits if_splits)
  show "cbor_uint z = (u, z') \<Longrightarrow> cbor_left z' \<le> cbor_left z"
    by (auto simp: cbor_uint_def dest!: cbor_head_left split: option.splits)
  show "cbor_simple n z = (ok, z') \<Longrightarrow> cbor_left z' \<le> cbor_left z"
    by (auto simp: cbor_simple_def dest!: cbor_head_left split: option.splits if_splits)
  show "cbor_skip z = (True, z') \<Longrightarrow> cbor_left z' < cbor_left z"
    by (auto simp: cbor_skip_def dest!: cbor_head_left t u split: option.splits prod.splits)
qed

lemma sample_zcbor_consumes: "zcbor_consumes sample_zcbor cbor_left"
  unfolding zcbor_consumes_def sample_zcbor_def
  by (auto simp: map_prod_def dest: cbor_left_cases split: prod.splits bool.splits)

text \<open>An encoder of the same kind; its state is the size of the buffer and the bytes.\<close>

definition cbor_put :: "byte list \<Rightarrow> nat \<times> byte list \<Rightarrow> bool \<times> nat \<times> byte list" where
  "cbor_put ys = (\<lambda>(n, xs). if length xs + length ys \<le> n then (True, n, xs @ ys) else (False, n, xs))"

definition sample_zcbor_enc :: "(nat \<times> byte list) zcbor_enc_ops" where
  "sample_zcbor_enc = \<lparr>zcbor_new_encode_state = (\<lambda>k n. (n, [])), ze_bytes = (\<lambda>(n, xs). take n xs),
     zcbor_map_start_encode = (\<lambda>n. cbor_put [0xBF]), zcbor_map_end_encode = (\<lambda>n. cbor_put [0xFF]),
     zcbor_tstr_put = (\<lambda>s. cbor_put ((0x60 + word_of_nat (length s)) # s)),
     zcbor_uint32_put = (\<lambda>v. cbor_put [ucast v]), zcbor_int64_put = (\<lambda>v. cbor_put [ucast v]), zcbor_nil_put = cbor_put [0xF6]\<rparr>"

lemma sample_zcbor_enc_sized: "zcbor_enc_sized sample_zcbor_enc fst"
  by (auto simp: zcbor_enc_sized_def zcbor_put_ok_def sample_zcbor_enc_def cbor_put_def min_def split: prod.splits if_splits)

text \<open>Documents.\<close>

definition cbor_str :: "string \<Rightarrow> byte list" where
  "cbor_str s = (0x60 + word_of_nat (length s)) # cstr s"

definition sample_settings_doc :: "byte list" where
  "sample_settings_doc = [0xA2] @ cbor_str ''A'' @ [5] @ cbor_str ''B'' @ [0xF5]"

definition sample_handlers :: "byte list golioth_settings_handler list" where
  "sample_handlers = [GOLIOTH_SETTINGS_HANDLER (cstr ''A'') (Int_cb (\<lambda>n a. Some (OK, a @ [ucast n]))),
     GOLIOTH_SETTINGS_HANDLER (cstr ''B'') (Int_cb (\<lambda>n a. Some (OK, a @ [ucast n])))]"

fun sample_hex2bin :: "byte list \<Rightarrow> byte list" where
  "sample_hex2bin (a # b # xs) = (16 * (a - 48) + (b - 48)) # sample_hex2bin xs"
| "sample_hex2bin _ = []"

definition sample_manifest_env :: "(cbor_state, byte list) manifest_env" where
  "sample_manifest_env = \<lparr>mv_config = default_ota_config, mv_zcbor = sample_zcbor, hex2bin = (\<lambda>xs n. take n (sample_hex2bin xs)),
     mv_handlers = [\<lambda>ms o'. Some (o'\<lparr>ot_app := ot_app o' @ [word_of_nat (length ms)]\<rparr>)], mv_stack_key = ZCBOR_U32_KEY 0, mv_stack_hash = replicate 65 9\<rparr>"

definition sample_manifest_doc :: "byte list" where
  "sample_manifest_doc = [0xA1, 3, 0x81, 0xA4, 1] @ cbor_str ''fw'' @ [2] @ cbor_str ''2'' @ [4, 9, 3, 0x78, 64] @ replicate 64 49"

lemma sample_settings_read:
  "settings_read sample_zcbor (tl sample_settings_doc, 4, [0], 1)
     [(cstr ''A'', Some (Int_val 5)), (cstr ''B'', Some (Bool_val True))] ([], 0, [0], 1)"
proof -
  have A: "zcbor_list_or_map_end sample_zcbor (tl sample_settings_doc, 4, [0], 1) = Some False"
    "zcbor_tstr_decode sample_zcbor (tl sample_settings_doc, 4, [0], 1) = (Some (4096, cstr ''A''), [5, 0x61, 66, 0xF5], 3, [0], 1)"
    "zs_payload sample_zcbor ([5, 0x61, 66, 0xF5], 3, [0], 1) = Some 5"
    "setting_value_decode sample_zcbor (ZCBOR_MAJOR_TYPE 5) ([5, 0x61, 66, 0xF5], 3, [0], 1) =
       (Some (GOLIOTH_SETTING_VALUE_TYPE_INT, Int_val 5), [0x61, 66, 0xF5], 2, [0], 1)"
    by code_simp+
  have B: "zcbor_list_or_map_end sample_zcbor ([0x61, 66, 0xF5], 2, [0], 1) = Some False"
    "zcbor_tstr_decode sample_zcbor ([0x61, 66, 0xF5], 2, [0], 1) = (Some (4096, cstr ''B''), [0xF5], 1, [0], 1)"
    "zs_payload sample_zcbor ([0xF5], 1, [0], 1) = Some 0xF5"
    "setting_value_decode sample_zcbor (ZCBOR_MAJOR_TYPE 0xF5) ([0xF5], 1, [0], 1) =
       (Some (GOLIOTH_SETTING_VALUE_TYPE_BOOL, Bool_val True), [], 0, [0], 1)"
    "zcbor_list_or_map_end sample_zcbor ([], 0, [0], 1) = Some True"
    by code_simp+
  show ?thesis
    by (rule settings_read_value [OF A settings_read_value [OF B(1-4) settings_read_end [OF B(5)]]])
qed

definition sample_manifest_component :: golioth_ota_component where
  "sample_manifest_component = \<lparr>oc_package = cstr ''fw'' @ replicate 31 0, oc_version = cstr ''2'' @ replicate 32 0,
     oc_hash = replicate 32 17, oc_size = 9\<rparr>"

lemma sample_components_read:
  "components_read sample_manifest_env (drop 3 sample_manifest_doc, 1, [0, 0], 1) [sample_manifest_component] ([], 0, [0, 0], 1)"
proof -
  let ?l = "\<lparr>cl_component = sample_manifest_component\<lparr>oc_hash := replicate 32 0\<rparr>, cl_hash_str = replicate 64 49 @ [0]\<rparr>"
  have 1: "zcbor_list_or_map_end (mv_zcbor sample_manifest_env) (drop 3 sample_manifest_doc, 1, [0, 0], 1) = Some False"
    "zcbor_map_decode (mv_zcbor sample_manifest_env) (component_entries (mv_zcbor sample_manifest_env))
       (mv_stack_key sample_manifest_env) (drop 3 sample_manifest_doc, 1, [0, 0], 1)
       \<lparr>cl_component = empty_component (mv_config sample_manifest_env), cl_hash_str = mv_stack_hash sample_manifest_env\<rparr> =
     Some (Some (OK, [0, 1, 2, 3], ([], 0, [0, 0], 1), ?l))"
    "replicate 32 17 = hex2bin sample_manifest_env (take GOLIOTH_OTA_COMPONENT_HASH_HEX_LEN (cl_hash_str ?l))
       GOLIOTH_OTA_COMPONENT_HASH_BIN_LEN"
    "length (replicate 32 (17 :: byte)) = GOLIOTH_OTA_COMPONENT_HASH_BIN_LEN"
    "zcbor_list_or_map_end (mv_zcbor sample_manifest_env) ([], 0, [0, 0], 1) = Some True"
    by code_simp+
  have "(cl_component ?l)\<lparr>oc_hash := replicate 32 17\<rparr> = sample_manifest_component" by (simp add: sample_manifest_component_def)
  with components_read_one [OF 1(1-4) components_read_end [OF 1(5)]] show ?thesis by simp
qed

section \<open>Status reports\<close>

interpretation settings_status_service:
  uplink_service default_config "settings_uplink default_config sample_zcbor_enc version" "settings_reports sample_zcbor_enc version"
  for version
  by (rule settings_uplink_service [OF valid_default_config sample_zcbor_enc_sized])

interpretation ota_status_service:
  uplink_service default_config "ota_uplink default_config default_ota_config sample_zcbor_enc rs"
    "ota_reports default_ota_config sample_zcbor_enc rs"
  for rs
  by (rule ota_uplink_service [OF valid_default_config sample_zcbor_enc_sized]) (simp add: default_ota_config_def SIZE_MOD_def)

section \<open>The application\<close>

text \<open>A handler that keeps what it is given.\<close>

definition sample_collector :: "(cstr \<times> byte list option) list pouch_downlink_handler" where
  "sample_collector = \<lparr>start_cb = (\<lambda>i path ct a. Some (a @ [(path, None)])), data_cb = (\<lambda>i data n l a. Some (a @ [([], data)]))\<rparr>"

lemma sample_collector_total [simp]: "handlers_total [sample_collector]"
  by (simp add: handlers_total_def sample_collector_def)

definition sample_board :: "unit board_ops" where
  "sample_board = \<lparr>bt_gatt_service_register = Pair OK, bt_enable = Pair OK, bt_le_adv_start = (\<lambda>_. Pair OK),
     bt_le_adv_update_data = (\<lambda>_. Pair OK), has_led = True, led_configure = Pair OK, led_set = (\<lambda>_ b. b), water_port = True,
     water_ready = (\<lambda>_. True), water_configure = Pair OK, water_get = Pair 1, entry_lock_no_wait = (\<lambda>_. OK)\<rparr>"

definition sample_app :: "unit app" where
  "sample_app = \<lparr>ap_board = (), service_flags = 0, sync_request_work = False, disconnect_work = False, pouch_session_active = False,
     last_water_state = False, water_report_work = False\<rparr>"

definition sample_files :: "cstr \<Rightarrow> byte list option" where
  "sample_files path = (if path = cstr ''d/crt.der'' then Some [1, 2, 3] else if path = cstr ''d/key.der'' then Some [4, 5] else None)"

definition sample_fs :: "unit fs_ops" where
  "sample_fs = \<lparr>fs_stat = (\<lambda>path f. (case sample_files path of None \<Rightarrow> Inl ENOENT | Some xs \<Rightarrow> Inr (True, length xs), f)),
     fs_mkdir = (\<lambda>_. Pair OK), fs_open = (\<lambda>path f. (if path = cstr ''d/key.der'' then Inr 1 else Inr 0, f)),
     fs_read = (\<lambda>fd n f. (Inr (take n (if fd = 1 then [4, 5] else [1, 2, 3])), f)), fs_close = (\<lambda>_. Pair OK)\<rparr>"

definition sample_pk :: "byte list pk_ops" where
  "sample_pk = \<lparr>mbedtls_pk_parse_key = Some, mbedtls_pk_import_into_psa = (\<lambda>k. if length k < 2 then None else Some 7)\<rparr>"

definition sample_main :: "((unit, unit) saead, unit, unit, byte list) main_env" where
  "sample_main = \<lparr>me_board = sample_board, me_fs = sample_fs, me_pk = sample_pk, me_alloc_ok = (\<lambda>_. True), me_stray = None,
     me_dir = cstr ''d'', me_crypto_init = saead_crypto_init sample_tls\<rparr>"

lemma sample_file_reads:
  "file_reads sample_fs (cstr ''d/key.der'') [4, 5]" "file_reads sample_fs (cstr ''d/crt.der'') [1, 2, 3]"
  by (simp_all add: file_reads_def sample_fs_def sample_files_def cstr_def of_char_def)

text \<open>The configuration that the credentials give, and the library started with it.\<close>

definition sample_config :: pouch_config where
  "sample_config = \<lparr>cfg_device_id = None, cfg_certificate = \<lparr>pc_buffer = Some [1, 2, 3], pc_size = 3\<rparr>, cfg_private_key = 7\<rparr>"

definition sample_pouch :: "'a \<Rightarrow> ((unit, unit) saead, 'a) pouch" where
  "sample_pouch x = boot_pouch sample_heap (sample_saead\<lparr>sa_pkey := 7\<rparr>) x"

lemma sample_pouch_init:
  "pouch_init (saead_crypto_init sample_tls) sample_config (boot_pouch sample_heap sample_saead x) =
     Some (OK, (sample_pouch x)\<lparr>p_down := downlink_init (boot_downlink sample_heap sample_saead)\<rparr>)"
  by (simp add: pouch_init_def boot_pouch_def boot_env_def boot_node_def sample_pouch_def sample_config_def saead_crypto_init_def
      cert_device_set_def cert_is_valid_def generate_ref_def cert_bytes_def sample_tls_def sample_saead_def sample_cert_def Let_def
      mem_read_def CERT_REF_LEN_def PSA_KEY_ID_NULL_def uplink_init_def map_up_def buf_queue_init_def SIZE_MOD_def)

text \<open>The node in its loop, with a downlink handler that keeps what it is given and leaves the application alone.\<close>

definition node_collector :: "((cstr \<times> byte list option) list \<times> unit app) pouch_downlink_handler" where
  "node_collector = \<lparr>start_cb = (\<lambda>i path ct (d, a). Some (d @ [(path, None)], a)), data_cb = (\<lambda>i data n l (d, a). Some (d @ [([], data)], a))\<rparr>"

lemma node_collector_ok: "handlers_total [node_collector]" "handlers_keep (\<lambda>(_, a). sync_pending a) [node_collector]"
  by (auto simp: handlers_total_def handlers_keep_def node_collector_def)

definition sample_loop_pouch :: "'a \<Rightarrow> ((unit, unit) saead, 'a) pouch" where
  "sample_loop_pouch x = (sample_pouch x)\<lparr>p_down := downlink_init (boot_downlink sample_heap sample_saead)\<rparr>"

definition sample_loop_app :: "unit app" where
  "sample_loop_app = sample_app\<lparr>last_water_state := True, water_report_work := True, sync_request_work := True\<rparr>"

lemma sample_main_loop:
  "app_main sample_main ((), 0) sample_app (boot_pouch sample_heap sample_saead x) = Some (True, sample_loop_app, sample_loop_pouch x)"
proof -
  have cert: "load_certificate sample_fs (\<lambda>_. True) None (cstr ''d'') \<lparr>pc_buffer = None, pc_size = 0\<rparr> ((), 0) =
      (OK, \<lparr>pc_buffer = Some [1, 2, 3], pc_size = 3\<rparr>, (), 1)" by code_simp
  have key: "load_private_key sample_fs sample_pk (\<lambda>_. True) (cstr ''d'') ((), 1) = Some (7, (), 1)" by code_simp
  show ?thesis
    using cert key sample_pouch_init [of x, unfolded sample_config_def]
    by (simp add: app_main_def sample_main_def sample_board_def golioth_ble_gatt_peripheral_init_def PSA_KEY_ID_NULL_def
        sensors_init_all_def water_sensor_init_def sample_loop_app_def sample_app_def sample_loop_pouch_def)
qed

lemma sample_main_crypto: "me_crypto_init sample_main = saead_crypto_init sample_tls"
  by (simp add: sample_main_def)

section \<open>Flash\<close>

text \<open>A flash in which a write of three bytes fails.\<close>

definition sample_flash :: "(byte list \<times> bool) flash_ops" where
  "sample_flash = \<lparr>flash_img_init = (\<lambda>(_, u). (OK, [], u)),
     flash_img_buffered_write = (\<lambda>xs l (img, u). if length xs = 3 then (Err EIO, img, u) else (OK, img @ xs, u)),
     boot_request_upgrade = (\<lambda>(img, u). (OK, img, True))\<rparr>"

lemma sample_flash_appends: "flash_appends sample_flash fst snd"
  by (auto simp: flash_appends_def sample_flash_def split: if_splits)

section \<open>Events\<close>

interpretation node_events: event_handlers
  "[pouch_event_handler default_config bd [Some (ota_uplink default_config default_ota_config sample_zcbor_enc rs),
      Some (settings_uplink default_config sample_zcbor_enc version)]]" "\<lambda>s a. node_inv default_config s"
  for bd rs version
  by (rule app_event_handlers [OF valid_default_config golioth_services [OF valid_default_config sample_zcbor_enc_sized]])
     (simp add: default_ota_config_def SIZE_MOD_def)

end
