(* ===== verification/Spec2Isabelle.thy ===== *)
theory Spec2Isabelle
  imports Samples
begin

text \<open>
  Verification of the pouch node library: a protocol by which a device exchanges blocks of data with a
  server through an untrusted, non-IP transport.

  \<^bold>\<open>The program.\<close> The application writes entries (\<^verbatim>\<open>src/src/entry.c\<close>) and streams (\<^verbatim>\<open>src/src/stream.c\<close>) into
  blocks (\<^verbatim>\<open>src/src/block.c\<close>), which are buffers (\<^verbatim>\<open>src/src/buf.c\<close>) with a three byte header. Finished blocks
  go to the processing queue of the uplink (\<^verbatim>\<open>src/src/uplink.c\<close>), whose work item encrypts them with the crypto
  module behind \<^verbatim>\<open>src/src/crypto.h\<close> (\<^verbatim>\<open>crypto_none.c\<close> or \<^verbatim>\<open>crypto_saead.c\<close> with \<^verbatim>\<open>saead/*.c\<close> and \<^verbatim>\<open>cert.c\<close>) and
  hands them to the transport queue, behind a header (\<^verbatim>\<open>src/src/header.c\<close>). The transport reads them with
  \<^verbatim>\<open>pouch_uplink_fill\<close>. In the other direction the transport pushes pieces of bytes into \<^verbatim>\<open>src/src/downlink.c\<close>,
  which cuts them into blocks again; one work item decrypts them and a second one parses them into the
  callbacks of the registered handlers. The BLE GATT transport (\<^verbatim>\<open>src/src/transport/ble_gatt\<close>) carries both directions,
  and the certificates, in packets. The Golioth services (\<^verbatim>\<open>src/golioth_sdk\<close>) are a handler of the downlink. The node
  application (\<^verbatim>\<open>examples/ble_gatt\<close>) reports its sensors and the status of the services when a session starts.

  \<^bold>\<open>Conventions.\<close> A C function is a HOL function over explicit state. An \<^typ>\<open>'a option\<close> result is \<open>None\<close> where the
  C code has undefined behaviour (a null or out-of-bounds access), so a theorem that a call is \<open>Some\<close> says
  that it is memory safe; error codes are values of \<open>ret\<close> or of a sum type. \<^verbatim>\<open>size_t\<close> is a natural number with
  explicit wrap-around, fixed-width integers are words. A loop is a recursive function with a termination
  proof, or an iteration of \<open>Loops\<close> with a theorem that it returns; there is no fuel anywhere. The allocator fails at the points that the heap record chooses, so the
  theorems hold for every pattern of failures. A work item is a flag that is set when it is submitted, and
  a function that runs it. A mutex is the result of the attempt to take it, since every critical section is
  one whole function.

  \<^bold>\<open>Parameters.\<close> The CBOR codec that the build generates from \<^verbatim>\<open>header.cddl\<close> (\<open>header_codec\<close>; its encoder writes
  no more than the space it is given; the theorem on the longest device id adds the size of CBOR), PSA crypto and base64 (\<open>psa_ops\<close>; \<open>psa_sized\<close> says that no function
  writes more than its output size; the theorems on the encrypted downlink add that decrypting accepts exactly what the AEAD function gives), Mbed TLS (\<open>tls_ops\<close>), and the handlers of the application.
  The build configuration is the record \<open>config\<close>.

  \<^bold>\<open>Theories.\<close>
  \<^item> \<open>Prelude\<close>: integer types, memory reads and writes, byte order, error codes, the build configuration.
  \<^item> \<open>Buf\<close>: \<^verbatim>\<open>buf.c\<close>, \<^verbatim>\<open>buf.h\<close>. Well-formed buffers are kept; writes append; views read what was written; the
    queues refine first-in first-out lists (locale interpreted as \<open>bq\<close>).
  \<^item> \<open>Block\<close>: \<^verbatim>\<open>block.c\<close>, \<^verbatim>\<open>block.h\<close>. Block images, and that decoding a header inverts writing it.
  \<^item> \<open>Node\<close>: the shared state, events (\<^verbatim>\<open>pouch.c\<close>), the header (\<^verbatim>\<open>header.c\<close>), and the locale \<open>crypto_provider\<close>,
    the contract of \<^verbatim>\<open>crypto.h\<close>: every operation keeps the module's invariant and is memory safe, and
    encryption and decryption return framed buffers and keep the number of live buffers.
  \<^item> \<open>Entry\<close>: \<^verbatim>\<open>entry.c\<close>. Writing appends an entry image; parsing inverts writing; the in-place parser agrees
    with a reference decoder on byte lists.
  \<^item> \<open>Streams\<close>: \<^verbatim>\<open>stream.c\<close>. Writes split the data over blocks of one stream; the receiver's chunks join to it.
  \<^item> \<open>Uplink\<close>: \<^verbatim>\<open>uplink.c\<close>. Each operation's effect on the bytes that wait for the transport.
  \<^item> \<open>Uplink_Runs\<close>: all interleavings of application calls, transport calls and the work item, as an
    inductive reachability relation with its invariant; the client lemmas are proved once in
    \<open>crypto_provider\<close>.
  \<^item> \<open>Crypto_None\<close>: \<^verbatim>\<open>crypto_none.c\<close>, an interpretation of \<open>crypto_provider\<close>.
  \<^item> \<open>Downlink\<close>: \<^verbatim>\<open>downlink.c\<close>. Byte accounting of the reassembly and its independence of how the bytes are
    cut into pieces; the work items.
  \<^item> \<open>Cert\<close>: \<^verbatim>\<open>cert.c\<close>. What is stored when, and its bounds.
  \<^item> \<open>Session\<close>: \<^verbatim>\<open>saead/session.c\<close>. Nonces, key derivation input, the form of encrypted blocks.
  \<^item> \<open>Saead\<close>: \<^verbatim>\<open>saead/uplink.c\<close>, \<^verbatim>\<open>saead/downlink.c\<close>, \<^verbatim>\<open>crypto_saead.c\<close>, a second interpretation of
    \<open>crypto_provider\<close>; the replay checks.
  \<^item> \<open>Samples\<close>: concrete parameters and states for the witnesses.
  \<^item> \<open>Packetizer\<close>: \<^verbatim>\<open>lib/pouch_ble_gatt_common/packetizer.c\<close>. The locales \<open>packet_source\<close> and \<open>exact_source\<close> say what
    the packetizer relies on from a callback; the packets carry the source's bytes, correctly marked.
  \<^item> \<open>Gatt\<close>: the characteristics of \<^verbatim>\<open>src/src/transport/ble_gatt\<close>. Their callbacks interpret the packet sources
    (for the uplink as sublocales of \<open>crypto_provider\<close>), their read functions interpret \<open>read_chrc\<close>.
  \<^item> \<open>Dispatch\<close>: \<^verbatim>\<open>golioth_sdk/dispatch.c\<close>, a handler of the downlink; it refines a map from streams to services.
  \<^item> \<open>Ota\<close>: \<^verbatim>\<open>golioth_sdk/ota_upper.c\<close> and the component service of \<^verbatim>\<open>golioth_sdk/ota.c\<close>.
  \<^item> \<open>Zcbor_Utils\<close>: \<^verbatim>\<open>lib/zcbor_utils\<close>. zcbor is a record of functions; its loops end if the library consumes input (\<open>zcbor_consumes\<close>).
  \<^item> \<open>Settings\<close>: \<^verbatim>\<open>golioth_sdk/settings.c\<close> and \<^verbatim>\<open>settings_callbacks.c\<close>; decoding refines handing over a list of settings.
  \<^item> \<open>Ota_Manifest\<close>: the manifest and the status report of \<^verbatim>\<open>golioth_sdk/ota.c\<close>.
  \<^item> \<open>Reports\<close>: the locale \<open>uplink_service\<close> between the dispatcher and the status callbacks, interpreted on both of them. What is
    written is a subsequence of the reports, and all of them if there is room.
  \<^item> \<open>Loops\<close>: loops that may not end, as iterations of a round by the partial function \<open>rounds\<close>, whose result \<^const>\<open>None\<close> is a loop
    that does not return. The event loop and the CBOR loops are such iterations, and are shown to return.
  \<^item> \<open>Parsing\<close>: the bytes on which the parser of received blocks is memory safe, as a predicate that is necessary and sufficient.
  \<^item> \<open>Channel\<close>: the encrypted channel. \<open>seal\<close> says what a sender puts on the wire for a list of plaintexts. The uplink sends the sealing of what
    was queued; whatever arrives on the downlink, the blocks accepted are sealed ones in order; and a sealed pouch reaches the handlers.
  \<^item> \<open>Module\<close>: \<^verbatim>\<open>pouch_init\<close> and the library as a whole: all interleavings of the calls and work items of both directions over one
    allocator and one crypto module, with the invariant that accounts for every live buffer.
  \<^item> \<open>Credentials\<close>, \<open>Fw_Update\<close>, \<open>App\<close>: the node application, \<^verbatim>\<open>examples/ble_gatt/src\<close>: credentials from files, the firmware update,
    the start-up, the callbacks, the work items and the sensors. The file system, flash, Bluetooth and GPIO are parameters. The application's event
    handler interprets the locale \<open>event_handlers\<close> of \<open>Node\<close>, the contract of the event loop.
  \<^item> \<open>Node_Runs\<close>: the whole node, library and application in one run: every interleaving of the calls, callbacks and work items of both keeps the
    invariant of \<open>Module\<close>. The event handler meets the contract \<open>event_handlers\<close> also with what it leaves alone of the transport's bytes.
  \<^bold>\<open>Model boundary.\<close> A run interleaves whole calls: a preemption inside a function is not modelled, except for
  the two steps of \<^verbatim>\<open>block_downlink_push\<close>, which a theorem below takes apart. The theories of the uplink and of the downlink
  each have the allocator and the crypto state in their own record; \<open>Module\<close> shares them. Log output and waiting are left out.

  \<^bold>\<open>Not modelled.\<close> The tests; the creation of the work queue's thread and the table of BLE attributes, which are static data of the kernel;
  the error hook of the example, which resets the processor.
\<close>



text \<open>
  C2. No buffer is freed twice, and exactly one kind of leak exists: in every state of a run of the node the count that \<^verbatim>\<open>buf_active_count\<close> reports is the number of buffers held by the open entry block, the pending header, the queues of both directions, the transport's reader, the open streams and the receive buffer, plus the number of receive buffers that a start of the downlink has overwritten without freeing them.
\<close>

theorem node_accounting:
  assumes "saead_config c" "psa_sized psa" "encoder_bounded codec" "handlers_total hs" "zcbor_enc_sized enc cap"
      "config_ota_max_package_name_len oc + 80 < SIZE_MOD" "saead_inv cr" "bufs h = 0" "me_crypto_init env = saead_crypto_init tls"
    and "app_main env f a (boot_pouch h cr x) = Some (True, a0, p0)"
    and "node_reachable c codec (saead_ops c psa alg) hs (me_board env) (golioth_uplinks c oc enc registry version) (running a0 p0) p"
  defines "s \<equiv> e_node (p_env p)" and "d \<equiv> p_down p"
  shows "buf_active_count (n_heap s) =
    own (n_block s) + own (up_header (n_up s)) + int (length (up_processing_queue (n_up s))) + int (length (up_transport_queue (n_up s)))
    + own (bv_buf (up_reader (n_up s))) + int (length (e_streams (p_env p)))
    + own (dl_buf d) + int (length (dl_decrypt_queue d)) + int (length (dl_consume_queue d)) + int (p_abandoned p)"
proof -
  have "whole_inv c saead_inv False p" by (rule golioth_node_inv [OF assms(1-4) _ assms(5-11)]) simp
  then have "module_inv c saead_inv p" by (simp add: whole_inv_def)
  from module_inv_bufs [OF this] show ?thesis
    by (simp add: s_def d_def owned_def dl_held_def buf_active_count_def)
qed

theorem node_accounting_witness:
  "\<exists>p1 p2. exec_node default_config sample_codec (saead_ops default_config sample_psa PSA_ALG_GCM) [node_collector] sample_board
        (golioth_uplinks default_config default_ota_config sample_zcbor_enc (\<lambda>_. [] :: byte list golioth_ota_registered_component list) (\<lambda>_. 7))
        (Library Down_start) (running sample_loop_app (sample_loop_pouch ([], sample_app))) = Some p1
     \<and> exec_node default_config sample_codec (saead_ops default_config sample_psa PSA_ALG_GCM) [node_collector] sample_board
        (golioth_uplinks default_config default_ota_config sample_zcbor_enc (\<lambda>_. [] :: byte list golioth_ota_registered_component list) (\<lambda>_. 7)) (Library Down_start) p1 = Some p2
     \<and> p_abandoned p2 = 1 \<and> buf_active_count (n_heap (e_node (p_env p2))) = 2"
proof -
  let ?ops = "saead_ops default_config sample_psa PSA_ALG_GCM"
  let ?sv = "golioth_uplinks default_config default_ota_config sample_zcbor_enc (\<lambda>_. [] :: byte list golioth_ota_registered_component list) (\<lambda>_. 7 :: u64)"
  let ?p0 = "running sample_loop_app (sample_loop_pouch ([], sample_app))"
  have bd: "sample_board = me_board sample_main" "config_ota_max_package_name_len default_ota_config + 80 < SIZE_MOD"
    by (simp_all add: sample_main_def default_ota_config_def SIZE_MOD_def)
  obtain p1 where 1: "exec_node default_config sample_codec ?ops [node_collector] sample_board ?sv (Library Down_start) ?p0 = Some p1" by simp
  obtain p2 where 2: "exec_node default_config sample_codec ?ops [node_collector] sample_board ?sv (Library Down_start) p1 = Some p2" by simp
  have "node_call_ok default_config (Library Down_start) ?p0" "node_call_ok default_config (Library Down_start) p1" by simp_all
  from node_step [OF node_step [OF node_init this(1) 1] this(2) 2]
  have "node_reachable default_config sample_codec ?ops [node_collector] sample_board ?sv ?p0 p2" .
  note acc = node_accounting [OF saead_config_default sample_psa_sized sample_codec_bounded node_collector_ok(1) sample_zcbor_enc_sized bd(2) sample_saead_inv
      sample_heap_fields(1) sample_main_crypto sample_main_loop, unfolded bd(1) [symmetric], OF this]
  have "p_abandoned p2 = 1" "dl_buf (p_down p2) \<noteq> None"
    "dl_decrypt_queue (p_down p2) = []" "dl_consume_queue (p_down p2) = []" "e_streams (p_env p2) = []" "n_block (e_node (p_env p2)) = None"
    "up_header (n_up (e_node (p_env p2))) = None" "up_processing_queue (n_up (e_node (p_env p2))) = []"
    "up_transport_queue (n_up (e_node (p_env p2))) = []" "bv_buf (up_reader (n_up (e_node (p_env p2)))) = None"
    using 1 2 by (auto simp: running_def sample_loop_pouch_def sample_pouch_def boot_pouch_def boot_downlink_def downlink_init_def buf_queue_init_def
        pouch_downlink_start_def down_view_def put_down_def boot_env_def boot_node_def uplink_init_def map_up_def buf_alloc_def malloc_def sample_heap_def)
  with acc 1 2 show ?thesis by (intro exI [of _ p1] exI [of _ p2]) (auto simp del: exec_node.simps)
qed



text \<open>
  C4. The downlink is authentic: whatever blocks arrive, and even if memory runs out, decrypting them one after the other does not fault, and the accepted ones, which are among those received and in their order, are exactly the blocks that the AEAD function of the session key gives for the plaintexts handed on, at consecutive positions from the current one and each with the tag of the one before it as additional data. A block that was altered, repeated, moved or inserted can only be accepted if it is what the AEAD function gives for some plaintext at that position.
\<close>

theorem accepted_blocks_sealed:
  assumes "saead_config c" "psa_sized psa" "saead_inv s" "list_all (received c) bs"
    "aead_sound psa (sa_psa s) (ss_key (sa_downlink s)) (ss_algorithm (sa_downlink s)) E"
  shows "\<exists>acc h' s'. decrypt_run c psa bs h s = Some (acc, h', s') \<and> subseq (map fst acc) (map contents bs)
    \<and> map fst acc = seal E POUCH_ROLE_SERVER (sa_downlink s) (map snd acc)"
  by (rule decrypt_run_sealed [OF assms])

theorem accepted_blocks_sealed_witness:
  "\<exists>acc h' s'. decrypt_run default_config checking_psa [\<lparr>pb_bytes = 3, pb_data = [0, 1, 9]\<rparr>] sample_heap sample_saead = Some (acc, h', s')
     \<and> map fst acc = seal sample_aead POUCH_ROLE_SERVER sample_session (map snd acc)"
proof -
  have r: "list_all (received default_config) [\<lparr>pb_bytes = 3, pb_data = [0, 1, 9]\<rparr>]" by (simp add: received_def wf_buf_def SIZE_MOD_def)
  show ?thesis using accepted_blocks_sealed [OF saead_config_default checking_psa_sized sample_saead_inv r, of sample_aead sample_heap]
      checking_psa_sound [of sample_saead] by (auto simp: sound_session_def sample_saead_def)
qed



text \<open>
  C6. What a session start makes the node send. The event work item takes the event, runs the application's handler and returns with an empty queue. Behind what was already waiting, the uplink gets the reading of the water sensor, the status of the components and the version of the settings, in this order; it gets all of them if the sensor can be read, the lock is free, memory is available and each of them fits into a block. In every case the pouch is closing, the node is consistent and no buffer is lost.
\<close>

theorem session_start_reports:
  fixes s :: "'c node" and bd :: "'b board_ops" and rs :: "'x golioth_ota_registered_component list" and version :: u64 and a :: "'b app"
  assumes "valid_config c" "zcbor_enc_sized enc cap" "config_ota_max_package_name_len oc + 80 < SIZE_MOD" "node_inv c s"
    and "n_event_q s = [POUCH_EVENT_SESSION_START]" "n_event_work s"
  defines "handler \<equiv> pouch_event_handler c bd [Some (ota_uplink c oc enc rs), Some (settings_uplink c enc version)]"
    and "reports \<equiv> ota_reports oc enc rs @ settings_reports enc version"
    and "reading \<equiv> water_entry (0 < fst (water_get bd (ap_board a)))"
  shows "\<exists>s' a' es. run_event_work [handler] (s, a) = Some (Some (s', a'))
    \<and> node_inv c s' \<and> balance s' = balance s \<and> n_event_q s' = [] \<and> pouch_is_closing s' \<and> pouch_session_active a'
    \<and> entry_log s' = entry_log s @ concat (map entry_image es)
    \<and> (\<exists>w. subseq es (water_entry w # reports)) \<and> (sensor_works bd a \<and> roomy c s (reading # reports) \<longrightarrow> es = reading # reports)"
proof -
  let ?s = "s\<lparr>n_event_work := False, n_event_q := []\<rparr>"
  have "node_inv c ?s" using assms(4) by (simp add: node_inv_def)
  from session_start_event_spec [OF assms(1) golioth_services [OF assms(1-3), of rs version] this, of bd a] obtain s' a' es where
    h: "handler POUCH_EVENT_SESSION_START (?s, a) = Some (s', a')" "reported c ?s es s'" "subseq es (water_entry (last_water_state a') # reports)"
      "pouch_is_closing s'" "pouch_session_active a'"
      "sensor_works bd a \<longrightarrow> last_water_state a' = (0 < fst (water_get bd (ap_board a))) \<and> reports_written c (water_entry (last_water_state a') # reports) ?s es s'"
    unfolding handler_def reports_def by auto
  have "n_event_q s' = []" using h(2) by (simp add: reported_def)
  then have "run_event_work [handler] (s, a) = Some (Some (s', a'))"
    using dispatch_one [of "s\<lparr>n_event_work := False\<rparr>" POUCH_EVENT_SESSION_START "[handler]" a s' a'] h(1) assms(5,6)
    by (simp add: run_event_work_def)
  moreover have "sensor_works bd a \<and> roomy c s (reading # reports) \<longrightarrow> es = reading # reports"
    using h(6) by (auto simp: reading_def reports_written_def roomy_def)
  ultimately show ?thesis
    using h(2-5) by (intro exI [of _ s'] exI [of _ a'] exI [of _ es]) (auto simp: reported_def balance_def owned_def entry_log_def)
qed

theorem session_start_reports_witness:
  "\<exists>s' a'. run_event_work [pouch_event_handler default_config sample_board
          [Some (ota_uplink default_config default_ota_config sample_zcbor_enc ([] :: byte list golioth_ota_registered_component list)), Some (settings_uplink default_config sample_zcbor_enc 7)]]
        ((boot_node sample_heap ())\<lparr>n_event_q := [POUCH_EVENT_SESSION_START], n_event_work := True\<rparr>, sample_app) = Some (Some (s', a'))
     \<and> entry_log s' = entry_image (water_entry True) @ concat (map entry_image (settings_reports sample_zcbor_enc 7))"
proof -
  let ?s = "(boot_node sample_heap ())\<lparr>n_event_q := [POUCH_EVENT_SESSION_START], n_event_work := True\<rparr>"
  have s: "node_inv default_config ?s" "entry_log ?s = []"
    by (simp_all add: boot_node_def uplink_init_def node_inv_def wf_reader_def buf_queue_init_def entry_log_def)
  have st: "settings_reports sample_zcbor_enc 7 = [\<lparr>pe_path = cstr ''.c/status'', pe_content_type = POUCH_CONTENT_TYPE_CBOR,
      pe_data = [0xBF, 0x67, 118, 101, 114, 115, 105, 111, 110, 7, 0xFF]\<rparr>]" by code_simp
  have "sensor_works sample_board sample_app" by (simp add: sensor_works_def sample_board_def)
  moreover have "MAX_BLOCK_PAYLOAD_SIZE default_config = 512" by code_simp
  then have "roomy default_config ?s (water_entry True # settings_reports sample_zcbor_enc 7)"
    by (simp add: roomy_def st boot_node_def uplink_init_def sample_heap_def water_entry_def water_payload_def cstr_def)
  ultimately show ?thesis
    using session_start_reports [OF valid_default_config sample_zcbor_enc_sized, of default_ota_config ?s sample_board "[] :: byte list golioth_ota_registered_component list" 7 sample_app] s
    by (auto simp: default_ota_config_def SIZE_MOD_def sample_board_def)
qed

text \<open>
  C7. Order and completeness of the uplink: in every state of a run of the node, whatever its event handler and its work items write meanwhile, the bytes that the transport has read in this session, followed by the bytes that wait for it, are the pouch header followed by the encrypted blocks in the order in which the work item produced them; the header is not sent before there is a block; every block is framed by its size field.
\<close>

theorem uplink_output_order:
  assumes "saead_config c" "psa_sized psa" "encoder_bounded codec" "handlers_total hs" "zcbor_enc_sized enc cap"
      "config_ota_max_package_name_len oc + 80 < SIZE_MOD" "saead_inv cr" "bufs h = 0" "me_crypto_init env = saead_crypto_init tls"
    and "app_main env f a (boot_pouch h cr x) = Some (True, a0, p0)"
    and "node_reachable c codec (saead_ops c psa alg) hs (me_board env) (golioth_uplinks c oc enc registry version) (running a0 p0) p"
  defines "e \<equiv> p_env p"
  shows "e_read e @ pending (e_node e) = (if e_blocks e = [] then [] else e_header e) @ concat (e_blocks e) \<and> list_all framed (e_blocks e)"
proof -
  have "whole_inv c saead_inv False p" by (rule golioth_node_inv [OF assms(1-4) _ assms(5-11)]) simp
  then show ?thesis by (simp add: whole_inv_def module_inv_def env_inv_def e_def)
qed

theorem uplink_output_order_witness:
  "\<exists>p. exec_node default_config sample_codec (saead_ops default_config sample_psa PSA_ALG_GCM) [node_collector] sample_board
        (golioth_uplinks default_config default_ota_config sample_zcbor_enc (\<lambda>_. [] :: byte list golioth_ota_registered_component list) (\<lambda>_. 7))
        (Library (Up Uplink_start)) (running sample_loop_app (sample_loop_pouch ([], sample_app))) = Some p
     \<and> e_read (p_env p) @ pending (e_node (p_env p)) = []"
proof -
  let ?ops = "saead_ops default_config sample_psa PSA_ALG_GCM"
  let ?sv = "golioth_uplinks default_config default_ota_config sample_zcbor_enc (\<lambda>_. [] :: byte list golioth_ota_registered_component list) (\<lambda>_. 7 :: u64)"
  let ?p0 = "running sample_loop_app (sample_loop_pouch ([], sample_app))"
  have bd: "sample_board = me_board sample_main" "config_ota_max_package_name_len default_ota_config + 80 < SIZE_MOD"
    by (simp_all add: sample_main_def default_ota_config_def SIZE_MOD_def)
  have ok: "node_call_ok default_config (Library (Up Uplink_start)) ?p0"
    by (simp add: running_def sample_loop_pouch_def sample_pouch_def boot_pouch_def boot_env_def)
  have "whole_inv default_config saead_inv False (?p0 :: ((unit, unit) saead, (cstr \<times> byte list option) list, unit) whole)"
    by (rule golioth_node_inv [OF saead_config_default sample_psa_sized sample_codec_bounded node_collector_ok(1) _ sample_zcbor_enc_sized bd(2)
        sample_saead_inv sample_heap_fields(1) sample_main_crypto sample_main_loop node_init]) simp
  from golioth_node_safe [OF saead_config_default sample_psa_sized sample_codec_bounded node_collector_ok(1) sample_zcbor_enc_sized bd(2) this ok]
  obtain p where p: "exec_node default_config sample_codec ?ops [node_collector] sample_board ?sv (Library (Up Uplink_start)) ?p0 = Some p" by blast
  note order = uplink_output_order [OF saead_config_default sample_psa_sized sample_codec_bounded node_collector_ok(1) sample_zcbor_enc_sized bd(2) sample_saead_inv
      sample_heap_fields(1) sample_main_crypto sample_main_loop, unfolded bd(1) [symmetric]]
  have "e_blocks (p_env p) = []" using p by (auto split: bind_splits)
  with order [OF node_step [OF node_init ok p]] p show ?thesis by (auto simp del: exec_node.simps)
qed

text \<open>
  C8. The uplink seals what was queued: when the processing work item runs in an active session that is open, the queue is emptied, and what waits for the transport grows by the session header, in front of the first block of the session, and by the blocks that the AEAD function of the session key gives for the queued blocks, in order, at consecutive positions from the current one and each with the tag of the one before it as additional data. A queued block is left out only if memory runs out or the AEAD fails, and then takes no position.
\<close>

theorem uplink_blocks_sealed:
  fixes s :: "('x, 'p) saead node"
  defines "up \<equiv> sa_uplink (n_crypto s)" and "q \<equiv> up_processing_queue (n_up s)"
  assumes "saead_config c" "psa_sized psa" "saead_inv (n_crypto s)" "node_inv c s" "session_is_active s" "pouch_is_open s"
    and "bit (ss_flags up) SESSION_ACTIVE_FLAG" "aead_encrypts psa (sa_psa (n_crypto s)) (ss_key up) (ss_algorithm up) E"
  shows "\<exists>s' sent. process_blocks (saead_ops c psa alg) s = Some s' \<and> up_processing_queue (n_up s') = [] \<and> subseq sent q
    \<and> pending s' = pending s @ (if sent = [] then [] else header_bytes s) @ concat (seal E POUCH_ROLE_DEVICE up (map body sent))
    \<and> ((\<forall>n. malloc_ok (n_heap s) n) \<and> aead_available psa (sa_psa (n_crypto s)) (ss_key up) (ss_algorithm up) \<longrightarrow> sent = q)"
proof -
  have "list_all (sendable c) q" using assms(6) by (simp add: node_inv_def q_def)
  from encrypt_all_sealed [OF assms(3,4) this assms(9,10) [unfolded up_def], of alg "n_heap s", folded up_def]
  obtain es h' cr' sent where e: "encrypt_all (saead_ops c psa alg) q (n_heap s) (n_crypto s) = Some (es, h', cr')" "subseq sent q"
    "map contents es = seal E POUCH_ROLE_DEVICE up (map body sent)"
    "(\<forall>n. malloc_ok (n_heap s) n) \<and> aead_available psa (sa_psa (n_crypto s)) (ss_key up) (ss_algorithm up) \<longrightarrow> sent = q" by blast
  from e(3) have "length (map contents es) = length (seal E POUCH_ROLE_DEVICE up (map body sent))" by (rule arg_cong)
  then have "es = [] \<longleftrightarrow> sent = []" by auto
  moreover obtain es2 s' h2 cr2 where p: "process_blocks (saead_ops c psa alg) s = Some s'"
    "pending s' = pending s @ (if es2 = [] then [] else header_bytes s) @ concat (map contents es2)"
    "if session_is_active s \<and> pouch_is_open s
     then encrypt_all (saead_ops c psa alg) q (n_heap s) (n_crypto s) = Some (es2, h2, cr2) \<and> up_processing_queue (n_up s') = []
     else es2 = [] \<and> up_processing_queue (n_up s') = q"
    unfolding q_def by (rule crypto_provider.process_blocks_spec [OF saead_provider [OF assms(3,4)] assms(5,6), of alg])
  moreover have "es2 = es" "up_processing_queue (n_up s') = []" using p(3) assms(7,8) e(1) by simp_all
  ultimately show ?thesis using e(2-4) by (intro exI [of _ s'] exI [of _ sent]) simp
qed

theorem uplink_blocks_sealed_witness:
  "\<exists>s'. process_blocks (saead_ops default_config checking_psa PSA_ALG_GCM) (sample_sending sample_saead_active) = Some s'
     \<and> pending s' = concat (seal sample_aead POUCH_ROLE_DEVICE (sa_uplink sample_saead_active) [[0xC0, 5]])"
proof -
  note s = sample_sending_fields [of sample_saead_active]
  have e: "aead_encrypts checking_psa p k alg sample_aead" "aead_available checking_psa p k alg" for p k alg
    by (rule checking_psa_encrypts)+
  from uplink_blocks_sealed [where s = "sample_sending sample_saead_active" and alg = PSA_ALG_GCM, OF saead_config_default checking_psa_sized,
      of sample_aead] s e
  show ?thesis by (auto simp: sample_saead_active_fields)
qed

text \<open>
  C9. Refinement of the transport API: with \<open>pending\<close> as the abstraction of reader and queue, a fill of an active session returns the first \<open>len\<close> pending bytes (fewer at the end), leaves exactly the others pending, reports more data unless the pouch is closed and nothing is left, and ends the session in that case. It keeps the invariant and loses no buffer.
\<close>

theorem fill_is_read:
  assumes "saead_config c" "psa_sized psa" "saead_inv (n_crypto s)" "node_inv c s" "session_is_active s"
  shows "\<exists>s'. pouch_uplink_fill c (saead_ops c psa alg) len s =
      Some (if pouch_is_open s \<or> drop len (pending s) \<noteq> [] then POUCH_MORE_DATA else POUCH_NO_MORE_DATA,
            min len (length (pending s)), take len (pending s), s')
    \<and> node_inv c s' \<and> balance s' = balance s \<and> pending s' = drop len (pending s)
    \<and> session_is_active s' = (pouch_is_open s \<or> drop len (pending s) \<noteq> [])"
  using crypto_provider.fill_spec [OF saead_provider [OF assms(1,2)] assms(3-5), of alg len] by blast

theorem fill_is_read_witness:
  "\<exists>s'. pouch_uplink_fill default_config (saead_ops default_config sample_psa PSA_ALG_GCM) 20
       (set_flag SESSION_ACTIVE (boot_node sample_heap sample_saead)) = Some (POUCH_MORE_DATA, 0, [], s')"
proof -
  let ?s = "set_flag SESSION_ACTIVE (boot_node sample_heap sample_saead)"
  have "saead_inv (n_crypto ?s)" "node_inv default_config ?s" "session_is_active ?s" "pouch_is_open ?s" "pending ?s = []"
    by (simp_all add: boot_node_def uplink_init_def node_inv_def flag_tests flag_numbers wf_reader_def buf_queue_init_def
        pending_def view_rest_def)
  then show ?thesis using fill_is_read [OF saead_config_default sample_psa_sized, of ?s PSA_ALG_GCM 20] by auto
qed

text \<open>
  C10. Writing an entry, on every branch (first block, room in the open block, full block that is finished and replaced, allocation failure on either path, lock failure, empty data): the entries waiting in the uplink grow by exactly the encoding of the new entry when the result is success and not at all otherwise; the invariant and the buffer accounting are kept; the write succeeds if the entry fits into an empty block and memory is available.
\<close>

theorem entry_write_appends:
  fixes s :: "'c node" and ct :: u16
  assumes "valid_config c" "node_inv c s" "5 + length path + length data < SIZE_MOD"
  shows "\<exists>r s'. pouch_uplink_entry_write c lock (Some path) ct (Some data) s = Some (r, s')
    \<and> node_inv c s' \<and> balance s' = balance s
    \<and> entry_log s' = entry_log s
        @ (if r = OK then entry_image \<lparr>pe_path = path, pe_content_type = ct, pe_data = data\<rparr> else [])
    \<and> (lock = OK \<and> data \<noteq> [] \<and> 5 + length path + length data \<le> MAX_BLOCK_PAYLOAD_SIZE c \<and> (\<forall>n. malloc_ok (n_heap s) n)
         \<longrightarrow> r = OK)"
proof -
  let ?e = "\<lparr>pe_path = path, pe_content_type = ct, pe_data = data\<rparr>"
  obtain r s' where "pouch_uplink_entry_write c lock (Some path) ct (Some data) s = Some (r, s')" "node_inv c s'"
    "balance s' = balance s" "entry_log s' = entry_log s @ (if r = OK then entry_image ?e else [])"
    "lock = OK \<longrightarrow> data \<noteq> [] \<longrightarrow> length (entry_image ?e) \<le> MAX_BLOCK_PAYLOAD_SIZE c
       \<longrightarrow> (\<forall>n. malloc_ok (n_heap s) n) \<longrightarrow> r = OK"
    using entry_write_spec [OF assms, of lock ct] by blast
  then show ?thesis by (intro exI [of _ r] exI [of _ s']) simp
qed

theorem entry_write_appends_witness:
  "\<exists>r s'. pouch_uplink_entry_write default_config OK (Some [97]) 42 (Some [1, 2]) (boot_node sample_heap ()) = Some (r, s')
     \<and> entry_log s' = (if r = OK then [0, 2, 0, 42, 1, 97, 1, 2] else [])"
proof -
  have "node_inv default_config (boot_node sample_heap ())" "entry_log (boot_node sample_heap ()) = []"
    by (simp_all add: boot_node_def uplink_init_def node_inv_def wf_reader_def buf_queue_init_def entry_log_def)
  then show ?thesis
    using entry_write_appends [OF valid_default_config, of "boot_node sample_heap ()" "[97]" "[1, 2]" OK 42]
    by (auto simp: SIZE_MOD_def entry_image_def sys_put_be16_def)
qed

text \<open>
  C11. Round trip of entries: finishing an open block that holds the encodings of a list of valid entries and handing it to the receiver calls the handlers for exactly these entries, in order, each with its path, content type and data.
\<close>

theorem entries_roundtrip:
  assumes "valid_config c" "wf_block c b" "is_entry_block b" "drop 3 (contents b) = concat (map entry_image es)"
    "list_all valid_entry es"
  shows "\<exists>b'. block_finish b = Some b'
    \<and> pouch_downlink_block_push hs b' a = deliver_entries hs (map entry_event_of es) a"
proof -
  obtain b' where b': "block_finish b = Some b'" "sendable c b'" "contents b' = block_image 0xC0 (concat (map entry_image es))"
    using block_finish_entry [OF assms(1-3)] assms(4) by auto
  have "length (concat (map entry_image es)) < 65535"
    using sendable_payload [OF b'(2) assms(1)] b'(3) by (simp add: payload_def block_image_def sys_put_be16_def)
  then have "pouch_downlink_block_push hs b' a = deliver_entries hs (map entry_event_of es) a"
    using block_push_entry_block [of b' "concat (map entry_image es)" hs a] b'(2,3) parse_entry_images [OF assms(5)]
    by (simp add: sendable_def)
  with b'(1) show ?thesis by blast
qed

theorem entries_roundtrip_witness:
  "\<exists>b'. block_finish \<lparr>pb_bytes = 11, pb_data = [0, 0, 0xC0, 0, 2, 0, 42, 1, 97, 1, 2] @ replicate 504 0\<rparr> = Some b'
     \<and> pouch_downlink_block_push [] b' () = Some ()"
proof -
  let ?b = "\<lparr>pb_bytes = 11, pb_data = [0, 0, 0xC0, 0, 2, 0, 42, 1, 97, 1, 2] @ replicate 504 0\<rparr>"
  let ?e = "\<lparr>pe_path = [97], pe_content_type = 42, pe_data = [1, 2]\<rparr>"
  have "wf_block default_config ?b" "is_entry_block ?b" "drop 3 (contents ?b) = concat (map entry_image [?e])"
    "list_all valid_entry [?e]"
    by (simp_all add: wf_block_def wf_buf_def SIZE_MOD_def is_entry_block_def contents_def entry_image_def
        sys_put_be16_def valid_entry_def)
  then show ?thesis
    using entries_roundtrip [OF valid_default_config, of ?b "[?e]" "[]" "()"]
    by (auto simp: entry_event_of_def deliver_entry_def)
qed

text \<open>
  C12. Equivalence of the pointer-based decoder with the reference decoder \<open>parse_entries\<close> over byte lists: the two agree on the entries, their order, the null pointer handed out for truncated data, and on the payloads (a header or a path cut off) for which the C code leaves the block's storage.
\<close>

theorem entries_decoder_reference:
  assumes "view_ok v"
  shows "pouch_downlink_entries_push hs v a = do { evs \<leftarrow> parse_entries (view_rest v); deliver_entries hs evs a }"
  using assms by (rule entries_push_parse)

theorem entries_decoder_reference_witness:
  "pouch_downlink_entries_push [] (pouch_bufview_init (Some \<lparr>pb_bytes = 4, pb_data = [0, 2, 0, 42, 1, 97, 1, 2]\<rparr>)) () = None"
proof -
  let ?v = "pouch_bufview_init (Some \<lparr>pb_bytes = 4, pb_data = [0, 2, 0, 42, 1, 97, 1, 2]\<rparr>)"
  have "view_ok ?v" by (simp add: wf_buf_def SIZE_MOD_def)
  moreover have "parse_entries (view_rest ?v) = None" by (simp add: contents_def parse_entries.simps)
  ultimately show ?thesis using entries_decoder_reference [of ?v "[]" "()"] by simp
qed

text \<open>
  C13. Round trip of streams: open, any number of writes of any size, close. The blocks that reach the uplink queue, pushed into a receiver, start the stream once with its path and content type and then deliver the written bytes in order, with the end marked on the last piece only. Every write is complete, no buffer is lost and the number of open streams is what it was.
\<close>

theorem stream_roundtrip_ok:
  fixes s :: "'c node" and hs :: "'a pouch_downlink_handler list"
  assumes "valid_config c" "node_inv c s" "\<forall>n. malloc_ok (n_heap s) n" "n_open_streams s < POUCH_STREAMS_MAX"
    "length path + 3 \<le> MAX_BLOCK_PAYLOAD_SIZE c" "length path < 256" "0 \<notin> set path"
    "concat xss \<noteq> []" "length (concat xss) < SIZE_MOD"
  shows "\<exists>st s1 st2 s2 s3 bs ds. pouch_uplink_stream_open c path ct s = Some (Some st, s1)
    \<and> stream_writes c xss st s1 = Some (st2, s2) \<and> pouch_stream_close (Some st2) s2 = Some (OK, s3)
    \<and> node_inv c s3 \<and> balance s3 = balance s \<and> n_open_streams s3 = n_open_streams s
    \<and> up_processing_queue (n_up s3) = up_processing_queue (n_up s) @ bs \<and> concat ds = concat xss
    \<and> (\<forall>a. push_blocks hs bs a = do { a \<leftarrow> downlink_start hs (unat (st_id st)) path ct a;
                                          downlink_chunks hs (unat (st_id st)) ds a })"
  using assms by (rule stream_roundtrip)

theorem stream_roundtrip_ok_witness:
  "\<exists>st s1 st2 s2 s3 bs. pouch_uplink_stream_open default_config [97, 98] 42 (boot_node sample_heap ()) = Some (Some st, s1)
     \<and> stream_writes default_config [[1, 2, 3], [4]] st s1 = Some (st2, s2) \<and> pouch_stream_close (Some st2) s2 = Some (OK, s3)
     \<and> up_processing_queue (n_up s3) = bs \<and> push_blocks [] bs () \<noteq> None"
proof -
  have n: "node_inv default_config (boot_node sample_heap ())" "up_processing_queue (n_up (boot_node sample_heap ())) = []"
    "n_open_streams (boot_node sample_heap ()) = 0" "n_heap (boot_node sample_heap ()) = sample_heap"
    by (simp_all add: boot_node_def uplink_init_def node_inv_def wf_reader_def buf_queue_init_def)
  have m: "MAX_BLOCK_PAYLOAD_SIZE default_config = 512"
    by (simp add: MAX_BLOCK_PAYLOAD_SIZE_def MAX_BLOCK_PAYLOAD_SIZE_LOG_def default_config_def)
  have ch: "downlink_chunks [] i ds a = Some a" for i ds and a :: unit by (induction ds) simp_all
  show ?thesis
    using stream_roundtrip_ok [OF valid_default_config n(1), of "[97, 98]" "[[1, 2, 3], [4]]" 42 "[] :: unit pouch_downlink_handler list"] n m ch
    by (fastforce simp: POUCH_STREAMS_MAX_def SIZE_MOD_def)
qed

text \<open>
  C14. The path of a stream is not checked against the block: when the stream can be allocated and the path with its header is longer than the payload of a block, opening the stream writes outside the allocated buffer.
\<close>

theorem stream_open_long_path:
  fixes s :: "'c node"
  assumes "valid_config c" "\<forall>n. malloc_ok (n_heap s) n" "n_open_streams s < POUCH_STREAMS_MAX"
    "MAX_BLOCK_PAYLOAD_SIZE c < length path + 3"
  shows "pouch_uplink_stream_open c path ct s = None"
  using assms(1) by (cases rule: stream_open_cases [of c path ct s]) (use assms in auto)

theorem stream_open_long_path_witness:
  "pouch_uplink_stream_open default_config (replicate 600 97) 42 (boot_node sample_heap ()) = None"
  by (rule stream_open_long_path)
     (simp_all add: boot_node_def uplink_init_def POUCH_STREAMS_MAX_def MAX_BLOCK_PAYLOAD_SIZE_def
       MAX_BLOCK_PAYLOAD_SIZE_LOG_def default_config_def valid_config_def MAX_BLOCK_SIZE_FIELD_VALUE_def
       MAX_CIPHERTEXT_BLOCK_SIZE_def MAX_PLAINTEXT_BLOCK_SIZE_def BLOCK_HEADER_SIZE_def)







text \<open>
  C18. The replay checks do not survive the start of a session: once any downlink session has been started (no block need decrypt), every session identifier is accepted again, whatever its sequence number, and every pouch number is accepted, whatever was seen before.
\<close>

theorem replay_checks_forgotten:
  fixes s :: "('x, 'p) saead"
  assumes "saead_downlink_session_start c psa i alg l pkey s = Some (OK, s')"
  shows "is_valid_downlink i' alg' s' \<and> fst (saead_downlink_pouch_start n s') = OK"
  using session_start_forgets [OF assms] by blast

theorem replay_checks_forgotten_witness:
  "\<exists>s'. saead_downlink_session_start default_config sample_psa
        \<lparr>sid_type = SESSION_ID_TYPE_RANDOM, sid_initiator = POUCH_ROLE_SERVER, sid_value = replicate 16 3\<rparr> PSA_ALG_GCM 9 1
        (sample_saead\<lparr>sa_downlink := sample_session\<lparr>ss_flags := 7\<rparr>, server_seqnum := 5, server_pouch_id := 9\<rparr>) = Some (OK, s')
     \<and> is_valid_downlink (set_seqnum 4 \<lparr>sid_type = SESSION_ID_TYPE_SEQUENTIAL, sid_initiator = POUCH_ROLE_SERVER, sid_value = replicate 16 3\<rparr>)
         PSA_ALG_GCM s'
     \<and> fst (saead_downlink_pouch_start 1 s') = OK"
proof -
  let ?i = "\<lparr>sid_type = SESSION_ID_TYPE_RANDOM, sid_initiator = POUCH_ROLE_SERVER, sid_value = replicate 16 3\<rparr>"
  let ?s = "sample_saead\<lparr>sa_downlink := sample_session\<lparr>ss_flags := 7\<rparr>, server_seqnum := 5, server_pouch_id := 9\<rparr>"
  have v: "is_valid_downlink ?i PSA_ALG_GCM ?s"
    by (simp add: is_valid_downlink_def session_id_is_equal_def sample_session_def Let_def)
  have k: "session_key_generate sample_psa ?i PSA_ALG_GCM 9 1 (cert_server_key_get (sa_cert ?s)) DOWNLINK_KEY_USAGE (sa_psa ?s)
      = Some (5, ())"
    by (simp add: session_key_generate_def cert_server_key_get_def sample_saead_def sample_cert_def sample_psa_def
        session_key_info_build_def length_key_info_string INFO_MAX_LEN_def BASE64_STRLEN_def SESSION_ID_LEN_def mem_read_def
        SIZE_MOD_def Let_def)
  obtain s' where "saead_downlink_session_start default_config sample_psa ?i PSA_ALG_GCM 9 1 ?s = Some (OK, s')"
    unfolding saead_downlink_session_start_def using v k by (simp add: PSA_KEY_ID_NULL_def Let_def)
  then show ?thesis using replay_checks_forgotten by blast
qed

text \<open>
  C19. The result of the key derivation is not checked: without a server certificate the uplink session of the SAEAD build starts with success, active and with the null key.
\<close>

theorem session_starts_without_key:
  fixes s :: "('x, 'p) saead"
  assumes "pk_len (srv_pubkey (sa_cert s)) = 0" "psa_generate_random psa SESSION_ID_LEN (sa_psa s) = (Some xs, p)"
  shows "\<exists>s'. saead_crypto_session_start c psa alg s = Some (OK, s') \<and> ss_key (sa_uplink s') = PSA_KEY_ID_NULL
    \<and> bit (ss_flags (sa_uplink s')) SESSION_ACTIVE_FLAG"
  using uplink_starts_without_key [OF assms] by (simp add: saead_crypto_session_start_def)

theorem session_starts_without_key_witness:
  "\<exists>s'. saead_crypto_session_start default_config sample_psa PSA_ALG_GCM
       (sample_saead\<lparr>sa_cert := sample_cert\<lparr>srv_pubkey := \<lparr>pk_data = replicate 65 0, pk_len = 0\<rparr>\<rparr>\<rparr>) = Some (OK, s')
     \<and> ss_key (sa_uplink s') = PSA_KEY_ID_NULL"
  using session_starts_without_key [of "sample_saead\<lparr>sa_cert := sample_cert\<lparr>srv_pubkey := \<lparr>pk_data = replicate 65 0, pk_len = 0\<rparr>\<rparr>\<rparr>"
      sample_psa "replicate 16 7" "()" default_config PSA_ALG_GCM]
  by (auto simp: sample_psa_def SESSION_ID_LEN_def)

text \<open>
  C20. The server key is authenticated: with validation enabled, a call that reports success and changes the stored key has stored the key of the given certificate, which parsed and verified against the built-in CA certificate, together with its serial number; the call never writes outside the serial number's array.
\<close>

theorem server_key_authenticated:
  assumes "cert_inv s" "length (raw_ca_cert tls) < SIZE_MOD" "\<forall>ct. cert = Some ct \<longrightarrow> cert_ok ct"
    "ca_cert s = None \<or> ca_cert s = mbedtls_x509_crt_parse tls (raw_ca_cert tls)"
  shows "\<exists>r s'. pouch_server_certificate_set c tls cert s = Some (r, s') \<and> cert_inv s'
    \<and> (config_validate_server_cert c \<and> r = OK \<and> srv_pubkey s' \<noteq> srv_pubkey s \<longrightarrow>
        (\<exists>xs x ca. Option.bind cert cert_bytes = Some xs \<and> mbedtls_x509_crt_parse tls xs = Some x
           \<and> mbedtls_x509_crt_parse tls (raw_ca_cert tls) = Some ca
           \<and> mbedtls_x509_crt_verify tls x ca \<and> extract_pubkey tls x (srv_pubkey s) = (OK, srv_pubkey s')
           \<and> pouch_server_certificate_serial_get CERT_SERIAL_MAXLEN s' = Some (Inr (crt_serial tls x))))"
  using assms(1-3)
proof (cases rule: cert_server_set_cases [of s tls cert c])
  case (ok s' x xs)
  have sg: "pouch_server_certificate_serial_get CERT_SERIAL_MAXLEN s' = Some (Inr (crt_serial tls x))"
    using serial_get_after_set [OF ok(2)] ok(7) by simp
  have "\<exists>ca. mbedtls_x509_crt_parse tls (raw_ca_cert tls) = Some ca \<and> mbedtls_x509_crt_verify tls x ca"
    if "config_validate_server_cert c"
    using ok(5) that assms(4) by (auto dest: sym)
  with ok sg show ?thesis by (auto simp: pouch_server_certificate_set_def)
qed (auto simp: pouch_server_certificate_set_def)

theorem server_key_authenticated_witness:
  "\<exists>r s'. pouch_server_certificate_set default_config sample_tls (Some \<lparr>pc_buffer = Some [1, 2], pc_size = 2\<rparr>) sample_cert = Some (r, s')
     \<and> cert_inv s'"
  using server_key_authenticated [of sample_cert sample_tls "Some \<lparr>pc_buffer = Some [1, 2], pc_size = 2\<rparr>" default_config]
  by (auto simp: cert_inv_def sample_cert_def sample_tls_def SIZE_MOD_def cert_ok_def CERT_REF_LEN_def CERT_SERIAL_MAXLEN_def)

text \<open>
  C21. A closed session is drained over BLE in the SAEAD build: reading the uplink characteristic with any destination sizes of at least two bytes, more often than there are bytes waiting, reaches the end; the packets carry exactly the waiting bytes in order, only the first is marked first and only the last is marked last, and then the session is over and the packetizer is gone.
\<close>

theorem gatt_uplink_drains:
  assumes "saead_config c" "psa_sized psa" "node_inv c s" "saead_inv (n_crypto s)" "session_is_active s" "\<not> pouch_is_open s"
    "pk_fill pk = GOLIOTH_BLE_GATT_PACKETIZER_FILL_CALLBACK (uplink_fill_cb c (saead_ops c psa alg) True)"
    "list_all (\<lambda>len. 2 \<le> len) lens" "length (pending s) < length lens"
  shows "\<exists>chunks s'. uplink_reads c codec (saead_ops c psa alg) lens (Some pk, s) =
      Some (True, packet_images (pk_is_first pk) True chunks, None, s')
    \<and> concat chunks = pending s \<and> \<not> session_is_active s' \<and> up_header (n_up s') = None"
  using crypto_provider.closed_session_reads [OF saead_provider [OF assms(1,2)] assms(3-9), of codec] by blast

theorem gatt_uplink_drains_witness:
  "\<exists>chunks s'. uplink_reads default_config sample_codec (saead_ops default_config sample_psa PSA_ALG_GCM) [3, 2, 20, 20, 20]
       (Some (uplink_packetizer default_config (saead_ops default_config sample_psa PSA_ALG_GCM)), sample_closed sample_saead) =
     Some (True, packet_images True True chunks, None, s') \<and> concat chunks = [0xA1, 0, 1, 9] \<and> \<not> session_is_active s'"
  using gatt_uplink_drains [OF saead_config_default sample_psa_sized sample_closed_fields(2) _ sample_closed_fields(3,4), of sample_saead
      "uplink_packetizer default_config (saead_ops default_config sample_psa PSA_ALG_GCM)" PSA_ALG_GCM "[3, 2, 20, 20, 20]" sample_codec]
  by (auto simp: uplink_packetizer_def sample_closed_fields)

text \<open>
  C22. Round trip over BLE: the packets that a packetizer cuts from a pouch with any sizes, written one after the other to the downlink characteristic, have the effect of starting a downlink and pushing pieces that join to the pouch.
\<close>

theorem gatt_downlink_reassembles:
  assumes "golioth_ble_gatt_packetizer_start_buffer True src (length src) = Some pk" "length src + 1 < SIZE_MOD"
    "list_all (\<lambda>len. 2 \<le> len) lens" "length src < length lens"
  shows "\<exists>pkts pk' pieces. get_packets lens pk () = Some (True, pkts, pk', ()) \<and> concat pieces = src
    \<and> downlink_writes c codec ops pkts d = push_all c codec ops pieces (pouch_downlink_start c d)"
proof -
  have pk: "pk_fill pk = GOLIOTH_BLE_GATT_PACKETIZER_FILL_BUFFER src (length src)" "pk_is_first pk"
    using assms(1) by (auto simp: golioth_ble_gatt_packetizer_start_buffer_def)
  then obtain pieces pk' where g: "get_packets lens pk () = Some (True, packet_images True True pieces, pk', ())"
    "pieces \<noteq> []" "concat pieces = src"
    using get_packets_buffer [of pk src "length src" lens "()"] assms(2-4) by auto
  have "length xs \<le> length src" if "xs \<in> set pieces" for xs
    using that g(3) member_le_sum_list [of "length xs" "map length pieces"] by (auto simp: length_concat)
  then have "list_all (\<lambda>xs. length xs + 1 < SIZE_MOD) pieces" using assms(2) by (force simp: list_all_iff)
  then show ?thesis using g downlink_writes_images [of pieces c codec ops True True d] by auto
qed

theorem gatt_downlink_reassembles_witness:
  "\<exists>pkts pk' pieces. get_packets [3, 3, 3] (the (golioth_ble_gatt_packetizer_start_buffer True [1, 2] 2)) () = Some (True, pkts, pk', ())
     \<and> concat pieces = [1, 2]
     \<and> downlink_writes default_config sample_codec crypto_none_ops pkts (sample_downlink sample_none) =
         push_all default_config sample_codec crypto_none_ops pieces (pouch_downlink_start default_config (sample_downlink sample_none))"
  using gatt_downlink_reassembles [of "[1, 2]" "the (golioth_ble_gatt_packetizer_start_buffer True [1, 2] 2)" "[3, 3, 3]"]
  by (simp add: golioth_ble_gatt_packetizer_start_buffer_def SIZE_MOD_def)

text \<open>
  C23. A server certificate that is written in packets, none of them empty, has the effect of setting the joined certificate, and the connection is dropped exactly if that fails, provided that it fits \<^verbatim>\<open>CONFIG_POUCH_SERVER_CERT_MAX_LEN\<close>. The code does not compare its size with that: a longer one is written behind the allocation.
\<close>

theorem server_cert_over_gatt:
  assumes "config_server_cert_max_len c < SIZE_MOD" "malloc_ok h (mallocs h)"
    "list_all (\<lambda>xs. xs \<noteq> [] \<and> length xs + 1 < SIZE_MOD) chunks" "chunks \<noteq> []"
  shows "\<exists>ctx' h'. server_cert_writes c tls (packet_images True True chunks) ctx h ct =
    (if length (concat chunks) \<le> config_server_cert_max_len c
     then map_option (\<lambda>(err, ct). (err \<noteq> OK, ctx', h', ct)) (pouch_server_certificate_set c tls (Some (whole_cert (concat chunks))) ct)
     else None)"
  using assms by (rule server_cert_writes_images)

theorem server_cert_over_gatt_witness:
  "server_cert_writes (default_config\<lparr>config_server_cert_max_len := 4\<rparr>) sample_tls (packet_images True True [[1, 2, 3], [4, 5]])
     \<lparr>sc_packetizer = None, sc_cert = \<lparr>pc_buffer = None, pc_size = 0\<rparr>, sc_serial = \<lparr>sr_serial = replicate 20 0, sr_serial_len = 0, sr_serial_offset = 0\<rparr>\<rparr>
     sample_heap sample_cert = None"
  using server_cert_over_gatt [of "default_config\<lparr>config_server_cert_max_len := 4\<rparr>" sample_heap "[[1, 2, 3], [4, 5]]" sample_tls]
  by (auto simp: SIZE_MOD_def)

text \<open>
  C24. The dispatcher refines a map from stream numbers to services. Starting a stream that is not being served adds it to the map, with the first service that takes the path, and takes away only what that service was serving before; a path that no service takes changes nothing. The invariant, one stream in at most one slot, is kept.
\<close>

theorem dispatch_start_refines:
  assumes "dispatch_inv services d" "word_of_nat stream_id \<noteq> DOWNLINK_ID_INVALID" "routes d (word_of_nat stream_id) = None"
    "find_service services 0 path = Some m" "dispatch_downlink_start services stream_id path ct (d, a) = Some (d', a')"
  shows "dispatch_inv services d' \<and> (case m of
      None \<Rightarrow> d' = d \<and> a' = a
    | Some (i, partial, n) \<Rightarrow>
        routes d' = (\<lambda>x. if x = word_of_nat stream_id then Some i else if routes d x = Some i then None else routes d x)
        \<and> run_start_cb (services ! i) (word_of_nat stream_id) (remainder_of partial n path) a = Some a')"
proof (cases m)
  case None
  with assms show ?thesis by (simp add: dispatch_downlink_start_def)
next
  case (Some r)
  obtain i partial n where r: "r = (i, partial, n)" by (cases r)
  have i: "i < length services" using find_service_Some [of services 0 path i partial n] assms(4) Some r by simp
  have "d' = routed d (word_of_nat stream_id) i"
    "run_start_cb (services ! i) (word_of_nat stream_id) (remainder_of partial n path) a = Some a'"
    using dispatch_start_eq [of services path i partial n stream_id ct d a] assms(4,5) Some r by (auto dest: sym)
  with start_refines [OF assms(1,3,2) i] Some r show ?thesis by (simp add: routed_def)
qed

theorem dispatch_start_refines_witness:
  "\<exists>d'. dispatch_downlink_start sample_services 3 (cstr ''/.c'') 60 (dispatch_boot sample_services, sample_ota) = Some (d', sample_ota)
     \<and> routes d' = [3 \<mapsto> 0]"
proof -
  have st: "dispatch_downlink_start sample_services 3 (cstr ''/.c'') 60 (dispatch_boot sample_services, sample_ota) =
      Some (routed (dispatch_boot sample_services) 3 0, sample_ota)"
    using dispatch_start_eq [OF sample_find(1), of 3 60] by (simp add: run_start_cb_def sample_services_def sample_service_def)
  then show ?thesis
    using dispatch_start_refines [OF dispatch_inv_boot _ _ sample_find(1) st]
    by (auto simp: DOWNLINK_ID_INVALID_def routes_boot)
qed

text \<open>
  C25. Data of a stream goes to the service that the map names for it, whether or not that is the service seen last; without one it is dropped. The last piece takes the stream off the map, any other piece leaves the map as it is.
\<close>

theorem dispatch_data_refines:
  assumes "dispatch_inv services d" "word_of_nat stream_id \<noteq> DOWNLINK_ID_INVALID"
  shows "\<exists>d'. dispatch_inv services d' \<and> routes d' = (if is_last then (routes d)(word_of_nat stream_id := None) else routes d)
    \<and> dispatch_downlink_data services stream_id data len is_last (d, a) =
      (case routes d (word_of_nat stream_id) of
         None \<Rightarrow> Some (d', a)
       | Some i \<Rightarrow> map_option (Pair d') (svc_data_cb (services ! i) (word_of_nat stream_id) data len is_last a))"
proof (cases "routes d (word_of_nat stream_id)")
  case None
  then have "routes d = (routes d)(word_of_nat stream_id := None)" by auto
  with None assms dispatch_data_eq [OF assms, of data len is_last a] show ?thesis
    by (intro exI [of _ d]) auto
next
  case (Some i)
  show ?thesis
    using finish_refines [OF assms(1) Some] assms(1) dispatch_data_eq [OF assms, of data len is_last a] Some
    by (cases is_last) auto
qed

theorem dispatch_data_refines_witness:
  "\<exists>d'. routes d' = Map.empty \<and> dispatch_downlink_data sample_services 3 (Some [1]) 1 True (dispatch_boot sample_services, sample_ota) =
     Some (d', sample_ota)"
  using dispatch_data_refines [OF dispatch_inv_boot, of 3 sample_services True "Some [1]" 1 sample_ota]
  by (auto simp: DOWNLINK_ID_INVALID_def routes_boot)

text \<open>
  C26. From the block to the services: pushing a block of entries through the library's parser and the dispatcher calls, entry by entry in the order of the block, the callbacks of the first service that takes the entry's path, with the rest of the path behind a wildcard and the whole data, and skips the entries that no service takes.
\<close>

theorem entries_reach_services:
  assumes "wf_buf b" "contents b = block_image 0xC0 (concat (map entry_image es))" "length (concat (map entry_image es)) < 65535"
    "list_all valid_entry es" "dispatch_inv services d" "routes d 0 = None"
  shows "map_option snd (pouch_downlink_block_push [dispatch_handler services] b (d, a)) = service_entries services es a"
  using block_push_entry_block [OF assms(1-3), of "[dispatch_handler services]" "(d, a)"] parse_entry_images [OF assms(4)]
    deliver_entries_dispatch [OF assms(5,6), of es a] by simp

theorem entries_reach_services_witness:
  "map_option snd (pouch_downlink_block_push [dispatch_handler sample_services]
       \<lparr>pb_bytes = 13, pb_data = [0, 11, 0xC0, 0, 2, 0, 60, 3, 47, 46, 99, 1, 2]\<rparr> (dispatch_boot sample_services, sample_ota)) =
     Some (sample_ota\<lparr>ot_app := [1, 2]\<rparr>)"
proof -
  let ?e = "\<lparr>pe_path = cstr ''/.c'', pe_content_type = 60, pe_data = [1, 2]\<rparr>"
  have "service_entries sample_services [?e] sample_ota = Some (sample_ota\<lparr>ot_app := [1, 2]\<rparr>)"
    using sample_find(1) by (simp add: run_start_cb_def sample_services_def sample_service_def)
  then show ?thesis
    using entries_reach_services [of "\<lparr>pb_bytes = 13, pb_data = [0, 11, 0xC0, 0, 2, 0, 60, 3, 47, 46, 99, 1, 2]\<rparr>" "[?e]" sample_services
        "dispatch_boot sample_services" sample_ota]
    by (simp add: wf_buf_def SIZE_MOD_def contents_def block_image_def entry_image_def sys_put_be16_def cstr_def of_char_def valid_entry_def
        dispatch_inv_boot routes_boot)
qed

text \<open>
  C27. Downloading a component \<^verbatim>\<open>name@version\<close>: after its start, the chunks of data reach the callback of the registered component, each with the total length of those before it as its offset and the last one marked, if the component is marked for download; if it is not, the application sees none of them.
\<close>

theorem ota_download:
  assumes "ota_inv oc o'" "registry_ok oc (ot_components o')" "r \<in> set (ot_components o')"
    "length (rc_name r) \<le> config_ota_max_package_name_len oc" "64 \<notin> set (rc_name r)" "0 \<notin> set ver"
    "i \<noteq> DOWNLINK_ID_INVALID" "length (concat chunks) < SIZE_MOD"
  shows "\<exists>dl. ota_receive_component_start i (Some (rc_name r @ 64 # ver)) (ot_download o') = Some dl
    \<and> map_option ot_app (ota_receive_chunks i chunks (o'\<lparr>ot_download := dl\<rparr>)) =
      (if rd_state (rc_data r) = GOLIOTH_OTA_STATE_DOWNLOADING then download_calls (rc_receive r) 0 chunks (ot_app o') else Some (ot_app o'))"
proof -
  have nz: "0 \<notin> set (rc_name r)" and dist: "distinct (map rc_name (ot_components o'))"
    using assms(2,3) by (auto simp: registry_ok_def list_all_iff)
  obtain dl where dl: "ota_receive_component_start i (Some (rc_name r @ 64 # ver)) (ot_download o') = Some dl"
    "cd_downlink_id dl = i" "cd_offset dl = 0" "c_string (cd_name dl) = rc_name r"
    using component_start_eq [of "rc_name r" "ot_download o'" ver i] assms(1,4-6) nz
    by (auto simp: ota_inv_def simp flip: length_greater_0_conv)
  let ?o = "o'\<lparr>ot_download := dl\<rparr>"
  show ?thesis
  proof (cases "rd_state (rc_data r) = GOLIOTH_OTA_STATE_DOWNLOADING")
    case True
    with receive_chunks_downloading [of ?o r chunks i] dl dist assms(3,7,8) show ?thesis by simp
  next
    case False
    with receive_chunks_not_downloading [of ?o r i chunks] dl dist assms(3) show ?thesis by auto
  qed
qed

theorem ota_download_witness:
  "\<exists>dl. map_option ot_app (ota_receive_chunks 3 [[1, 2], [3]] (sample_ota\<lparr>ot_download := dl\<rparr>)) = Some [1, 2, 3]"
proof -
  have "ota_inv default_ota_config sample_ota" "registry_ok default_ota_config (ot_components sample_ota)"
    "sample_component \<in> set (ot_components sample_ota)"
    by (simp_all add: ota_inv_def registry_ok_def default_ota_config_def sample_ota_def sample_component_def cstr_def of_char_def
        GOLIOTH_OTA_COMPONENT_HASH_BIN_LEN_def)
  then show ?thesis
    using ota_download [of default_ota_config sample_ota sample_component "cstr ''2''" 3 "[[1, 2], [3]]"]
    by (auto simp: default_ota_config_def sample_component_def sample_ota_def cstr_def of_char_def DOWNLINK_ID_INVALID_def SIZE_MOD_def)
qed

text \<open>
  C28. Two paths that a server can send leave the memory of the OTA service: nothing behind the prefix (the dispatcher passes the null pointer, which is searched for the delimiter), and a component name that is longer than the configured maximum (it is copied without a comparison of sizes).
\<close>

theorem ota_component_path_faults:
  assumes "find_service services 0 path = Some (Some (i, True, n))" "services ! i = ota_component_service" "ota_inv oc o'"
    "length path = n \<or> (\<exists>nm ver. drop n path = nm @ 64 # ver \<and> 64 \<notin> set nm \<and> config_ota_max_package_name_len oc < length nm)"
  shows "dispatch_downlink_start services stream_id path ct (d, o') = None"
proof -
  have "run_start_cb (services ! i) (word_of_nat stream_id) (remainder_of True n path) o' = None"
    using assms(4)
  proof
    assume "length path = n"
    then show ?thesis using assms(2) by (simp add: run_start_cb_def remainder_of_def ota_component_service_def ota_receive_component_start_def)
  next
    assume "\<exists>nm ver. drop n path = nm @ 64 # ver \<and> 64 \<notin> set nm \<and> config_ota_max_package_name_len oc < length nm"
    then obtain nm ver where d: "drop n path = nm @ 64 # ver" "64 \<notin> set nm" "config_ota_max_package_name_len oc < length nm" by blast
    then have "n < length path" by (metis append_is_Nil_conv drop_eq_Nil2 list.discI not_le)
    with d assms(2,3) component_start_long_name [of nm "ot_download o'" "word_of_nat stream_id" ver] show ?thesis
      by (simp add: run_start_cb_def remainder_of_def ota_component_service_def ota_inv_def)
  qed
  then show ?thesis using dispatch_start_eq [OF assms(1), of stream_id ct d o'] by simp
qed

theorem ota_component_path_faults_witness:
  "dispatch_downlink_start sample_services 1 (cstr ''/.u/c/'') 42 (dispatch_boot sample_services, sample_ota) = None"
  by (rule ota_component_path_faults [OF sample_find(4), of default_ota_config])
     (simp_all add: sample_services_def ota_inv_def default_ota_config_def sample_ota_def cstr_def)

text \<open>
  C29. The data callbacks that decode CBOR return, whatever the input: neither the loop over a settings document, nor the one over the settings in it, nor the two loops over a manifest and its components, nor the loop of the map decoder below them runs forever, if the library takes at least a byte for every key and every item that it decodes or skips and gives none back.
\<close>

theorem cbor_handlers_return:
  assumes "zcbor_consumes ops left" "mv_zcbor env = ops"
  shows "(\<exists>r. settings_downlink ops handlers key i data len is_last s = Some r)
    \<and> (\<exists>r. ota_receive_manifest env i data len is_last o' = Some r)"
  using settings_downlink_returns [OF assms(1)] ota_receive_manifest_returns [of env left] assms by auto

theorem cbor_handlers_return_witness:
  "(\<exists>r. settings_downlink sample_zcbor sample_handlers (ZCBOR_U32_KEY 0) 1 (Some [0xA1, 0x61]) 2 True \<lparr>settings_version = 0, se_app = []\<rparr> = Some r)
   \<and> (\<exists>r. ota_receive_manifest sample_manifest_env 1 (Some [0xBF, 3, 0x9F]) 3 True sample_ota = Some r)"
proof -
  have "mv_zcbor sample_manifest_env = sample_zcbor" by (simp add: sample_manifest_env_def)
  from cbor_handlers_return [OF sample_zcbor_consumes this] show ?thesis by blast
qed

text \<open>
  C30. What success of the map decoder means: it has called as many decoders as the table has entries, each of them with success, and the state that they store to is the result of exactly these calls. All entries have been decoded if and only if none has been decoded twice; a key that occurs twice is counted twice, so an entry may be missing.
\<close>

theorem map_decode_success:
  assumes "zcbor_map_decode ops entries key z s = Some (Some (OK, decoded, z', s'))"
  shows "decoded_by entries decoded s s' \<and> length decoded = length entries
    \<and> (set decoded = {..<length entries} \<longleftrightarrow> distinct decoded)"
proof -
  note ok = zcbor_map_decode_OK [OF assms]
  have "distinct decoded" if "set decoded = {..<length entries}"
    using that ok(2) by (simp add: card_distinct)
  with ok show ?thesis by blast
qed

theorem map_decode_success_witness:
  "\<exists>l. decoded_by (component_entries sample_zcbor) [0, 0, 1, 2]
     \<lparr>cl_component = empty_component default_ota_config, cl_hash_str = replicate 65 9\<rparr> l \<and> cl_hash_str l = replicate 65 9"
proof -
  let ?l = "\<lparr>cl_component = \<lparr>oc_package = 102 # replicate 32 0, oc_version = 50 # replicate 32 0, oc_hash = replicate 32 0, oc_size = 9\<rparr>,
     cl_hash_str = replicate 65 (9 :: byte)\<rparr>"
  have "zcbor_map_decode sample_zcbor (component_entries sample_zcbor) (ZCBOR_U32_KEY 0)
      ([0xA4, 1, 0x61, 102, 1, 0x61, 102, 2, 0x61, 50, 4, 9], 1, [], 1)
      \<lparr>cl_component = empty_component default_ota_config, cl_hash_str = replicate 65 9\<rparr> = Some (Some (OK, [0, 0, 1, 2], ([], 0, [], 1), ?l))"
    by code_simp
  from map_decode_success [OF this] show ?thesis by auto
qed

text \<open>
  C31. A server can make the settings service read from an address of its choice: after a key of seven or eight characters other than \<^verbatim>\<open>settings\<close> and \<^verbatim>\<open>version\<close>, a key that is a number is compared with the names of the entries, and the number is taken for the address of a string whose length is the one left over from the key before.
\<close>

theorem settings_number_faults:
  assumes "zcbor_map_start_decode ops (zcbor_new_decode_state ops 2 xs) = (True, z0)" "length xs < SIZE_MOD"
    and "zcbor_list_or_map_end ops z0 = Some False" "map_option ZCBOR_MAJOR_TYPE (zs_payload ops z0) = Some ZCBOR_MAJOR_TYPE_TSTR"
    "zcbor_tstr_decode ops z0 = (Some (p, nm), z1)" "zcbor_any_skip ops z1 = (True, z2)"
    and "length nm = 7 \<or> length nm = 8" "nm \<noteq> cstr ''settings''" "nm \<noteq> cstr ''version''"
    and "zcbor_list_or_map_end ops z2 = Some False" "map_option ZCBOR_MAJOR_TYPE (zs_payload ops z2) = Some ZCBOR_MAJOR_TYPE_PINT"
    "zcbor_uint32_decode ops z2 = (Some n, z3)"
  shows "settings_downlink ops handlers key i (Some xs) (length xs) is_last s = Some None"
  using assms by (rule settings_number_after_name)

theorem settings_number_faults_witness:
  "settings_downlink sample_zcbor sample_handlers (ZCBOR_U32_KEY 0) 1 (Some ([0xA2] @ cbor_str ''verzion'' @ [1, 5, 1]))
     (length ([0xA2] @ cbor_str ''verzion'' @ [1, 5, 1])) True \<lparr>settings_version = 0, se_app = []\<rparr> = Some None"
proof -
  let ?xs = "[0xA2] @ cbor_str ''verzion'' @ [1, 5, 1]"
  have z: "zcbor_map_start_decode sample_zcbor (zcbor_new_decode_state sample_zcbor 2 ?xs) = (True, tl ?xs, 4, [0], 1)"
    "zcbor_list_or_map_end sample_zcbor (tl ?xs, 4, [0], 1) = Some False"
    "map_option ZCBOR_MAJOR_TYPE (zs_payload sample_zcbor (tl ?xs, 4, [0], 1)) = Some ZCBOR_MAJOR_TYPE_TSTR"
    "zcbor_tstr_decode sample_zcbor (tl ?xs, 4, [0], 1) = (Some (4096, cstr ''verzion''), [1, 5, 1], 3, [0], 1)"
    "zcbor_any_skip sample_zcbor ([1, 5, 1], 3, [0], 1) = (True, [5, 1], 2, [0], 1)"
    "zcbor_list_or_map_end sample_zcbor ([5, 1], 2, [0], 1) = Some False"
    "map_option ZCBOR_MAJOR_TYPE (zs_payload sample_zcbor ([5, 1], 2, [0], 1)) = Some ZCBOR_MAJOR_TYPE_PINT"
    "zcbor_uint32_decode sample_zcbor ([5, 1], 2, [0], 1) = (Some 5, [1], 1, [0], 1)"
    by code_simp+
  have l: "length ?xs < SIZE_MOD" by (simp add: cbor_str_def cstr_def SIZE_MOD_def)
  have n: "length (cstr ''verzion'') = 7 \<or> length (cstr ''verzion'') = 8" "cstr ''verzion'' \<noteq> cstr ''settings''"
    "cstr ''verzion'' \<noteq> cstr ''version''" by (simp_all add: cstr_def of_char_def)
  show ?thesis by (rule settings_number_faults [OF z(1) l z(2-5) n z(6-8)])
qed

text \<open>
  C32. The settings of a document reach the application: decoding a map from which the library reads a list of settings is handing them over one by one in their order, each to the first handler with its name (cut to 31 bytes) and only if the type of the value is the type of the handler's callback. A handler whose own name is longer than 31 bytes is never called.
\<close>

theorem settings_handed_over:
  assumes "list_all handler_ok handlers"
    and "zcbor_nil_expect ops z = (False, z0)" "zcbor_map_start_decode ops z0 = (True, z1)" "settings_read ops z1 items z2"
    "zcbor_map_end_decode ops z2 = (True, z3)"
  shows "settings_decode ops handlers z s =
      Some (map_option (\<lambda>a. (OK, z3, s\<lparr>se_app := a\<rparr>)) (hand_over_all handlers items (se_app s)))
    \<and> (list_all (\<lambda>h. 31 < length (sh_key h)) handlers \<longrightarrow> hand_over_all handlers items (se_app s) = Some (se_app s))"
proof -
  have "settings_decode ops handlers z s =
      Some (map_option (\<lambda>a. (OK, z3, s\<lparr>se_app := a\<rparr>)) (hand_over_all handlers items (se_app s)))"
    using assms(2,3,5) settings_rounds_eq [OF assms(1,4), of s]
    by (cases "hand_over_all handlers items (se_app s)") (simp_all add: settings_decode_def)
  moreover have "list_all (\<lambda>h. 31 < length (sh_key h)) handlers \<longrightarrow> hand_over_all handlers items (se_app s) = Some (se_app s)"
    using long_name_never_called [of handlers items "se_app s"] by (simp add: GOLIOTH_SETTINGS_MAX_NAME_LEN_def)
  ultimately show ?thesis by blast
qed

theorem settings_handed_over_witness:
  "settings_decode sample_zcbor sample_handlers (sample_settings_doc, 1, [], 2) \<lparr>settings_version = 0, se_app = []\<rparr> =
     Some (Some (OK, ([], 0, [], 2), \<lparr>settings_version = 0, se_app = [5]\<rparr>))"
proof -
  have h: "list_all handler_ok sample_handlers" by (simp add: sample_handlers_def)
  have z: "zcbor_nil_expect sample_zcbor (sample_settings_doc, 1, [], 2) = (False, sample_settings_doc, 1, [], 2)"
    "zcbor_map_start_decode sample_zcbor (sample_settings_doc, 1, [], 2) = (True, tl sample_settings_doc, 4, [0], 1)"
    "zcbor_map_end_decode sample_zcbor ([], 0, [0], 1) = (True, [], 0, [], 2)"
    by code_simp+
  have a: "hand_over_all sample_handlers [(cstr ''A'', Some (Int_val 5)), (cstr ''B'', Some (Bool_val True))] [] = Some [5]"
    by code_simp
  show ?thesis
    using settings_handed_over [OF h z(1,2) sample_settings_read z(3), of "\<lparr>settings_version = 0, se_app = []\<rparr>"] a by simp
qed

text \<open>
  C33. A manifest reaches the registry and the application: if the components come first, every registered component that is named in the list gets the target version, hash and size of its last mention, the others stay as they are, and the handlers of the application are then called with the updated registry. What stands behind the list is not read: the end of the list, which is never left, is taken for the end of the manifest.
\<close>

theorem manifest_reaches_registry:
  assumes "length xs < SIZE_MOD" "zcbor_map_start_decode (mv_zcbor env) (zcbor_new_decode_state (mv_zcbor env) 3 xs) = (True, z)"
    and "zcbor_list_or_map_end (mv_zcbor env) z = Some False" "zcbor_uint32_decode (mv_zcbor env) z = (Some MANIFEST_KEY_COMPONENTS, z1)"
    "zcbor_list_start_decode (mv_zcbor env) z1 = (True, z2)" "components_read env z2 ms z3"
    and "registry_ok (mv_config env) (ot_components o')"
  defines "rs \<equiv> map (fold (with_target (mv_config env)) ms) (ot_components o')"
  assumes "golioth_ota_manifest_complete (mv_handlers env) (o'\<lparr>ot_components := rs\<rparr>) = Some o''"
  shows "ota_receive_manifest env i (Some xs) (length xs) is_last o' = Some (Some o'')"
proof -
  have "rounds (components_round env) (z2, o') = Some (Some (True, z3, o'\<lparr>ot_components := rs\<rparr>))"
    unfolding rs_def by (rule components_rounds_eq [OF assms(6,7)])
  from manifest_components_last [OF assms(3-5) this] assms(9)
  have "rounds (manifest_round env) (z, o') = Some (Some o'')" by simp
  with assms(1,2) show ?thesis by (simp add: ota_receive_manifest_def mem_read_def)
qed

theorem manifest_reaches_registry_witness:
  "ota_receive_manifest sample_manifest_env 1 (Some sample_manifest_doc) (length sample_manifest_doc) True sample_ota =
     Some (Some (sample_ota\<lparr>ot_components := [with_target default_ota_config sample_manifest_component sample_component], ot_app := [1]\<rparr>))"
proof -
  have z: "zcbor_map_start_decode (mv_zcbor sample_manifest_env) (zcbor_new_decode_state (mv_zcbor sample_manifest_env) 3 sample_manifest_doc) =
      (True, drop 1 sample_manifest_doc, 2, [0], 2)"
    "zcbor_list_or_map_end (mv_zcbor sample_manifest_env) (drop 1 sample_manifest_doc, 2, [0], 2) = Some False"
    "zcbor_uint32_decode (mv_zcbor sample_manifest_env) (drop 1 sample_manifest_doc, 2, [0], 2) =
      (Some MANIFEST_KEY_COMPONENTS, drop 2 sample_manifest_doc, 1, [0], 2)"
    "zcbor_list_start_decode (mv_zcbor sample_manifest_env) (drop 2 sample_manifest_doc, 1, [0], 2) = (True, drop 3 sample_manifest_doc, 1, [0, 0], 1)"
    by code_simp+
  have l: "length sample_manifest_doc < SIZE_MOD" by (simp add: sample_manifest_doc_def cbor_str_def cstr_def SIZE_MOD_def)
  have r: "registry_ok (mv_config sample_manifest_env) (ot_components sample_ota)"
    by (simp add: registry_ok_def sample_manifest_env_def default_ota_config_def sample_ota_def sample_component_def cstr_def of_char_def
        GOLIOTH_OTA_COMPONENT_HASH_BIN_LEN_def)
  have c: "golioth_ota_manifest_complete (mv_handlers sample_manifest_env)
      (sample_ota\<lparr>ot_components := map (fold (with_target (mv_config sample_manifest_env)) [sample_manifest_component]) (ot_components sample_ota)\<rparr>) =
      Some (sample_ota\<lparr>ot_components := [with_target default_ota_config sample_manifest_component sample_component], ot_app := [1]\<rparr>)"
    by (simp add: sample_manifest_env_def sample_ota_def golioth_ota_manifest_complete_def)
  show ?thesis
    using manifest_reaches_registry [OF l z sample_components_read r c] by (simp add: sample_manifest_env_def sample_ota_def)
qed



text \<open>
  C35. The space for the header is too small for the longest device id: \<^verbatim>\<open>crypto_init\<close> of the plaintext build accepts an id of \<^verbatim>\<open>POUCH_DEVICE_ID_MAX_LEN\<close> characters, but then starting the uplink always fails, with the session not active and no buffer lost, whatever the state of the node and of the memory. Of the generated encoder it is assumed that it stays in the space it is given and writes CBOR of at least the minimal size.
\<close>

theorem longest_id_never_connects:
  assumes "\<not> config_saead c" "encoder_bounded codec" "encoder_cbor codec" "cfg_device_id cfg = Some d" "length d = POUCH_DEVICE_ID_MAX_LEN"
    and "\<not> session_is_active s" "n_crypto s = snd (none_crypto_init cfg cr)" "up_header (n_up s) = None"
  shows "fst (none_crypto_init cfg cr) = OK
    \<and> (\<exists>s'. pouch_uplink_start c codec crypto_none_ops s = Some (False, s') \<and> \<not> session_is_active s' \<and> balance s' = balance s)"
proof -
  have d: "device_id (n_crypto s) = Some d" using assms(4,5,7) by (simp add: none_crypto_init_def)
  have "POUCH_HEADER_MAX_LEN c < plaintext_header_size d"
    using assms(1,5) by (simp add: POUCH_HEADER_MAX_LEN_def plaintext_header_size_def cbor_tstr_size_def POUCH_DEVICE_ID_MAX_LEN_def)
  from no_plaintext_header [OF assms(1-3) d this, of "n_heap s"] obtain h' where
    "pouch_header_create c codec crypto_none_ops (n_crypto s) (n_heap s) = Some (None, h')" "bufs h' = bufs (n_heap s)" by blast
  then show ?thesis
    using assms(4-6,8) by (simp add: none_crypto_init_def pouch_uplink_start_def none_session_start_def none_pouch_start_def crypto_none_ops_def Let_def
        flag_tests flag_numbers balance_def owned_def clear_flag_def set_flag_def map_up_def bit_simps)
qed

theorem longest_id_never_connects_witness:
  "\<exists>s'. pouch_uplink_start plaintext_config sample_cbor_codec crypto_none_ops (boot_node sample_heap \<lparr>device_id = Some (replicate 32 65)\<rparr>) = Some (False, s')"
proof -
  let ?cfg = "sample_config\<lparr>cfg_device_id := Some (replicate 32 65)\<rparr>" and ?s = "boot_node sample_heap \<lparr>device_id = Some (replicate 32 65)\<rparr>"
  have "\<not> config_saead plaintext_config" "cfg_device_id ?cfg = Some (replicate 32 65)" "length (replicate 32 (65 :: byte)) = POUCH_DEVICE_ID_MAX_LEN"
    "\<not> session_is_active ?s" "n_crypto ?s = snd (none_crypto_init ?cfg sample_none)" "up_header (n_up ?s) = None"
    by (simp_all add: plaintext_config_def POUCH_DEVICE_ID_MAX_LEN_def boot_node_def uplink_init_def map_up_def flag_tests none_crypto_init_def sample_none_def)
  from longest_id_never_connects [OF this(1) sample_cbor_codec_ok this(2-6)] show ?thesis by blast
qed







text \<open>
  C39. Loading the credentials: with files that can be read and memory for them, the key is the import of the contents of its file, with no buffer left behind, and the certificate is the contents of its file, in a buffer that \<^verbatim>\<open>free_certificate\<close> frees. Whatever fails, no path loses a buffer. An empty file is not told from success: then the key is read and freed through a pointer that has never been set, and the certificate is whatever the pointer on the stack refers to, with size zero.
\<close>

theorem credentials_from_files:
  assumes "file_reads fs (dir @ cstr ''/key.der'') key" "file_reads fs (dir @ cstr ''/crt.der'') crt" "\<forall>n. alloc_ok n"
  shows "\<exists>f1 f2. load_private_key fs pk alloc_ok dir (f, n) = (if key = [] then None else Some (import_raw_pk pk key, f1, n))
    \<and> load_certificate fs alloc_ok stray dir cert (f, n) =
        (OK, \<lparr>pc_buffer = (if crt = [] then stray else Some crt), pc_size = length crt\<rparr>, f2, n + (if crt = [] then 0 else 1))
    \<and> (crt \<noteq> [] \<longrightarrow> free_certificate True \<lparr>pc_buffer = Some crt, pc_size = length crt\<rparr> (f2, n + 1) = Some (f2, n))
    \<and> (\<forall>fs alloc_ok key m m'. load_private_key fs pk alloc_ok dir m = Some (key, m') \<longrightarrow> snd m' = snd m)
    \<and> (\<forall>fs alloc_ok e cert' m m'. load_certificate fs alloc_ok stray dir cert m = (Err e, cert', m') \<longrightarrow> cert' = cert \<and> snd m' = snd m)"
proof -
  obtain f1 where 1: "read_file fs alloc_ok dir (dir @ cstr ''/key.der'') (f, n) =
      (Inr (length key), if key = [] then None else Some key, f1, n + (if key = [] then 0 else 1))"
    using read_file_contents [OF assms(1)] assms(3) by blast
  obtain f2 where 2: "read_file fs alloc_ok dir (dir @ cstr ''/crt.der'') (f, n) =
      (Inr (length crt), if crt = [] then None else Some crt, f2, n + (if crt = [] then 0 else 1))"
    using read_file_contents [OF assms(2)] assms(3) by blast
  have load: "load_private_key fs pk alloc_ok dir (f, n) = (if key = [] then None else Some (import_raw_pk pk key, f1, n))"
    "load_certificate fs alloc_ok stray dir cert (f, n) =
        (OK, \<lparr>pc_buffer = (if crt = [] then stray else Some crt), pc_size = length crt\<rparr>, f2, n + (if crt = [] then 0 else 1))"
    using 1 2 by (auto simp: load_private_key_def load_certificate_def)
  have "\<forall>fs alloc_ok key m m'. load_private_key fs pk alloc_ok dir m = Some (key, m') \<longrightarrow> snd m' = snd m"
    using load_private_key_live by blast
  moreover have "\<forall>fs alloc_ok e cert' m m'. load_certificate fs alloc_ok stray dir cert m = (Err e, cert', m') \<longrightarrow> cert' = cert \<and> snd m' = snd m"
    using load_certificate_live by fastforce
  moreover have "crt \<noteq> [] \<longrightarrow> free_certificate True \<lparr>pc_buffer = Some crt, pc_size = length crt\<rparr> (f2, n + 1) = Some (f2, n)"
    by (simp add: free_certificate_def)
  ultimately show ?thesis using load by blast
qed

theorem credentials_from_files_witness:
  "\<exists>f1 f2. load_private_key sample_fs sample_pk (\<lambda>_. True) (cstr ''d'') ((), 0) = Some (7, f1, 0)
     \<and> load_certificate sample_fs (\<lambda>_. True) None (cstr ''d'') \<lparr>pc_buffer = None, pc_size = 0\<rparr> ((), 0) = (OK, \<lparr>pc_buffer = Some [1, 2, 3], pc_size = 3\<rparr>, f2, 1)"
proof -
  have "cstr ''d'' @ cstr ''/key.der'' = cstr ''d/key.der''" "cstr ''d'' @ cstr ''/crt.der'' = cstr ''d/crt.der''" by (simp_all add: cstr_def)
  then show ?thesis
    using credentials_from_files [of sample_fs "cstr ''d''" "[4, 5]" "[1, 2, 3]" "\<lambda>_. True" sample_pk "()" 0 None "\<lparr>pc_buffer = None, pc_size = 0\<rparr>"]
      sample_file_reads by (auto simp: import_raw_pk_def sample_pk_def)
qed

text \<open>
  C40. The two unions are used with the right member: the type tag that the decoder gives a value is that of the member it stores, the registration macro gives a handler the tag of its callback, and so handing a decoded setting to registered handlers whose callbacks do not fault does not fault: no value and no callback is read as another member.
\<close>

theorem setting_types_agree:
  assumes "setting_value_decode ops m z = (Some (t, v), z')"
    and "handlers = map (\<lambda>(nm, f). GOLIOTH_SETTINGS_HANDLER nm f) regs"
    and "\<forall>(nm, f) \<in> set regs. \<forall>v a. cb_type f = val_type v \<longrightarrow> apply_cb f v a \<noteq> None"
  shows "t = val_type v \<and> golioth_settings_receive_one handlers \<lparr>sv_key = key, sv_type = t, sv_val = v\<rparr> a \<noteq> None"
proof -
  have t: "t = val_type v" using assms(1) by (rule setting_value_decode_type)
  have "list_all handler_ok handlers" by (auto simp: assms(2) list_all_iff)
  from receive_one_eq [OF this, of "\<lparr>sv_key = key, sv_type = t, sv_val = v\<rparr>" a] t
  have "golioth_settings_receive_one handlers \<lparr>sv_key = key, sv_type = t, sv_val = v\<rparr> a = hand_over handlers key v a" by simp
  moreover have "hand_over handlers key v a \<noteq> None"
  proof (cases "find (\<lambda>h. sh_key h = key) handlers")
    case (Some h)
    then have "h \<in> set handlers" by (auto simp: find_Some_iff)
    then obtain nm f where "(nm, f) \<in> set regs" "h = GOLIOTH_SETTINGS_HANDLER nm f" by (auto simp: assms(2))
    with Some assms(3) show ?thesis by (fastforce simp: hand_over_def GOLIOTH_SETTINGS_HANDLER_def)
  qed (simp add: hand_over_def)
  ultimately show ?thesis using t by simp
qed

theorem setting_types_agree_witness:
  "golioth_settings_receive_one [led_handler sample_board] \<lparr>sv_key = cstr ''LED'', sv_type = GOLIOTH_SETTING_VALUE_TYPE_BOOL, sv_val = Bool_val True\<rparr>
     sample_app \<noteq> None"
proof -
  let ?regs = "[(cstr ''LED'', Bool_cb (led_setting_cb sample_board))]"
  have d: "setting_value_decode sample_zcbor ZCBOR_MAJOR_TYPE_SIMPLE ([0xF5], 1, [0], 1) =
      (Some (GOLIOTH_SETTING_VALUE_TYPE_BOOL, Bool_val True), [], 0, [0], 1)" by code_simp
  have h: "[led_handler sample_board] = map (\<lambda>(nm, f). GOLIOTH_SETTINGS_HANDLER nm f) ?regs" by (simp add: led_handler_def)
  have "apply_cb (Bool_cb (led_setting_cb sample_board)) v a \<noteq> None" if "GOLIOTH_SETTING_VALUE_TYPE_BOOL = val_type v" for v a
    using that by (cases v) (simp_all add: led_setting_cb_def)
  then have "\<forall>(nm, f) \<in> set ?regs. \<forall>v a. cb_type f = val_type v \<longrightarrow> apply_cb f v a \<noteq> None" by simp
  from setting_types_agree [OF d h this] show ?thesis by (rule conjunct2)
qed

section \<open>Further results\<close>

text \<open>
  In the SAEAD build, start from a fresh node and take any sequence of application calls (entries, streams, closing), transport calls (start, fill, finish) and runs of the work item, with allocation failing at arbitrary points. Every further call that keeps the preconditions of the API is free of undefined behaviour.
\<close>

theorem uplink_runs_safe:
  assumes "saead_config c" "psa_sized psa" "encoder_bounded codec" "saead_inv cr" "bufs h = 0"
    "reachable c codec (saead_ops c psa alg) (boot_env h cr) e" "call_ok c k e"
  shows "exec_call c codec (saead_ops c psa alg) k e \<noteq> None"
  using crypto_provider.reachable_safe [OF saead_provider [OF assms(1,2)] assms(3) env_inv_boot [where cinv = saead_inv, OF assms(5,4)]]
    assms(6,7) by blast

theorem uplink_runs_safe_witness:
  "exec_call default_config sample_codec (saead_ops default_config sample_psa PSA_ALG_GCM) Uplink_start
     (boot_env sample_heap sample_saead) \<noteq> None"
  by (rule uplink_runs_safe [OF _ _ _ _ _ reachable.init]) (simp_all add: boot_env_def)

text \<open>
  No buffer leaks and none is freed twice: in every reachable state of the SAEAD build the count that \<^verbatim>\<open>buf_active_count\<close> reports is the number of buffers held by the open entry block, the pending header, the two queues, the transport's reader and the open streams.
\<close>

theorem uplink_no_leak:
  assumes "saead_config c" "psa_sized psa" "encoder_bounded codec" "saead_inv cr" "bufs h = 0"
    "reachable c codec (saead_ops c psa alg) (boot_env h cr) e"
  shows "buf_active_count (n_heap (e_node e)) =
    own (n_block (e_node e)) + own (up_header (n_up (e_node e))) + int (length (up_processing_queue (n_up (e_node e))))
    + int (length (up_transport_queue (n_up (e_node e)))) + own (bv_buf (up_reader (n_up (e_node e)))) + int (length (e_streams e))"
proof -
  have "env_inv c saead_inv 0 e"
    using crypto_provider.reachable_inv [OF saead_provider [OF assms(1,2)] assms(3) env_inv_boot [where cinv = saead_inv, OF assms(5,4)]]
      assms(6) by blast
  then show ?thesis by (simp add: env_inv_def balance_def owned_def buf_active_count_def)
qed

theorem uplink_no_leak_witness:
  "buf_active_count (n_heap (e_node (boot_env sample_heap sample_saead))) = 0"
  using uplink_no_leak [OF saead_config_default sample_psa_sized sample_codec_bounded sample_saead_inv
      sample_heap_fields(1) reachable.init]
  by (simp add: boot_env_def boot_node_def uplink_init_def buf_queue_init_def)

text \<open>
  The plaintext build end to end: when the work item runs in an active session that is open, the processing queue is emptied and its blocks, unchanged and in order, with the session header in front of the first block of the session, are what the transport gets next.
\<close>

theorem plain_process_output:
  assumes "valid_config c" "none_inv (n_crypto s)" "node_inv c s" "session_is_active s" "pouch_is_open s"
  shows "\<exists>s'. process_blocks crypto_none_ops s = Some s' \<and> node_inv c s' \<and> balance s' = balance s
    \<and> up_processing_queue (n_up s') = []
    \<and> pending s' = pending s @ (if up_processing_queue (n_up s) = [] then [] else header_bytes s)
        @ concat (map contents (up_processing_queue (n_up s)))
    \<and> pouch_is_open s' = (\<not> pouch_is_closing s)"
proof -
  obtain es s' h cr where p: "process_blocks crypto_none_ops s = Some s'" "node_inv c s'" "balance s' = balance s"
    "pending s' = pending s @ (if es = [] then [] else header_bytes s) @ concat (map contents es)"
    "pouch_is_open s' \<longleftrightarrow> pouch_is_open s \<and> \<not> pouch_is_closing s"
    "encrypt_all crypto_none_ops (up_processing_queue (n_up s)) (n_heap s) (n_crypto s) = Some (es, h, cr)"
    "up_processing_queue (n_up s') = []"
    using crypto_provider.process_blocks_spec [OF crypto_none_provider [OF assms(1)] assms(2,3)] assms(4,5) by metis
  moreover have "es = up_processing_queue (n_up s)" using p(6) by (simp add: none_encrypt_all)
  ultimately show ?thesis using assms(5) by auto
qed

theorem plain_process_output_witness:
  "\<exists>s'. process_blocks crypto_none_ops (set_flag SESSION_ACTIVE (boot_node sample_heap sample_none)) = Some s' \<and> pending s' = []"
proof -
  let ?s = "set_flag SESSION_ACTIVE (boot_node sample_heap sample_none)"
  have "none_inv (n_crypto ?s)" "node_inv plaintext_config ?s" "session_is_active ?s" "pouch_is_open ?s"
    "up_processing_queue (n_up ?s) = []" "pending ?s = []"
    by (simp_all add: boot_node_def uplink_init_def node_inv_def flag_tests flag_numbers wf_reader_def buf_queue_init_def
        pending_def view_rest_def)
  then show ?thesis using plain_process_output [OF valid_plaintext_config, of ?s] by auto
qed

text \<open>
  Closing the pouch before the transport starts a session makes that session empty: with the closed flag set, the work item of the new session processes nothing, the first fill reports the end with no byte, and every queued block is still queued.
\<close>

theorem closed_before_start_sends_nothing:
  assumes "valid_config c" "encoder_bounded codec" "none_inv (n_crypto s)" "node_inv c s" "up_header (n_up s) = None"
    "\<not> session_is_active s" "\<not> pouch_is_open s" "pending s = []"
    "pouch_uplink_start c codec crypto_none_ops s = Some (True, s1)" "run_processing_work crypto_none_ops s1 = Some s2"
  shows "\<exists>s3. pouch_uplink_fill c crypto_none_ops len s2 = Some (POUCH_NO_MORE_DATA, 0, [], s3)
    \<and> up_processing_queue (n_up s3) = up_processing_queue (n_up s)"
  using crypto_provider.closed_session_empty [OF crypto_none_provider [OF assms(1)] assms(2-)] .

theorem closed_before_start_sends_nothing_witness:
  "\<exists>s1 s2 s3. pouch_uplink_start plaintext_config sample_codec crypto_none_ops (set_flag POUCH_CLOSED (boot_node sample_heap sample_none)) = Some (True, s1)
     \<and> run_processing_work crypto_none_ops s1 = Some s2
     \<and> pouch_uplink_fill plaintext_config crypto_none_ops 20 s2 = Some (POUCH_NO_MORE_DATA, 0, [], s3)"
proof -
  let ?s = "set_flag POUCH_CLOSED (boot_node sample_heap sample_none)"
  have i: "none_inv (n_crypto ?s)" "node_inv plaintext_config ?s" "up_header (n_up ?s) = None" "\<not> session_is_active ?s"
    "\<not> pouch_is_open ?s" "pending ?s = []" "\<not> up_processing_work (n_up ?s)"
    by (simp_all add: boot_node_def uplink_init_def node_inv_def flag_tests flag_numbers wf_reader_def buf_queue_init_def
        pending_def view_rest_def)
  obtain s1 where s1: "pouch_uplink_start plaintext_config sample_codec crypto_none_ops ?s = Some (True, s1)" "run_processing_work crypto_none_ops s1 = Some s1"
    by (simp add: pouch_uplink_start_def none_defs sample_none_def pouch_header_create_def write_header_def sample_codec_def
        buf_alloc_def malloc_def sample_heap_def POUCH_HEADER_MAX_LEN_def plaintext_config_def default_config_def
        POUCH_DEVICE_ID_MAX_LEN_def buf_poke_def buf_next_def mem_write_def buf_claim_def Let_def boot_node_def uplink_init_def
        buf_queue_init_def buf_queue_is_empty_def run_processing_work_def flag_tests flag_numbers pouch_event_emit_def)
  then show ?thesis
    using closed_before_start_sends_nothing [OF valid_plaintext_config sample_codec_bounded i(1-6) s1, of 20] by blast
qed

text \<open>
  A write to a valid stream with allocation failing at any point: the call does not fault, the payloads of the blocks it enqueues followed by the payload of the open buffer followed by the bytes not taken are the old payload followed by the data, the result is the number of bytes taken, and no buffer is lost.
\<close>

theorem stream_write_any_memory:
  fixes s :: "'c node"
  assumes "valid_config c" "stream_buf_ok c bid (st_buf st)" "node_inv c s" "st_session_id st = uplink_session_id s"
  shows "\<exists>n bs rest st' s'. pouch_stream_write c st data s = Some (n, st', s') \<and> n = length data - length rest
    \<and> up_processing_queue (n_up s') = up_processing_queue (n_up s) @ bs
    \<and> concat (map payload bs) @ payload (st_buf st') @ rest = payload (st_buf st) @ data
    \<and> node_inv c s' \<and> balance s' = balance s \<and> ((\<forall>k. malloc_ok (n_heap s) k) \<longrightarrow> n = length data)"
  using pouch_stream_write_spec [OF assms, of data] unfolding write_post_def by fastforce

theorem stream_write_any_memory_witness:
  "\<exists>n st' s'. pouch_stream_write default_config
       \<lparr>st_id = 1, st_buf = \<lparr>pb_bytes = 3, pb_data = [0, 0, 0x41] @ replicate 512 0\<rparr>, st_bytes = 0, st_session_id = 0\<rparr> [9, 8]
       (boot_node sample_heap ()) = Some (n, st', s') \<and> n = 2"
proof -
  let ?st = "\<lparr>st_id = 1, st_buf = \<lparr>pb_bytes = 3, pb_data = [0, 0, 0x41] @ replicate 512 0\<rparr>, st_bytes = 0, st_session_id = 0\<rparr>"
  have "node_inv default_config (boot_node sample_heap ())" "uplink_session_id (boot_node sample_heap ()) = 0"
    "n_heap (boot_node sample_heap ()) = sample_heap"
    by (simp_all add: boot_node_def uplink_init_def node_inv_def wf_reader_def buf_queue_init_def uplink_session_id_def)
  moreover have "stream_buf_ok default_config 0x41 (st_buf ?st)"
    by (simp add: stream_buf_ok_def wf_block_def wf_buf_def SIZE_MOD_def contents_def)
  ultimately show ?thesis
    using stream_write_any_memory [OF valid_default_config, of "0x41" ?st "boot_node sample_heap ()" "[9, 8]"] by force
qed

text \<open>
  Stream numbers have five bits and 0 is reserved: any 32 numbers that \<^verbatim>\<open>new_stream_id\<close> hands out in a row contain a repetition, while the limit on open streams is 126.
\<close>

theorem stream_numbers_repeat:
  "\<not> distinct (new_stream_ids 32 n) \<and> 32 \<le> POUCH_STREAMS_MAX"
  using new_stream_ids_repeat [of 32 n] by (simp add: POUCH_STREAMS_MAX_def)

text \<open>
  A received block without an identifier byte (fewer than three bytes) is not rejected: the size that is left wraps around and the decoder leaves the block's storage, whatever the block's bytes are.
\<close>

theorem short_block_faults:
  assumes "pb_bytes b < 3" "capacity b < 65536"
  shows "pouch_downlink_block_push hs b a = None"
  using assms by (rule block_push_too_short)

theorem short_block_faults_witness:
  "pouch_downlink_block_push [] \<lparr>pb_bytes = 2, pb_data = replicate 531 0\<rparr> () = None"
  by (rule short_block_faults) simp_all

text \<open>
  Whatever bytes the transport pushes, in whatever state the downlink is and wherever allocation fails, the push does not fault, keeps the invariant of the downlink (among it: every queued block has its size field and fits a receive buffer) and loses no buffer.
\<close>

theorem downlink_push_safe:
  assumes "saead_config c" "psa_sized psa" "downlink_inv c saead_inv d"
  shows "\<exists>bs d'. pouch_downlink_push c codec (saead_ops c psa alg) buf d = Some d' \<and> downlink_inv c saead_inv d'
    \<and> dl_balance d' = dl_balance d \<and> dl_decrypt_queue d' = dl_decrypt_queue d @ bs \<and> list_all (received c) bs"
proof -
  obtain bs d' where "pouch_downlink_push c codec (saead_ops c psa alg) buf d = Some d'" "push_post c saead_inv buf d bs d'"
    using crypto_provider.push_spec [OF saead_provider [OF assms(1,2)] assms(3)] by blast
  then show ?thesis by (auto simp: push_post_def downlink_inv_def downlink_core_def)
qed

theorem downlink_push_safe_witness:
  "\<exists>d'. pouch_downlink_push default_config sample_codec (saead_ops default_config sample_psa PSA_ALG_GCM) [1, 2, 3]
     (pouch_downlink_start default_config (sample_downlink sample_saead)) = Some d'"
proof -
  have "downlink_inv default_config saead_inv (pouch_downlink_start default_config (sample_downlink sample_saead))"
    by (rule sample_downlink_started) simp_all
  then show ?thesis
    using downlink_push_safe [OF saead_config_default sample_psa_sized, of _ sample_codec PSA_ALG_GCM "[1, 2, 3]"] by blast
qed

text \<open>
  Framing of the downlink: after the header, let the bytes of any sequence of valid blocks arrive in pieces of any sizes. The blocks queued for decryption are exactly the first \<open>k\<close> blocks of the sequence, in order and unchanged, and the receive buffer holds exactly the bytes of the remaining ones: no byte is lost, added or reordered.
\<close>

theorem downlink_any_pieces:
  assumes "saead_config c" "psa_sized psa" "downlink_inv c saead_inv d" "dl_header d" "dl_buf d \<noteq> None" "\<forall>n. malloc_ok (dl_heap d) n"
    "list_all (valid_block c) xs" "rx_bytes d @ concat pieces = concat xs"
  shows "\<exists>k bs d'. push_all c codec (saead_ops c psa alg) pieces d = Some d' \<and> dl_decrypt_queue d' = dl_decrypt_queue d @ bs
    \<and> map contents bs = take k xs \<and> rx_bytes d' = concat (drop k xs)"
  using crypto_provider.push_all_spec [OF saead_provider [OF assms(1,2)] assms(3-8)] by blast

theorem downlink_any_pieces_witness:
  "\<exists>k bs d'. push_all default_config sample_codec (saead_ops default_config sample_psa PSA_ALG_GCM) [[0, 3, 1], [5, 6, 0, 1], [9]]
       (sample_receiving sample_saead) = Some d'
     \<and> map contents bs = take k [[0, 3, 1, 5, 6], [0, 1, 9]] \<and> rx_bytes d' = concat (drop k [[0, 3, 1, 5, 6], [0, 1, 9]])"
proof -
  have "list_all (valid_block default_config) [[0, 3, 1, 5, 6], [0, 1, 9]]"
    by (simp add: valid_block_def framed_def sys_get_be16_def)
  then show ?thesis
    using downlink_any_pieces [OF saead_config_default sample_psa_sized sample_receiving_inv [where cinv = saead_inv, OF sample_saead_inv] sample_receiving_fields(1-3),
        of "[[0, 3, 1, 5, 6], [0, 1, 9]]" "[[0, 3, 1], [5, 6, 0, 1], [9]]" sample_codec PSA_ALG_GCM]
    by (simp add: sample_receiving_fields) blast
qed

text \<open>
  Only one block is cut off per turn of the loop: when a single push puts a complete block and a second complete block into the empty receive buffer, the first is queued and the second stays in the buffer, also after \<^verbatim>\<open>pouch_downlink_finish\<close>; it is not delivered unless more bytes arrive.
\<close>

theorem second_block_stays_behind:
  fixes d :: "'c downlink"
  assumes "valid_config c" "downlink_inv c cinv d" "dl_header d" "dl_buf d = Some b" "contents b = []"
    "\<forall>n. malloc_ok (dl_heap d) n" "valid_block c x" "valid_block c y" "length x + length y \<le> MAX_CIPHERTEXT_BLOCK_SIZE c"
  shows "\<exists>b' d'. pouch_downlink_push c codec ops (x @ y) d = Some d' \<and> contents b' = x
    \<and> dl_decrypt_queue (pouch_downlink_finish d') = dl_decrypt_queue d @ [b'] \<and> rx_bytes (pouch_downlink_finish d') = y"
proof -
  have x: "framed x" "3 \<le> length x" using assms(7) by (simp_all add: valid_block_def)
  show ?thesis
    using push_front_block [OF assms(1-6) x assms(9), of codec ops] by (auto simp: pouch_downlink_finish_def)
qed

theorem second_block_stays_behind_witness:
  "\<exists>d'. pouch_downlink_push default_config sample_codec crypto_none_ops ([0, 1, 8] @ [0, 1, 9]) (sample_receiving sample_none) = Some d'
     \<and> rx_bytes d' = [0, 1, 9] \<and> length (dl_decrypt_queue d') = 1"
proof -
  have v: "valid_block default_config [0, 1, 8]" "valid_block default_config [0, 1, 9]"
    by (simp_all add: valid_block_def framed_def sys_get_be16_def)
  show ?thesis
    using second_block_stays_behind [OF valid_default_config sample_receiving_inv [where cinv = none_inv, OF sample_none_inv] sample_receiving_fields(1)
        sample_receiving_buf(1) sample_receiving_buf(2) sample_receiving_fields(3) v, of sample_codec crypto_none_ops]
    by (fastforce simp: pouch_downlink_finish_def sample_receiving_fields)
qed

text \<open>
  The decrypt work item of the SAEAD build, in every state of the invariant: it does not fault, it takes the oldest block off the queue, it keeps the invariant and every buffer is accounted for, whether the block decrypts or not.
\<close>

theorem downlink_decrypt_step:
  assumes "saead_config c" "psa_sized psa" "downlink_inv c saead_inv d"
  shows "\<exists>d'. run_decrypt_work (saead_ops c psa alg) d = Some d' \<and> downlink_inv c saead_inv d' \<and> dl_balance d' = dl_balance d
    \<and> dl_decrypt_queue d' = (if dl_decrypt_work d then tl (dl_decrypt_queue d) else dl_decrypt_queue d)"
  using crypto_provider.run_decrypt_spec [OF saead_provider [OF assms(1,2)] assms(3)] by blast

theorem downlink_decrypt_step_witness:
  "\<exists>d'. run_decrypt_work (saead_ops default_config sample_psa PSA_ALG_GCM)
       (block_downlink_push \<lparr>pb_bytes = 3, pb_data = [0, 1, 9]\<rparr> (sample_receiving sample_saead)) = Some d' \<and> dl_decrypt_queue d' = []"
proof -
  let ?d = "block_downlink_push \<lparr>pb_bytes = 3, pb_data = [0, 1, 9]\<rparr> (sample_receiving sample_saead)"
  have "received default_config \<lparr>pb_bytes = 3, pb_data = [0, 1, 9]\<rparr>"
    by (simp add: received_def wf_buf_def SIZE_MOD_def)
  then have "downlink_inv default_config saead_inv ?d"
    using sample_receiving_inv [where cinv = saead_inv, OF sample_saead_inv]
    by (simp add: downlink_inv_def downlink_core_def rx_room_def block_downlink_push_def decrypt_submit_def
        decrypt_work_submit_def buf_queue_submit_def)
  moreover have "dl_decrypt_work ?d" "length (dl_decrypt_queue ?d) = 1"
    by (simp_all add: block_downlink_push_def decrypt_submit_def decrypt_work_submit_def buf_queue_submit_def sample_receiving_fields)
  ultimately show ?thesis
    using downlink_decrypt_step [OF saead_config_default sample_psa_sized, of ?d PSA_ALG_GCM] by (cases "dl_decrypt_queue ?d") auto
qed

text \<open>
  Encryption of a finished block, on every branch: the block given is always released; either there is no result, and the session is unchanged, or the result is the size field followed by the AEAD output for the bytes behind the block's size field, under the session's key and nonce with the previous tag as additional data (none for the first block), and the session moves on to the new tag and the next index.
\<close>

theorem encrypted_block_form:
  fixes s :: "('x, 'p) saead"
  assumes "saead_config c" "psa_sized psa" "sendable c b" "bit (ss_flags (sa_uplink s)) SESSION_ACTIVE_FLAG"
  shows "\<exists>r h' s'. saead_uplink_encrypt_block c psa b h s = Some (r, h', s') \<and> bufs h' = bufs h - 1 + own r
    \<and> (case r of
         None \<Rightarrow> s' = s
       | Some e \<Rightarrow> \<exists>xs. psa_aead_encrypt psa (sa_psa s) (ss_key (sa_uplink s)) (ss_algorithm (sa_uplink s))
             (nonce_generate (sa_uplink s) POUCH_ROLE_DEVICE) (block_ad (sa_uplink s)) (drop 2 (contents b))
             (pb_bytes b - 2 + AUTH_TAG_LEN) = Some xs
           \<and> contents e = sys_put_be16 (word_of_nat (length xs)) @ xs
           \<and> ss_ad (sa_uplink s') = drop (pb_bytes b - 2) xs
           \<and> ss_block_index (sa_uplink s') = ss_block_index (sa_uplink s) + 1)"
  using assms(1-3)
proof (cases rule: session_encrypt_cases [where p = "sa_psa s" and ss = "sa_uplink s" and h = h])
  case (fail h')
  with assms(4) show ?thesis by (simp add: saead_uplink_encrypt_block_def buf_free_def)
next
  case (ok e h' xs)
  with assms(4) show ?thesis by (simp add: saead_uplink_encrypt_block_def buf_free_def)
qed

theorem encrypted_block_form_witness:
  "\<exists>r h' s'. saead_uplink_encrypt_block default_config sample_psa \<lparr>pb_bytes = 4, pb_data = [0, 2, 0xC0, 9]\<rparr> sample_heap
       (sample_saead\<lparr>sa_uplink := sample_session\<lparr>ss_flags := 2\<rparr>\<rparr>) = Some (r, h', s')
     \<and> bufs h' = own r - 1"
proof -
  have "sendable default_config \<lparr>pb_bytes = 4, pb_data = [0, 2, 0xC0, 9]\<rparr>"
    by (simp add: sendable_def wf_buf_def SIZE_MOD_def contents_def framed_def sys_get_be16_def)
  moreover have "bit (2 :: u32) SESSION_ACTIVE_FLAG" by (simp add: SESSION_ACTIVE_FLAG_def)
  ultimately show ?thesis
    using encrypted_block_form [OF saead_config_default sample_psa_sized, of "\<lparr>pb_bytes = 4, pb_data = [0, 2, 0xC0, 9]\<rparr>"
        "sample_saead\<lparr>sa_uplink := sample_session\<lparr>ss_flags := 2\<rparr>\<rparr>" sample_heap] by fastforce
qed

text \<open>
  The decryption of the SAEAD build lets nothing malformed through: a block that is not framed or that holds no more than a tag yields no result and leaves the module unchanged, and every block it does return is framed and has at least one byte behind the size field (so that the decoder's fault on short blocks is out of reach here).
\<close>

theorem malformed_ciphertext_refused:
  fixes s :: "('x, 'p) saead"
  assumes "saead_config c" "psa_sized psa" "saead_inv s" "wf_buf b" "2 \<le> pb_bytes b" "pb_bytes b \<le> MAX_CIPHERTEXT_BLOCK_SIZE c"
  shows "\<exists>r h' s'. saead_downlink_block_decrypt c psa (Some b) h s = Some (r, h', s') \<and> bufs h' = bufs h - 1 + own r
    \<and> (\<not> framed (contents b) \<or> pb_bytes b \<le> AUTH_TAG_LEN + 2 \<longrightarrow> r = None \<and> s' = s)
    \<and> (\<forall>d. r = Some d \<longrightarrow> framed (contents d) \<and> 3 \<le> pb_bytes d)"
proof -
  obtain r h' s' where d: "saead_downlink_block_decrypt c psa (Some b) h s = Some (r, h', s')" "bufs h' = bufs h - 1 + own r"
    "\<forall>d. r = Some d \<longrightarrow> wf_buf d \<and> framed (contents d) \<and> 3 \<le> pb_bytes d"
    using saead_decrypt_law [OF assms, of h] by blast
  have ad: "length (ss_ad (sa_downlink s)) = AUTH_TAG_LEN" using assms(3) by (simp add: saead_inv_def)
  from assms(1,2,4-6) ad have "\<not> framed (contents b) \<or> pb_bytes b \<le> AUTH_TAG_LEN + 2 \<longrightarrow> r = None \<and> s' = s"
    by (cases rule: session_decrypt_cases [where p = "sa_psa s" and h = h])
       (use d(1) in \<open>auto simp: saead_downlink_block_decrypt_def\<close>)
  with d show ?thesis by blast
qed

theorem malformed_ciphertext_refused_witness:
  "\<exists>h'. saead_downlink_block_decrypt default_config sample_psa (Some \<lparr>pb_bytes = 3, pb_data = [0, 1, 9]\<rparr>) sample_heap sample_saead
     = Some (None, h', sample_saead)"
proof -
  have "wf_buf \<lparr>pb_bytes = 3, pb_data = [0, 1, 9]\<rparr>" by (simp add: wf_buf_def SIZE_MOD_def)
  then show ?thesis
    using malformed_ciphertext_refused [OF saead_config_default sample_psa_sized sample_saead_inv,
        of "\<lparr>pb_bytes = 3, pb_data = [0, 1, 9]\<rparr>" sample_heap]
    by (fastforce simp: AUTH_TAG_LEN_def)
qed

text \<open>
  Round trip of session identifiers: the identifier that a freshly started uplink session puts into the pouch header is read back, by the code that interprets downlink headers, as the identifier of the session.
\<close>

theorem session_id_wire_roundtrip:
  fixes s :: "('x, 'p) saead"
  assumes "psa_sized psa" "saead_crypto_session_start c psa alg s = Some (OK, s')" "saead_uplink_header_get c s' = Inr info"
  shows "header_session_id (sa_session info) = Some (ss_id (sa_uplink s'))"
  using header_session_id_roundtrip [OF assms(3)] session_start_random_id [OF _ assms(1)] assms(2)
  unfolding saead_crypto_session_start_def by blast

theorem session_id_wire_roundtrip_witness:
  "\<exists>s' info. saead_crypto_session_start default_config sample_psa PSA_ALG_GCM sample_saead = Some (OK, s')
     \<and> saead_uplink_header_get default_config s' = Inr info
     \<and> header_session_id (sa_session info) = Some (ss_id (sa_uplink s'))"
proof -
  obtain s' where s': "saead_crypto_session_start default_config sample_psa PSA_ALG_GCM sample_saead = Some (OK, s')"
    by (simp add: saead_crypto_session_start_def saead_uplink_session_start_def session_id_generate_def sample_session_def sample_saead_def
        session_key_generate_def cert_server_key_get_def sample_cert_def sample_psa_def session_key_info_build_def
        length_key_info_string INFO_MAX_LEN_def BASE64_STRLEN_def SESSION_ID_LEN_def mem_read_def SIZE_MOD_def Let_def)
  moreover obtain info where "saead_uplink_header_get default_config s' = Inr info"
    using session_start_random_id [OF s' [unfolded saead_crypto_session_start_def]]
    by (auto simp: saead_uplink_header_get_def cert_ref_get_def cert_is_valid_def sample_saead_def sample_cert_def Let_def)
  ultimately show ?thesis using session_id_wire_roundtrip [OF sample_psa_sized] by blast
qed

text \<open>
  A failed start of an uplink session is fatal over BLE: \<^verbatim>\<open>uplink_read\<close> hands the null pointer to the packetizer, and for every size of the destination but one byte (for which the packetizer gives up first) the read goes through it.
\<close>

theorem failed_start_dereferences_null:
  assumes "pouch_uplink_start c codec ops s = Some (False, s1)" "len \<noteq> 1"
  shows "uplink_read c codec ops len 0 None s = None"
  using assms by (rule failed_start_read)

theorem failed_start_dereferences_null_witness:
  "uplink_read plaintext_config sample_codec crypto_none_ops 20 0 None (boot_node (sample_heap\<lparr>malloc_ok := (\<lambda>_. False)\<rparr>) sample_none) = None"
proof (rule failed_start_dereferences_null)
  let ?s = "boot_node (sample_heap\<lparr>malloc_ok := (\<lambda>_. False)\<rparr>) sample_none"
  show "pouch_uplink_start plaintext_config sample_codec crypto_none_ops ?s =
      Some (False, snd (the (pouch_uplink_start plaintext_config sample_codec crypto_none_ops ?s)))"
    by (simp add: pouch_uplink_start_def boot_node_def uplink_init_def flag_tests flag_numbers none_defs sample_none_def sample_heap_def
        pouch_header_create_def buf_alloc_def malloc_def Let_def)
qed simp

text \<open>
  The device certificate is read over BLE as it is stored: with any destination sizes of at least two bytes, the packets up to the one marked last carry exactly its bytes, and the characteristic is ready for the next reader.
\<close>

theorem device_cert_over_gatt:
  assumes "pouch_device_certificate_get ct = Inr cert" "cert_ok cert" "dc_packetizer ctx = None" "malloc_ok h (mallocs h)"
    "list_all (\<lambda>len. 2 \<le> len) lens" "pc_size cert < length lens"
  shows "\<exists>chunks ctx' h'. device_cert_reads ct lens (ctx, h) = Some (True, packet_images True True chunks, ctx', h')
    \<and> dc_packetizer ctx' = None \<and> cert_bytes cert = Some (concat chunks)"
  using assms by (rule device_cert_transfer)

theorem device_cert_over_gatt_witness:
  "\<exists>chunks ctx' h'. device_cert_reads sample_cert [2, 2, 9, 9] (\<lparr>dc_packetizer = None, dc_cert = \<lparr>pc_buffer = None, pc_size = 0\<rparr>\<rparr>, sample_heap) =
     Some (True, packet_images True True chunks, ctx', h') \<and> concat chunks = [1, 2, 3]"
  using device_cert_over_gatt [of sample_cert "\<lparr>pc_buffer = Some [1, 2, 3], pc_size = 3\<rparr>"
      "\<lparr>dc_packetizer = None, dc_cert = \<lparr>pc_buffer = None, pc_size = 0\<rparr>\<rparr>" sample_heap "[2, 2, 9, 9]"]
  by (force simp: pouch_device_certificate_get_def cert_is_valid_def sample_cert_def cert_ok_def SIZE_MOD_def cert_bytes_def mem_read_def)

text \<open>
  A service whose path has no wildcard is matched by prefix all the same: if it is the first in the list, it takes every path that begins with its own.
\<close>

theorem service_takes_longer_paths:
  assumes "svc_path service \<noteq> []" "last (svc_path service) \<noteq> 42"
  shows "find_service (service # services) 0 (svc_path service @ extra) = Some (Some (0, False, length (svc_path service)))"
  using assms by (simp add: service_prefix_def Let_def last_conv_nth)

theorem service_takes_longer_paths_witness:
  "find_service sample_services 0 (cstr ''/.config'') = Some (Some (0, False, 3))"
  using service_takes_longer_paths [of sample_service "[ota_component_service]" "cstr ''onfig''"]
  by (simp add: sample_services_def sample_service_def cstr_def of_char_def)

text \<open>
  The status follows the manifest: after a manifest entry for a registered component, \<^verbatim>\<open>golioth_ota_get_status\<close> reports the entry's version as its target, cut to one character less than the configured maximum, with the component's name, version and state unchanged, and every other component is as it was.
\<close>

theorem ota_manifest_status:
  assumes "registry_ok oc rs" "length (oc_hash m) = GOLIOTH_OTA_COMPONENT_HASH_BIN_LEN" "j < length rs"
    "rc_name (rs ! j) = c_string (oc_package m)"
  shows "\<exists>rs'. golioth_ota_manifest_receive_one m rs = Some rs' \<and> registry_ok oc rs'
    \<and> golioth_ota_get_status j rs' =
        Some (rc_name (rs ! j), rc_version (rs ! j), take (config_ota_max_version_len oc - 1) (c_string (oc_version m)), rd_state (rc_data (rs ! j)))
    \<and> (\<forall>k < length rs. k \<noteq> j \<longrightarrow> rs' ! k = rs ! k)"
  using assms by (rule status_after_manifest)

theorem ota_manifest_status_witness:
  "\<exists>rs'. golioth_ota_manifest_receive_one \<lparr>oc_package = cstr ''fw'' @ [0], oc_version = cstr ''2.0'' @ [0], oc_hash = replicate 32 5, oc_size = 9\<rparr>
       [sample_component] = Some rs'
     \<and> golioth_ota_get_status 0 rs' = Some (cstr ''fw'', cstr ''1'', cstr ''2.0'', GOLIOTH_OTA_STATE_DOWNLOADING)"
  using ota_manifest_status [of default_ota_config "[sample_component]"
      "\<lparr>oc_package = cstr ''fw'' @ [0], oc_version = cstr ''2.0'' @ [0], oc_hash = replicate 32 5, oc_size = 9\<rparr>" 0]
  by (force simp: registry_ok_def default_ota_config_def sample_component_def cstr_def of_char_def GOLIOTH_OTA_COMPONENT_HASH_BIN_LEN_def c_string_def)

text \<open>
  The event loop ends: whatever events are queued, the work item returns with an empty queue and a consistent node.
\<close>

theorem event_loop_ends:
  fixes s :: "'c node"
  assumes "valid_config c" "zcbor_enc_sized enc cap" "config_ota_max_package_name_len oc + 80 < SIZE_MOD" "node_inv c s" "n_event_work s"
  shows "\<exists>s' a'. run_event_work [pouch_event_handler c bd [Some (ota_uplink c oc enc rs), Some (settings_uplink c enc version)]] (s, a) = Some (Some (s', a'))
    \<and> node_inv c s' \<and> n_event_q s' = []"
  using event_handlers.event_work_spec [OF app_event_handlers [OF assms(1) golioth_services [OF assms(1-3)]], of s bd rs version a] assms(4,5) by blast

text \<open>
  The library as a whole, in the SAEAD build: initialise it, then take any sequence of application calls (entries, streams, closing), transport calls in both directions (start, fill, finish, and the downlink's start, push of arbitrary bytes, finish) and runs of the work items, over one allocator that fails at arbitrary points and one crypto module. Every further call that keeps the preconditions of the API is free of undefined behaviour; a run of the consuming work item is asked for a block that the parser can take, and the handlers may not fault themselves.
\<close>

theorem module_runs_safe:
  assumes "saead_config c" "psa_sized psa" "encoder_bounded codec" "saead_inv cr" "bufs h = 0" "handlers_total hs"
    and "pouch_init (saead_crypto_init tls) cfg (boot_pouch h cr x) = Some (r, p0)"
    and "module_reachable c codec (saead_ops c psa alg) hs p0 p" "module_call_ok c k p"
  shows "exec_module c codec (saead_ops c psa alg) hs k p \<noteq> None"
proof -
  have "module_inv c saead_inv p0" using pouch_init_saead [OF assms(7,4,5)] .
  then show ?thesis
    using crypto_provider.module_reachable_safe [OF saead_provider [OF assms(1,2)] assms(3) _ assms(6,8,9)] by blast
qed

theorem module_runs_safe_witness:
  "\<exists>p0 p. pouch_init (saead_crypto_init sample_tls) sample_config (boot_pouch sample_heap sample_saead []) = Some (OK, p0)
     \<and> exec_module default_config sample_codec (saead_ops default_config sample_psa PSA_ALG_GCM) [sample_collector] Down_start p0 = Some p
     \<and> exec_module default_config sample_codec (saead_ops default_config sample_psa PSA_ALG_GCM) [sample_collector] (Down_push [0xA1, 0, 9]) p \<noteq> None"
proof -
  let ?p0 = "(sample_pouch [])\<lparr>p_down := downlink_init (boot_downlink sample_heap sample_saead)\<rparr>"
  let ?ops = "saead_ops default_config sample_psa PSA_ALG_GCM"
  obtain p where p: "exec_module default_config sample_codec ?ops [sample_collector] Down_start ?p0 = Some p" by simp
  have "module_call_ok default_config Down_start ?p0" by simp
  from module_step [OF module_init this p] have "module_reachable default_config sample_codec ?ops [sample_collector] ?p0 p" .
  from module_runs_safe [OF saead_config_default sample_psa_sized sample_codec_bounded sample_saead_inv sample_heap_fields(1)
      sample_collector_total sample_pouch_init this, of "Down_push [0xA1, 0, 9]"] p
  show ?thesis by (intro exI [of _ ?p0] exI [of _ p]) (simp add: sample_pouch_init del: exec_module.simps)
qed

text \<open>
  No buffer is freed twice, and exactly one kind of leak exists: in every reachable state the count that \<^verbatim>\<open>buf_active_count\<close> reports is the number of buffers held by the open entry block, the pending header, the queues of both directions, the transport's reader, the open streams and the receive buffer, plus the number of receive buffers that a start of the downlink has overwritten without freeing them.
\<close>

theorem module_accounting:
  assumes "saead_config c" "psa_sized psa" "encoder_bounded codec" "saead_inv cr" "bufs h = 0" "handlers_total hs"
    and "pouch_init (saead_crypto_init tls) cfg (boot_pouch h cr x) = Some (r, p0)"
    and "module_reachable c codec (saead_ops c psa alg) hs p0 p"
  defines "s \<equiv> e_node (p_env p)" and "d \<equiv> p_down p"
  shows "buf_active_count (n_heap s) =
    own (n_block s) + own (up_header (n_up s)) + int (length (up_processing_queue (n_up s))) + int (length (up_transport_queue (n_up s)))
    + own (bv_buf (up_reader (n_up s))) + int (length (e_streams (p_env p)))
    + own (dl_buf d) + int (length (dl_decrypt_queue d)) + int (length (dl_consume_queue d)) + int (p_abandoned p)"
proof -
  have "module_inv c saead_inv p0" using pouch_init_saead [OF assms(7,4,5)] .
  then have "module_inv c saead_inv p"
    using crypto_provider.module_reachable_inv [OF saead_provider [OF assms(1,2)] assms(3) _ assms(6,8)] by blast
  from module_inv_bufs [OF this] show ?thesis
    by (simp add: s_def d_def owned_def dl_held_def buf_active_count_def)
qed

theorem module_accounting_witness:
  "\<exists>p1 p2. exec_module default_config sample_codec (saead_ops default_config sample_psa PSA_ALG_GCM) [sample_collector] Down_start
        ((sample_pouch [])\<lparr>p_down := downlink_init (boot_downlink sample_heap sample_saead)\<rparr>) = Some p1
     \<and> exec_module default_config sample_codec (saead_ops default_config sample_psa PSA_ALG_GCM) [sample_collector] Down_start p1 = Some p2
     \<and> p_abandoned p2 = 1 \<and> buf_active_count (n_heap (e_node (p_env p2))) = 2"
proof -
  let ?p0 = "(sample_pouch [])\<lparr>p_down := downlink_init (boot_downlink sample_heap sample_saead)\<rparr>"
  let ?ops = "saead_ops default_config sample_psa PSA_ALG_GCM"
  obtain p1 where 1: "exec_module default_config sample_codec ?ops [sample_collector] Down_start ?p0 = Some p1" by simp
  obtain p2 where 2: "exec_module default_config sample_codec ?ops [sample_collector] Down_start p1 = Some p2" by simp
  have "module_call_ok default_config Down_start ?p0" "module_call_ok default_config Down_start p1" by simp_all
  from module_step [OF module_step [OF module_init this(1) 1] this(2) 2]
  have "module_reachable default_config sample_codec ?ops [sample_collector] ?p0 p2" .
  note acc = module_accounting [OF saead_config_default sample_psa_sized sample_codec_bounded sample_saead_inv sample_heap_fields(1)
      sample_collector_total sample_pouch_init this]
  have "p_abandoned p2 = 1" "dl_buf (p_down p2) \<noteq> None"
    "dl_decrypt_queue (p_down p2) = []" "dl_consume_queue (p_down p2) = []" "e_streams (p_env p2) = []" "n_block (e_node (p_env p2)) = None"
    "up_header (n_up (e_node (p_env p2))) = None" "up_processing_queue (n_up (e_node (p_env p2))) = []"
    "up_transport_queue (n_up (e_node (p_env p2))) = []" "bv_buf (up_reader (n_up (e_node (p_env p2)))) = None"
    using 1 2 by (auto simp: sample_pouch_def boot_pouch_def boot_downlink_def downlink_init_def buf_queue_init_def pouch_downlink_start_def
        down_view_def put_down_def boot_env_def boot_node_def uplink_init_def map_up_def buf_alloc_def malloc_def sample_heap_def)
  with acc 1 2 show ?thesis by (intro exI [of _ p1] exI [of _ p2]) (auto simp del: exec_module.simps)
qed

end
